(* ===== verification/Go_Prelude.thy ===== *)
theory Go_Prelude
  imports Main "HOL-Library.Word" "HOL-Library.Sublist"
begin

text \<open>
  Shared vocabulary of the development: the machine types of Go, its error values, the outcome
  of a call (a value, an error or a panic), the functions of Go's standard library on byte
  strings that the log server uses (\<open>strings\<close>, \<open>bytes\<close>, \<open>bufio\<close>,
  \<open>strconv\<close>, \<open>encoding/hex\<close>), and the generic facts on lists, words and
  domain labels that the component theories share.
\<close>

named_theorems go_defs \<open>definitions that unfold in every component proof\<close>
named_theorems outcome_simps \<open>rewriting of call outcomes\<close>

section \<open>Machine types\<close>

text \<open>
  A Go string or byte slice is a list of bytes (\<open>char\<close> is an 8-bit value), so a
  conversion \<open>string(b)\<close> or \<open>[]byte(s)\<close> is the identity.  An array
  \<open>[n]byte\<close> is a byte string of length \<open>n\<close>.  \<open>uint64\<close> and
  \<open>int64\<close> (and \<open>int\<close>, which has 64 bits on the supported platforms) are
  64-bit words; a conversion between them is the identity on the bits.
\<close>

type_synonym bytes = string
type_synonym u64 = "64 word"
type_synonym i64 = "64 word"
type_synonym hash = bytes
type_synonym pubkey = bytes
type_synonym time = int \<comment> \<open>nanoseconds\<close>

abbreviation (input) HashSize :: nat where "HashSize \<equiv> 32"
abbreviation (input) SignatureSize :: nat where "SignatureSize \<equiv> 64"

definition copy_array :: "nat \<Rightarrow> bytes \<Rightarrow> bytes" where
  \<comment> \<open>\<open>var a [n]byte; copy(a[:], src)\<close>: a prefix of \<open>src\<close>, the rest stays zero\<close>
  "copy_array n src = take n src @ replicate (n - length src) (CHR 0x00)"

lemma length_copy_array [simp]: "length (copy_array n src) = n"
  by (simp add: copy_array_def)

lemma copy_array_exact [simp]: "length src = n \<Longrightarrow> copy_array n src = src"
  by (simp add: copy_array_def)

section \<open>Errors and outcomes\<close>

text \<open>
  The values of Go's \<open>error\<close> interface that the program makes or distinguishes.
  \<open>Errorf\<close> and \<open>Wrapf\<close> are the errors of \<open>fmt.Errorf\<close> (without and
  with \<open>%w\<close>), identified by the fixed text of the format; \<open>ApiError\<close> is
  \<open>api.NewError\<close> with its HTTP status; \<open>RpcError\<close> is an error of the gRPC
  client; \<open>ExtError\<close> stands for any error made outside of this repository.
\<close>

datatype go_error =
    ErrNotIncluded
  | ErrEmptyInclusionProof
  | ErrNotExist
  | ErrTooLong
  | ApiErrNotFound
  | ApiErrConflict
  | OsError nat
  | Errorf string
  | Wrapf string go_error
  | ApiError nat go_error
  | RpcError nat
  | ExtError string

datatype 'a result = Ok 'a | Err go_error | Panic string

fun is_ok :: "'a result \<Rightarrow> bool" where
  "is_ok (Ok _) = True"
| "is_ok (Err _) = False"
| "is_ok (Panic _) = False"

fun is_panic :: "'a result \<Rightarrow> bool" where
  "is_panic (Panic _) = True"
| "is_panic (Ok _) = False"
| "is_panic (Err _) = False"

lemma is_ok_iff: "is_ok r \<longleftrightarrow> (\<exists>x. r = Ok x)"
  by (cases r) auto

lemma is_panic_iff: "is_panic r \<longleftrightarrow> (\<exists>m. r = Panic m)"
  by (cases r) auto

fun map_result :: "('a \<Rightarrow> 'b) \<Rightarrow> 'a result \<Rightarrow> 'b result" where
  "map_result f (Ok x) = Ok (f x)"
| "map_result f (Err e) = Err e"
| "map_result f (Panic m) = Panic m"

fun bind_result :: "'a result \<Rightarrow> ('a \<Rightarrow> 'b result) \<Rightarrow> 'b result" where
  \<comment> \<open>\<open>x, err := r; if err != nil { return err }\<close>\<close>
  "bind_result (Ok x) f = f x"
| "bind_result (Err e) f = Err e"
| "bind_result (Panic m) f = Panic m"

lemma map_result_Ok_iff: "map_result f r = Ok y \<longleftrightarrow> (\<exists>x. r = Ok x \<and> y = f x)"
  by (cases r) auto

lemma bind_result_Ok_iff [outcome_simps]:
  "bind_result r f = Ok y \<longleftrightarrow> (\<exists>x. r = Ok x \<and> f x = Ok y)"
  by (cases r) auto

lemma bind_result_panic_iff [outcome_simps]:
  "is_panic (bind_result r f) \<longleftrightarrow> is_panic r \<or> (\<exists>x. r = Ok x \<and> is_panic (f x))"
  by (cases r) auto

fun mapM_result :: "('a \<Rightarrow> 'b result) \<Rightarrow> 'a list \<Rightarrow> 'b list result" where
  \<comment> \<open>a loop that appends one element per round and returns at the first error\<close>
  "mapM_result f [] = Ok []"
| "mapM_result f (x # xs) =
     bind_result (f x) (\<lambda>y. bind_result (mapM_result f xs) (\<lambda>ys. Ok (y # ys)))"

lemma mapM_result_Ok_iff:
  "mapM_result f xs = Ok ys \<longleftrightarrow> list_all2 (\<lambda>x y. f x = Ok y) xs ys"
proof (induction xs arbitrary: ys)
  case Nil
  then show ?case by (cases ys) auto
next
  case (Cons x xs)
  then show ?case by (cases ys) (auto simp: outcome_simps)
qed

lemma mapM_result_length: "mapM_result f xs = Ok ys \<Longrightarrow> length ys = length xs"
  by (simp add: mapM_result_Ok_iff list_all2_lengthD)

lemma mapM_result_not_panic:
  "(\<And>x. x \<in> set xs \<Longrightarrow> \<not> is_panic (f x)) \<Longrightarrow> \<not> is_panic (mapM_result f xs)"
  by (induction xs) (auto simp: outcome_simps)

lemma mapM_result_map_Ok:
  "(\<And>x. x \<in> set xs \<Longrightarrow> f x = Ok (g x)) \<Longrightarrow> mapM_result f xs = Ok (map g xs)"
  by (induction xs) auto

fun errors_Is_NotExist :: "go_error \<Rightarrow> bool" where
  \<comment> \<open>\<open>errors.Is(err, fs.ErrNotExist)\<close>\<close>
  "errors_Is_NotExist ErrNotExist = True"
| "errors_Is_NotExist (Wrapf _ e) = errors_Is_NotExist e"
| "errors_Is_NotExist _ = False"

text \<open>The HTTP status codes of \<open>net/http\<close> that the handlers use.\<close>

abbreviation (input) StatusBadRequest :: nat where "StatusBadRequest \<equiv> 400"
abbreviation (input) StatusForbidden :: nat where "StatusForbidden \<equiv> 403"
abbreviation (input) StatusNotFound :: nat where "StatusNotFound \<equiv> 404"
abbreviation (input) StatusTooManyRequests :: nat where "StatusTooManyRequests \<equiv> 429"

section \<open>Searching and splitting byte strings\<close>

fun IndexByte :: "bytes \<Rightarrow> char \<Rightarrow> nat option" where
  \<comment> \<open>\<open>strings.IndexByte\<close>; \<open>None\<close> is the result -1\<close>
  "IndexByte [] c = None"
| "IndexByte (x # xs) c = (if x = c then Some 0 else map_option Suc (IndexByte xs c))"

definition LastIndexByte :: "bytes \<Rightarrow> char \<Rightarrow> nat option" where
  "LastIndexByte s c = map_option (\<lambda>i. length s - Suc i) (IndexByte (rev s) c)"

lemma IndexByte_None_iff: "IndexByte s c = None \<longleftrightarrow> c \<notin> set s"
  by (induction s) auto

lemma IndexByte_None [simp]: "c \<notin> set s \<Longrightarrow> IndexByte s c = None"
  by (simp add: IndexByte_None_iff)

lemma IndexByte_SomeD:
  "IndexByte s c = Some i \<Longrightarrow> i < length s \<and> s ! i = c \<and> c \<notin> set (take i s)"
  by (induction s arbitrary: i) (auto split: if_splits)

lemma IndexByte_split:
  assumes "IndexByte s c = Some i"
  shows "s = take i s @ c # drop (Suc i) s"
  using IndexByte_SomeD [OF assms] by (metis id_take_nth_drop)

lemma IndexByte_append:
  "c \<notin> set xs \<Longrightarrow> IndexByte (xs @ c # ys) c = Some (length xs)"
  by (induction xs) auto

lemma LastIndexByte_None_iff: "LastIndexByte s c = None \<longleftrightarrow> c \<notin> set s"
  by (simp add: LastIndexByte_def IndexByte_None_iff)

lemma LastIndexByte_None [simp]: "c \<notin> set s \<Longrightarrow> LastIndexByte s c = None"
  by (simp add: LastIndexByte_None_iff)

lemma LastIndexByte_append:
  assumes "c \<notin> set ys"
  shows "LastIndexByte (xs @ c # ys) c = Some (length xs)"
  using IndexByte_append [of c "rev ys" "rev xs"] assms by (simp add: LastIndexByte_def)

section \<open>Labels of a domain name\<close>

text \<open>
  Both the public-suffix lookup and the domain allow-list walk a domain name by dropping its
  leftmost label.  \<open>label_suffixes\<close> is the reference definition of that walk: the
  domain itself, then what follows its first dot, and so on, longest first.
\<close>

function label_suffixes :: "string \<Rightarrow> string list" where
  "label_suffixes s =
     s # (case IndexByte s (CHR ''.'') of None \<Rightarrow> [] | Some i \<Rightarrow> label_suffixes (drop (Suc i) s))"
  by pat_completeness auto
termination
  by (relation "measure length") (auto dest: IndexByte_SomeD)

declare label_suffixes.simps [simp del]

lemma label_suffixes_single: "CHR ''.'' \<notin> set s \<Longrightarrow> label_suffixes s = [s]"
  by (subst label_suffixes.simps) simp

lemma label_suffixes_dot:
  "CHR ''.'' \<notin> set l \<Longrightarrow> label_suffixes (l @ CHR ''.'' # s) = (l @ CHR ''.'' # s) # label_suffixes s"
  by (subst label_suffixes.simps) (simp add: IndexByte_append)

lemma label_suffixes_Cons: "\<exists>ss. label_suffixes s = s # ss"
  by (subst label_suffixes.simps) simp

lemma label_suffixes_induct [case_names single dot]:
  assumes single: "\<And>s. CHR ''.'' \<notin> set s \<Longrightarrow> P s"
    and dot: "\<And>l s. CHR ''.'' \<notin> set l \<Longrightarrow> P s \<Longrightarrow> P (l @ CHR ''.'' # s)"
  shows "P d"
proof (induction d rule: label_suffixes.induct)
  case (1 d)
  show ?case
  proof (cases "IndexByte d (CHR ''.'')")
    case None
    then show ?thesis by (intro single) (simp add: IndexByte_None_iff)
  next
    case (Some i)
    have "P (take i d @ CHR ''.'' # drop (Suc i) d)"
      using IndexByte_SomeD [OF Some] "1" [OF Some] by (intro dot) auto
    then show ?thesis using IndexByte_split [OF Some] by simp
  qed
qed

lemma label_suffixes_suffix: "s \<in> set (label_suffixes d) \<Longrightarrow> suffix s d"
proof (induction d rule: label_suffixes_induct)
  case (single s)
  then show ?case by (simp add: label_suffixes_single)
next
  case (dot l d)
  then show ?case by (auto simp: label_suffixes_dot intro: suffix_appendI suffix_ConsI)
qed

lemma label_suffixes_decreasing:
  "sorted_wrt (\<lambda>a b. length b < length a) (label_suffixes d)"
proof (induction d rule: label_suffixes_induct)
  case (single s)
  then show ?case by (simp add: label_suffixes_single)
next
  case (dot l d)
  have "length s \<le> length d" if "s \<in> set (label_suffixes d)" for s
    using label_suffixes_suffix [OF that] by (rule suffix_length_le)
  with dot show ?case by (fastforce simp: label_suffixes_dot)
qed

lemma find_decreasing:
  \<comment> \<open>in a list of decreasing lengths the first hit is the longest one\<close>
  assumes "sorted_wrt (\<lambda>a b. length b < length a) xs" and "x \<in> set xs" and "P x"
    and "\<And>y. y \<in> set xs \<Longrightarrow> length x < length y \<Longrightarrow> \<not> P y"
  shows "find P xs = Some x"
  using assms by (induction xs) auto

end
