(* ===== verification/Api_Types.thy ===== *)
theory Api_Types
  imports Go_Prelude
begin

text \<open>
  The data that the components exchange, and the code outside of this repository that they
  call.  The types are those of \<open>sigsum-go/pkg/types\<close>, \<open>pkg/requests\<close> and
  \<open>pkg/submit-token\<close>; a Go struct that embeds another is a record with that record as
  a field.  The functions of \<open>sigsum-go\<close> are not part of this repository: they are
  the fields of the records \<open>leaf_codec\<close>, \<open>merkle_pkg\<close> and
  \<open>crypto_pkg\<close>, arguments of the definitions that use them.  What the program relies
  on is stated by the predicates \<open>codec_ok\<close>, \<open>merkle_ok\<close> and
  \<open>crypto_ok\<close>, and instances of them, built here, show that they can hold.
\<close>

section \<open>Tree heads, leaves, proofs and requests\<close>

record TreeHead =
  Size :: u64
  RootHash :: hash

record SignedTreeHead =
  sth_TreeHead :: TreeHead
  sth_Signature :: bytes

record Cosignature =
  cs_KeyHash :: hash
  cs_Timestamp :: u64
  cs_Signature :: bytes

record CosignedTreeHead =
  cth_SignedTreeHead :: SignedTreeHead
  cth_Cosignatures :: "Cosignature list"

abbreviation sth_Size :: "SignedTreeHead \<Rightarrow> u64" where
  "sth_Size sth \<equiv> Size (sth_TreeHead sth)"

abbreviation cth_Size :: "CosignedTreeHead \<Rightarrow> u64" where
  "cth_Size cth \<equiv> sth_Size (cth_SignedTreeHead cth)"

record Leaf =
  lf_Checksum :: hash
  lf_Signature :: bytes
  lf_KeyHash :: hash

record InclusionProof =
  ip_LeafIndex :: u64
  ip_Path :: "hash list"

record ConsistencyProof =
  cp_Path :: "hash list"

record LeafRequest =
  lr_Message :: hash
  lr_Signature :: bytes
  lr_PublicKey :: pubkey

record LeavesRequest =
  StartIndex :: u64
  EndIndex :: u64

record InclusionRequest =
  ir_Size :: u64
  ir_LeafHash :: hash

record ConsistencyRequest =
  OldSize :: u64
  NewSize :: u64

record SubmitHeader =
  Domain :: string
  Token :: bytes

text \<open>The lengths of the arrays in a Go \<open>types.Leaf\<close>, which its type guarantees.\<close>

definition leaf_wf :: "Leaf \<Rightarrow> bool" where
  "leaf_wf l \<longleftrightarrow> length (lf_Checksum l) = HashSize \<and> length (lf_Signature l) = SignatureSize
     \<and> length (lf_KeyHash l) = HashSize"

section \<open>Leaf serialization (\<open>types.Leaf\<close>, \<open>merkle.HashLeafNode\<close>)\<close>

record leaf_codec =
  ToBinary :: "Leaf \<Rightarrow> bytes"
  FromBinary :: "bytes \<Rightarrow> Leaf result"
  HashLeafNode :: "bytes \<Rightarrow> hash"

definition codec_ok :: "leaf_codec \<Rightarrow> bool" where
  \<comment> \<open>a leaf is 128 bytes on the wire, and reading gives back what was written\<close>
  "codec_ok cd \<longleftrightarrow>
     (\<forall>l. leaf_wf l \<longrightarrow> length (ToBinary cd l) = 128 \<and> FromBinary cd (ToBinary cd l) = Ok l)
   \<and> (\<forall>b l. FromBinary cd b = Ok l \<longrightarrow> leaf_wf l \<and> ToBinary cd l = b)
   \<and> (\<forall>b. \<not> is_panic (FromBinary cd b))
   \<and> (\<forall>b. length (HashLeafNode cd b) = HashSize)"

definition leaf_hash :: "leaf_codec \<Rightarrow> Leaf \<Rightarrow> hash" where
  "leaf_hash cd l = HashLeafNode cd (ToBinary cd l)"

lemma codec_okD:
  assumes "codec_ok cd"
  shows "leaf_wf l \<Longrightarrow> length (ToBinary cd l) = 128"
    and "leaf_wf l \<Longrightarrow> FromBinary cd (ToBinary cd l) = Ok l"
    and "FromBinary cd b = Ok l \<Longrightarrow> leaf_wf l"
    and "FromBinary cd b = Ok l \<Longrightarrow> ToBinary cd l = b"
    and "\<not> is_panic (FromBinary cd b)"
    and "length (HashLeafNode cd b) = HashSize"
  using assms unfolding codec_ok_def by blast+

definition concat_codec :: leaf_codec where
  \<comment> \<open>an instance: concatenation of the three arrays; the node hash keeps the first 32 bytes\<close>
  "concat_codec = \<lparr>
     ToBinary = (\<lambda>l. lf_Checksum l @ lf_Signature l @ lf_KeyHash l),
     FromBinary = (\<lambda>b. if length b \<noteq> 128 then Err (ExtError ''wrong leaf size'')
        else Ok \<lparr>lf_Checksum = take 32 b, lf_Signature = take 64 (drop 32 b), lf_KeyHash = drop 96 b\<rparr>),
     HashLeafNode = copy_array 32\<rparr>"

lemma split_32_64_32: "take 32 b @ take 64 (drop 32 b) @ drop 96 b = (b :: bytes)"
proof -
  have "take 64 (drop 32 b) @ drop 96 b = drop 32 b"
    using append_take_drop_id [of 64 "drop 32 b"] by simp
  then show ?thesis by simp
qed

lemma codec_ok_concat [simp]: "codec_ok concat_codec"
proof -
  have "length (ToBinary concat_codec l) = 128 \<and> FromBinary concat_codec (ToBinary concat_codec l) = Ok l"
    if "leaf_wf l" for l
    using that by (cases l) (simp add: leaf_wf_def concat_codec_def)
  moreover have "leaf_wf l \<and> ToBinary concat_codec l = b" if "FromBinary concat_codec b = Ok l" for b l
    using that split_32_64_32 [of b] by (auto simp: concat_codec_def leaf_wf_def split: if_splits)
  moreover have "\<not> is_panic (FromBinary concat_codec b)" for b
    by (simp add: concat_codec_def)
  moreover have "length (HashLeafNode concat_codec b) = 32" for b
    by (simp add: concat_codec_def)
  ultimately show ?thesis unfolding codec_ok_def by blast
qed

definition sample_leaf :: "char \<Rightarrow> Leaf" where
  \<comment> \<open>leaves for concrete inputs\<close>
  "sample_leaf c = \<lparr>lf_Checksum = replicate 32 c, lf_Signature = replicate 64 c, lf_KeyHash = replicate 32 c\<rparr>"

lemma sample_leaf_simps [simp]:
  "leaf_wf (sample_leaf c)"
  "ToBinary concat_codec (sample_leaf c) = replicate 128 c"
  "HashLeafNode concat_codec (replicate 128 c) = replicate 32 c"
  "FromBinary concat_codec (replicate 128 c) = Ok (sample_leaf c)"
  by (simp_all add: leaf_wf_def sample_leaf_def concat_codec_def copy_array_def flip: replicate_add)

lemma leaf_hash_sample [simp]: "leaf_hash concat_codec (sample_leaf c) = replicate 32 c"
  by (simp add: leaf_hash_def)

section \<open>The Merkle tree package (\<open>sigsum-go/pkg/merkle\<close>)\<close>

text \<open>
  A \<open>merkle.Tree\<close> is a value of an arbitrary type \<open>'t\<close>; a method that changes
  the tree returns the new one.
\<close>

record 't merkle_pkg =
  NewTree :: 't
  AddLeafHash :: "'t \<Rightarrow> hash \<Rightarrow> 't \<times> bool"
  GetLeafIndex :: "'t \<Rightarrow> hash \<Rightarrow> u64 result"
  tree_Size :: "'t \<Rightarrow> u64"
  GetRootHash :: "'t \<Rightarrow> hash"
  ProveConsistency :: "'t \<Rightarrow> u64 \<Rightarrow> u64 \<Rightarrow> hash list result"
  ProveInclusion :: "'t \<Rightarrow> u64 \<Rightarrow> u64 \<Rightarrow> hash list result"

text \<open>
  What a Merkle tree is, whatever its representation: the list of its leaf hashes, without
  duplicates.  \<open>mroot\<close> is the root hash of such a list; \<open>cproof\<close> and
  \<open>iproof\<close> are the paths that prove consistency of the heads of two prefixes and
  inclusion of a leaf in the head of a prefix.
\<close>

record merkle_spec =
  mroot :: "hash list \<Rightarrow> hash"
  cproof :: "hash list \<Rightarrow> nat \<Rightarrow> hash list"
  iproof :: "hash list \<Rightarrow> nat \<Rightarrow> hash list"

definition merkle_ok :: "'t merkle_pkg \<Rightarrow> merkle_spec \<Rightarrow> ('t \<Rightarrow> hash list) \<Rightarrow> bool" where
  "merkle_ok mk ms hs \<longleftrightarrow>
     hs (NewTree mk) = []
   \<and> (\<forall>t h. h \<in> set (hs t) \<longrightarrow> AddLeafHash mk t h = (t, False))
   \<and> (\<forall>t h. h \<notin> set (hs t) \<longrightarrow> (\<exists>t'. AddLeafHash mk t h = (t', True) \<and> hs t' = hs t @ [h]))
   \<and> (\<forall>t i. i < length (hs t) \<longrightarrow> distinct (hs t) \<longrightarrow> GetLeafIndex mk t (hs t ! i) = Ok (of_nat i))
   \<and> (\<forall>t h. h \<notin> set (hs t) \<longrightarrow> (\<exists>e. GetLeafIndex mk t h = Err e))
   \<and> (\<forall>t. tree_Size mk t = of_nat (length (hs t)))
   \<and> (\<forall>t. GetRootHash mk t = mroot ms (hs t))
   \<and> (\<forall>t m n. m \<le> n \<longrightarrow> unat n \<le> length (hs t) \<longrightarrow>
        ProveConsistency mk t m n = Ok (cproof ms (take (unat n) (hs t)) (unat m)))
   \<and> (\<forall>t m n. \<not> (m \<le> n \<and> unat n \<le> length (hs t)) \<longrightarrow> (\<exists>e. ProveConsistency mk t m n = Err e))
   \<and> (\<forall>t i n. i < n \<longrightarrow> unat n \<le> length (hs t) \<longrightarrow>
        ProveInclusion mk t i n = Ok (iproof ms (take (unat n) (hs t)) (unat i)))
   \<and> (\<forall>t i n. \<not> (i < n \<and> unat n \<le> length (hs t)) \<longrightarrow> (\<exists>e. ProveInclusion mk t i n = Err e))
   \<and> (\<forall>xs. length (mroot ms xs) = HashSize)"

lemma merkle_okD:
  assumes "merkle_ok mk ms hs"
  shows "hs (NewTree mk) = []"
    and "h \<in> set (hs t) \<Longrightarrow> AddLeafHash mk t h = (t, False)"
    and "h \<notin> set (hs t) \<Longrightarrow> \<exists>t'. AddLeafHash mk t h = (t', True) \<and> hs t' = hs t @ [h]"
    and "i < length (hs t) \<Longrightarrow> distinct (hs t) \<Longrightarrow> GetLeafIndex mk t (hs t ! i) = Ok (of_nat i)"
    and "h \<notin> set (hs t) \<Longrightarrow> \<exists>e. GetLeafIndex mk t h = Err e"
    and "tree_Size mk t = of_nat (length (hs t))"
    and "GetRootHash mk t = mroot ms (hs t)"
    and "m \<le> n \<Longrightarrow> unat n \<le> length (hs t) \<Longrightarrow>
        ProveConsistency mk t m n = Ok (cproof ms (take (unat n) (hs t)) (unat m))"
    and "\<not> (m \<le> n \<and> unat n \<le> length (hs t)) \<Longrightarrow> \<exists>e. ProveConsistency mk t m n = Err e"
    and "j < n \<Longrightarrow> unat n \<le> length (hs t) \<Longrightarrow>
        ProveInclusion mk t j n = Ok (iproof ms (take (unat n) (hs t)) (unat j))"
    and "\<not> (j < n \<and> unat n \<le> length (hs t)) \<Longrightarrow> \<exists>e. ProveInclusion mk t j n = Err e"
    and "length (mroot ms xs) = HashSize"
  using assms unfolding merkle_ok_def by meson+

text \<open>
  An instance: the tree is the list of its leaf hashes, a proof path is the list itself, and
  the root hash is built from the last leaf hash.
\<close>

definition list_merkle_spec :: merkle_spec where
  "list_merkle_spec = \<lparr>mroot = (\<lambda>xs. copy_array 32 (concat (rev xs))),
     cproof = (\<lambda>xs m. xs), iproof = (\<lambda>xs i. xs)\<rparr>"

definition list_merkle :: "hash list merkle_pkg" where
  "list_merkle = \<lparr>
     NewTree = [],
     AddLeafHash = (\<lambda>t h. if h \<in> set t then (t, False) else (t @ [h], True)),
     GetLeafIndex = (\<lambda>t h. if h \<in> set t then Ok (of_nat (length (takeWhile (\<lambda>x. x \<noteq> h) t)))
        else Err (ExtError ''not found'')),
     tree_Size = (\<lambda>t. of_nat (length t)),
     GetRootHash = mroot list_merkle_spec,
     ProveConsistency = (\<lambda>t m n. if m \<le> n \<and> unat n \<le> length t then Ok (take (unat n) t)
        else Err (ExtError ''invalid sizes'')),
     ProveInclusion = (\<lambda>t i n. if i < n \<and> unat n \<le> length t then Ok (take (unat n) t)
        else Err (ExtError ''invalid index''))\<rparr>"

lemma length_takeWhile_nth:
  "distinct xs \<Longrightarrow> i < length xs \<Longrightarrow> length (takeWhile (\<lambda>x. x \<noteq> xs ! i) xs) = i"
proof (induction xs arbitrary: i)
  case (Cons x xs)
  then show ?case by (cases i) auto
qed simp

lemma merkle_ok_list [simp]: "merkle_ok list_merkle list_merkle_spec (\<lambda>t. t)"
  unfolding merkle_ok_def list_merkle_def list_merkle_spec_def
  by (simp add: length_takeWhile_nth)

lemma list_merkle_simps [simp]:
  "NewTree list_merkle = []"
  "AddLeafHash list_merkle t h = (if h \<in> set t then (t, False) else (t @ [h], True))"
  "tree_Size list_merkle t = of_nat (length t)"
  "GetRootHash list_merkle t = mroot list_merkle_spec t"
  by (simp_all add: list_merkle_def)

end
