(* ===== verification/Db_Client.thy ===== *)
theory Db_Client
  imports Api_Types
begin

text \<open>
  The database interface of \<open>internal/db/client.go\<close>.  An implementation is a record
  of its six methods over an arbitrary state \<open>'s\<close>, which each call returns updated
  (a call of a remote backend may find it changed by others).  The contract that the rest of
  the server relies on is the locale \<open>db_contract\<close>; \<open>replica_db\<close> adds what the
  secondary relies on, \<open>integrating_db\<close> describes a replica that integrates the leaves it is given, at
  once or with delay, and \<open>leaf_tracker\<close> a backend that recognises repeated leaves.  \<open>Memory_Db\<close> and \<open>Trillian_Client\<close> interpret them.
\<close>

record AddLeafStatus =
  AlreadyExists :: bool
  IsSequenced :: bool

record 's Client =
  db_AddLeaf :: "Leaf \<Rightarrow> u64 \<Rightarrow> 's \<Rightarrow> 's \<times> AddLeafStatus result"
  db_AddSequencedLeaves :: "Leaf list \<Rightarrow> i64 \<Rightarrow> 's \<Rightarrow> 's \<times> unit result"
  db_GetTreeHead :: "'s \<Rightarrow> 's \<times> TreeHead result"
  db_GetConsistencyProof :: "ConsistencyRequest \<Rightarrow> 's \<Rightarrow> 's \<times> ConsistencyProof result"
  db_GetInclusionProof :: "InclusionRequest \<Rightarrow> 's \<Rightarrow> 's \<times> InclusionProof result"
  db_GetLeaves :: "LeavesRequest \<Rightarrow> 's \<Rightarrow> 's \<times> Leaf list result"

text \<open>
  Indices are passed to the backends as \<open>int64\<close>, so a tree holds less than
  \<open>2^63\<close> leaves.
\<close>

definition capacity :: nat where
  "capacity = 2 ^ 63"

lemma capacity_less_word: "n < capacity \<Longrightarrow> n < 2 ^ 64"
  by (simp add: capacity_def)

lemma unat_of_nat_capacity [simp]: "n < capacity \<Longrightarrow> unat (of_nat n :: u64) = n"
  by (simp add: unat_of_nat capacity_def)

lemma unat_of_nat_word: "n < 2 ^ 64 \<Longrightarrow> unat (of_nat n :: u64) = n"
  by (simp add: unat_of_nat)

lemma unat_less_word: "unat (k :: u64) < 2 ^ 64"
  using unsigned_less [of k] by simp

lemma sint_capacity:
  assumes "unat k < capacity"
  shows "sint (k :: u64) = int (unat k)"
proof -
  have "int (unat k) < int capacity" using assms by (simp only: of_nat_less_iff)
  then have "uint k < 2 ^ 63" by (simp add: capacity_def)
  then have "signed_take_bit 63 (uint k) = uint k"
    by (intro signed_take_bit_int_eq_self) (simp_all add: order.trans [OF _ uint_nonnegative])
  then show ?thesis by (simp add: sint_uint)
qed

lemma unat_of_sint:
  assumes "sint (w :: u64) = int n"
  shows "unat w = n"
proof -
  have "w = word_of_int (sint w)" by simp
  then have "w = of_nat n" unfolding assms by simp
  moreover have "int n < 2 ^ 63" using sint_less [of w] assms by simp
  then have "n < 2 ^ 64" by simp
  ultimately show ?thesis by (simp add: unat_of_nat)
qed

lemma unat_add_of_nat:
  assumes "i < unat (b - a)" and "a \<le> (b :: u64)"
  shows "unat (a + of_nat i) = unat a + i" and "unat a + i < unat b" and "unat (b - a) = unat b - unat a"
proof -
  have d: "unat (b - a) = unat b - unat a" using assms(2) by (simp add: unat_sub)
  have l: "unat a + i < unat b" using assms(1) d by simp
  have "unat (of_nat (unat a + i) :: u64) = unat a + i"
    using l unat_less_word [of b] by (intro unat_of_nat_word) simp
  then show "unat (a + of_nat i) = unat a + i" by simp
  show "unat a + i < unat b" "unat (b - a) = unat b - unat a" by (fact l d)+
qed

definition leaf_slice :: "Leaf list \<Rightarrow> u64 \<Rightarrow> u64 \<Rightarrow> Leaf list" where
  \<comment> \<open>the leaves with index from the first to just before the second number\<close>
  "leaf_slice ls a b = take (unat b - unat a) (drop (unat a) ls)"

lemma length_leaf_slice: "unat b \<le> length ls \<Longrightarrow> length (leaf_slice ls a b) = unat b - unat a"
  by (simp add: leaf_slice_def)

lemma leaf_slice_prefix:
  assumes "prefix ls ls'" and "unat b \<le> length ls"
  shows "leaf_slice ls' a b = leaf_slice ls a b"
  using assms by (auto simp: leaf_slice_def prefix_def)

lemma append_leaf_slice:
  assumes "unat a = length xs" and "prefix xs ls" and "a \<le> b" and "unat b \<le> length ls"
  shows "xs @ leaf_slice ls a b = take (unat b) ls"
proof -
  have "xs = take (unat a) ls" using assms(1,2) by (auto simp: prefix_def)
  moreover have "unat a \<le> unat b" using assms(3) by (simp add: word_le_nat_alt)
  ultimately show ?thesis
    by (metis le_add_diff_inverse leaf_slice_def take_add)
qed

definition leaf_position :: "leaf_codec \<Rightarrow> Leaf list \<Rightarrow> hash \<Rightarrow> nat" where
  "leaf_position cd ls h = length (takeWhile (\<lambda>l. leaf_hash cd l \<noteq> h) ls)"

lemma leaf_position_nth:
  assumes "leaf_position cd ls h < length ls"
  shows "leaf_hash cd (ls ! leaf_position cd ls h) = h"
  using nth_length_takeWhile [OF assms [unfolded leaf_position_def]] by (simp add: leaf_position_def)

lemma leaf_position_less_iff: "leaf_position cd ls h < length ls \<longleftrightarrow> h \<in> leaf_hash cd ` set ls"
  by (induction ls) (auto simp: leaf_position_def)

lemma leaf_position_take_iff:
  "h \<in> leaf_hash cd ` set (take n ls) \<longleftrightarrow> leaf_position cd ls h < min (length ls) n"
proof (induction ls arbitrary: n)
  case (Cons l ls)
  then show ?case by (cases n) (auto simp: leaf_position_def)
qed simp

definition is_head_of :: "merkle_spec \<Rightarrow> leaf_codec \<Rightarrow> Leaf list \<Rightarrow> TreeHead \<Rightarrow> bool" where
  \<comment> \<open>the head of a tree that holds a prefix of the given leaves\<close>
  "is_head_of ms cd ls th \<longleftrightarrow> unat (Size th) \<le> length ls \<and>
     RootHash th = mroot ms (map (leaf_hash cd) (take (unat (Size th)) ls))"

lemma is_head_of_prefix:
  assumes "is_head_of ms cd ls th" and "prefix ls ls'"
  shows "is_head_of ms cd ls' th"
  using assms by (auto simp: is_head_of_def prefix_def)

lemma is_head_of_unique:
  assumes "is_head_of ms cd ls th" and "is_head_of ms cd ls th'" and "Size th = Size th'"
  shows "th = th'"
  using assms by (cases th; cases th') (simp add: is_head_of_def)

section \<open>Sequences of calls\<close>

text \<open>
  The calls of the clients of a database, in the order in which it serves them: every
  interleaving of concurrent clients is one such sequence.
\<close>

datatype db_call =
    CallAddLeaf Leaf u64
  | CallAddSequencedLeaves "Leaf list" i64
  | CallGetTreeHead
  | CallGetConsistencyProof ConsistencyRequest
  | CallGetInclusionProof InclusionRequest
  | CallGetLeaves LeavesRequest

fun exec_call :: "'s Client \<Rightarrow> db_call \<Rightarrow> 's \<Rightarrow> 's" where
  "exec_call db (CallAddLeaf l n) s = fst (db_AddLeaf db l n s)"
| "exec_call db (CallAddSequencedLeaves ls k) s = fst (db_AddSequencedLeaves db ls k s)"
| "exec_call db CallGetTreeHead s = fst (db_GetTreeHead db s)"
| "exec_call db (CallGetConsistencyProof req) s = fst (db_GetConsistencyProof db req s)"
| "exec_call db (CallGetInclusionProof req) s = fst (db_GetInclusionProof db req s)"
| "exec_call db (CallGetLeaves req) s = fst (db_GetLeaves db req s)"

definition run_calls :: "'s Client \<Rightarrow> db_call list \<Rightarrow> 's \<Rightarrow> 's" where
  "run_calls db = fold (exec_call db)"

fun call_wf :: "db_call \<Rightarrow> bool" where
  "call_wf (CallAddLeaf l n) \<longleftrightarrow> leaf_wf l"
| "call_wf (CallAddSequencedLeaves ls k) \<longleftrightarrow> list_all leaf_wf ls \<and> unat k + length ls < capacity"
| "call_wf _ \<longleftrightarrow> True"

fun calls_fit :: "'s Client \<Rightarrow> ('s \<Rightarrow> Leaf list) \<Rightarrow> db_call list \<Rightarrow> 's \<Rightarrow> bool" where
  \<comment> \<open>well-formed calls that never fill the tree beyond its capacity\<close>
  "calls_fit db lvs [] s \<longleftrightarrow> True"
| "calls_fit db lvs (c # cs) s \<longleftrightarrow> call_wf c \<and> length (lvs (exec_call db c s)) < capacity
     \<and> calls_fit db lvs cs (exec_call db c s)"

lemma run_calls_simps [simp]:
  "run_calls db [] s = s"
  "run_calls db (c # cs) s = run_calls db cs (exec_call db c s)"
  "run_calls db (cs @ cs') s = run_calls db cs' (run_calls db cs s)"
  by (simp_all add: run_calls_def)

lemma calls_fit_append [simp]:
  "calls_fit db lvs (cs @ cs') s \<longleftrightarrow> calls_fit db lvs cs s \<and> calls_fit db lvs cs' (run_calls db cs s)"
  by (induction cs arbitrary: s) auto

section \<open>Contracts\<close>

locale db_contract =
  fixes db :: "'s Client"
    and inv :: "'s \<Rightarrow> bool"
    and lvs :: "'s \<Rightarrow> Leaf list"
    and cd :: leaf_codec
    and ms :: merkle_spec
  assumes inv_leaves: "inv s \<Longrightarrow>
      list_all leaf_wf (lvs s) \<and> distinct (map (leaf_hash cd) (lvs s)) \<and> length (lvs s) < capacity"
    and AddLeaf_grows: "inv s \<Longrightarrow> leaf_wf l \<Longrightarrow> db_AddLeaf db l n s = (s', rA) \<Longrightarrow>
      prefix (lvs s) (lvs s') \<and> (length (lvs s') < capacity \<longrightarrow> inv s') \<and> \<not> is_panic rA"
    and AddLeaf_sequenced: "inv s \<Longrightarrow> leaf_wf l \<Longrightarrow> db_AddLeaf db l n s = (s', Ok st) \<Longrightarrow>
      IsSequenced st \<Longrightarrow> \<exists>i < unat n. i < length (lvs s') \<and> leaf_hash cd (lvs s' ! i) = leaf_hash cd l"
    and AddSequencedLeaves_grows: "inv s \<Longrightarrow> list_all leaf_wf ls \<Longrightarrow> k + length ls < capacity \<Longrightarrow>
      db_AddSequencedLeaves db ls (of_nat k) s = (s', rU) \<Longrightarrow>
      prefix (lvs s) (lvs s') \<and> (length (lvs s') < capacity \<longrightarrow> inv s') \<and> \<not> is_panic rU"
    and GetTreeHead_grows: "inv s \<Longrightarrow> db_GetTreeHead db s = (s', rT) \<Longrightarrow>
      prefix (lvs s) (lvs s') \<and> (length (lvs s') < capacity \<longrightarrow> inv s') \<and> \<not> is_panic rT"
    and GetTreeHead_head: "inv s \<Longrightarrow> db_GetTreeHead db s = (s', Ok th) \<Longrightarrow>
      length (lvs s') < capacity \<Longrightarrow> is_head_of ms cd (lvs s') th"
    and GetConsistencyProof_grows: "inv s \<Longrightarrow> db_GetConsistencyProof db cr s = (s', rC) \<Longrightarrow>
      prefix (lvs s) (lvs s') \<and> (length (lvs s') < capacity \<longrightarrow> inv s') \<and> \<not> is_panic rC"
    and GetInclusionProof_grows: "inv s \<Longrightarrow> db_GetInclusionProof db ir s = (s', rI) \<Longrightarrow>
      prefix (lvs s) (lvs s') \<and> (length (lvs s') < capacity \<longrightarrow> inv s') \<and> \<not> is_panic rI"
    and GetInclusionProof_leaf: "inv s \<Longrightarrow> db_GetInclusionProof db ir s = (s', Ok p) \<Longrightarrow>
      ip_LeafIndex p < ir_Size ir \<and> unat (ip_LeafIndex p) < length (lvs s')
      \<and> leaf_hash cd (lvs s' ! unat (ip_LeafIndex p)) = ir_LeafHash ir"
    and GetLeaves_grows: "inv s \<Longrightarrow> db_GetLeaves db req s = (s', rL) \<Longrightarrow>
      prefix (lvs s) (lvs s') \<and> (length (lvs s') < capacity \<longrightarrow> inv s') \<and> \<not> is_panic rL"
    and GetLeaves_slice: "inv s \<Longrightarrow> StartIndex req < EndIndex req \<Longrightarrow>
      db_GetLeaves db req s = (s', Ok ls) \<Longrightarrow>
      unat (EndIndex req) \<le> length (lvs s') \<and> ls = leaf_slice (lvs s') (StartIndex req) (EndIndex req)"
begin

lemmas grows =
  AddLeaf_grows AddSequencedLeaves_grows GetTreeHead_grows GetConsistencyProof_grows
  GetInclusionProof_grows GetLeaves_grows

lemma exec_call_grows:
  assumes "inv s" and "call_wf c"
  shows "prefix (lvs s) (lvs (exec_call db c s)) \<and>
    (length (lvs (exec_call db c s)) < capacity \<longrightarrow> inv (exec_call db c s))"
proof (cases c)
  case (CallAddSequencedLeaves ls k)
  then show ?thesis
    using assms AddSequencedLeaves_grows [of s ls "unat k"]
    by (cases "db_AddSequencedLeaves db ls k s") auto
qed (use assms AddLeaf_grows [OF _ _ surjective_pairing] GetTreeHead_grows [OF _ surjective_pairing]
      GetConsistencyProof_grows [OF _ surjective_pairing] GetInclusionProof_grows [OF _ surjective_pairing]
      GetLeaves_grows [OF _ surjective_pairing] in auto)

lemma run_calls_grows:
  assumes "inv s" and "calls_fit db lvs cs s"
  shows "inv (run_calls db cs s) \<and> prefix (lvs s) (lvs (run_calls db cs s))"
  using assms
proof (induction cs arbitrary: s)
  case (Cons c cs)
  then show ?case
    using exec_call_grows [of s c] Cons.IH [of "exec_call db c s"] prefix_order.trans
    by (fastforce simp: run_calls_def)
qed (simp add: run_calls_def)

text \<open>A tree head once returned stays the head of a prefix of the log, whatever is called later.\<close>

lemma head_stays:
  assumes "inv s" and "db_GetTreeHead db s = (s1, Ok th)" and "length (lvs s1) < capacity"
    and "calls_fit db lvs cs s1"
  shows "is_head_of ms cd (lvs (run_calls db cs s1)) th"
  using assms GetTreeHead_head GetTreeHead_grows run_calls_grows is_head_of_prefix by metis

text \<open>Leaves once returned for a range are what every later call returns for it.\<close>

lemma leaves_stable:
  assumes "inv s" and "StartIndex req < EndIndex req" and "db_GetLeaves db req s = (s1, Ok ls)"
    and "length (lvs s1) < capacity" and "calls_fit db lvs cs s1"
    and "db_GetLeaves db req (run_calls db cs s1) = (s3, Ok ls')"
  shows "ls' = ls"
proof -
  have "inv s1" using assms GetLeaves_grows by blast
  then have *: "inv (run_calls db cs s1)" "prefix (lvs s1) (lvs (run_calls db cs s1))"
    using run_calls_grows assms(5) by blast+
  then have "prefix (lvs s1) (lvs s3)"
    using GetLeaves_grows [OF _ assms(6)] prefix_order.trans by blast
  then show ?thesis
    using GetLeaves_slice [OF assms(1,2,3)] GetLeaves_slice [OF *(1) assms(2,6)] leaf_slice_prefix
    by metis
qed

end

text \<open>
  \<open>acc s\<close> collects, for each index, the leaves that were handed to the backend for it;
  the tree of a replica only ever contains such leaves at their own index.
\<close>

locale replica_db = db_contract db inv lvs cd ms
  for db :: "'s Client" and inv :: "'s \<Rightarrow> bool" and lvs :: "'s \<Rightarrow> Leaf list"
    and cd :: leaf_codec and ms :: merkle_spec +
  fixes acc :: "'s \<Rightarrow> (nat \<times> Leaf) set"
  assumes acc_lvs: "inv s \<Longrightarrow> i < length (lvs s) \<Longrightarrow> (i, lvs s ! i) \<in> acc s"
    and GetTreeHead_acc: "inv s \<Longrightarrow> db_GetTreeHead db s = (s', rT) \<Longrightarrow> inv s' \<and> acc s' \<subseteq> acc s"
    and AddSequencedLeaves_acc: "inv s \<Longrightarrow> list_all leaf_wf ls \<Longrightarrow> k + length ls < capacity \<Longrightarrow>
      db_AddSequencedLeaves db ls (of_nat k) s = (s', rU) \<Longrightarrow>
      inv s' \<and> acc s' \<subseteq> acc s \<union> {(k + j, ls ! j) | j. j < length ls}"
begin

lemma acc_of_prefix:
  \<comment> \<open>a replica that was only given leaves of \<open>P\<close> at their index holds a prefix of \<open>P\<close>\<close>
  assumes "inv s" and "acc s \<subseteq> {(i, P ! i) | i. i < length P}"
  shows "prefix (lvs s) P"
proof -
  have *: "i < length P \<and> lvs s ! i = P ! i" if "i < length (lvs s)" for i
    using acc_lvs [OF assms(1) that] assms(2) by auto
  then have "length (lvs s) \<le> length P"
    using linorder_not_less by blast
  with * have "lvs s = take (length (lvs s)) P"
    by (auto intro!: nth_equalityI)
  then show ?thesis by (metis take_is_prefix)
qed

lemma restricted:
  \<comment> \<open>the contract holds on the states of a restricted use, too\<close>
  "replica_db db (\<lambda>s. inv s \<and> C) lvs cd ms acc"
  apply unfold_locales
  subgoal using inv_leaves by blast
  subgoal using AddLeaf_grows by blast
  subgoal using AddLeaf_sequenced by blast
  subgoal using AddSequencedLeaves_grows by blast
  subgoal using GetTreeHead_grows by blast
  subgoal using GetTreeHead_head by blast
  subgoal using GetConsistencyProof_grows by blast
  subgoal using GetInclusionProof_grows by blast
  subgoal using GetInclusionProof_leaf by blast
  subgoal using GetLeaves_grows by blast
  subgoal using GetLeaves_slice by blast
  subgoal using acc_lvs by blast
  subgoal using GetTreeHead_acc by blast
  subgoal using AddSequencedLeaves_acc by blast
  done

end

text \<open>
  A replica that integrates what it is given, possibly with delay.  \<open>due s\<close> bounds the calls until the
  leaves that were submitted are integrated the next time; a call either brings that moment closer, or it has
  passed and no submitted leaf is left that could be integrated next.  At most \<open>D\<close> calls lie between two
  such moments.  A backend that integrates at once has \<open>D = 0\<close>.
\<close>

locale integrating_db = replica_db db inv lvs cd ms acc
  for db :: "'s Client" and inv :: "'s \<Rightarrow> bool" and lvs :: "'s \<Rightarrow> Leaf list"
    and cd :: leaf_codec and ms :: merkle_spec and acc :: "'s \<Rightarrow> (nat \<times> Leaf) set" +
  fixes due :: "'s \<Rightarrow> nat" and D :: nat
  assumes due_bound: "inv s \<Longrightarrow> due s \<le> D"
    and GetTreeHead_current: "inv s \<Longrightarrow> \<exists>s' th. db_GetTreeHead db s = (s', Ok th)
      \<and> unat (Size th) = length (lvs s') \<and> acc s \<subseteq> acc s'
      \<and> (due s' < due s \<or> (\<forall>l. (length (lvs s'), l) \<notin> acc s'))"
    and AddSequencedLeaves_accepted: "inv s \<Longrightarrow> list_all leaf_wf ls \<Longrightarrow>
      distinct (map (leaf_hash cd) (lvs s @ ls)) \<Longrightarrow> length (lvs s @ ls) < capacity \<Longrightarrow>
      \<exists>s'. db_AddSequencedLeaves db ls (of_nat (length (lvs s))) s = (s', Ok ())
        \<and> (\<forall>j < length ls. (length (lvs s) + j, ls ! j) \<in> acc s')
        \<and> (due s' < due s \<or> (\<forall>l. (length (lvs s'), l) \<notin> acc s'))"
begin

definition lag :: "'s \<Rightarrow> nat" where
  \<comment> \<open>how long the length of the tree can stay as it is while leaves are submitted\<close>
  "lag s = (if \<exists>l. (length (lvs s), l) \<in> acc s then due s else Suc D)"

text \<open>Asking for the tree head and submitting the leaves that follow it makes the tree longer or the lag shorter.\<close>

lemma submission_progress:
  assumes "inv s" and "db_GetTreeHead db s = (s1, Ok th)"
    and "list_all leaf_wf ls" and "distinct (map (leaf_hash cd) (lvs s1 @ ls))" and "length (lvs s1 @ ls) < capacity" and "ls \<noteq> []"
  shows "\<exists>s2. db_AddSequencedLeaves db ls (of_nat (length (lvs s1))) s1 = (s2, Ok ())
    \<and> prefix (lvs s) (lvs s2) \<and> (length (lvs s) < length (lvs s2) \<or> lag s2 < lag s)"
proof -
  have s1: "inv s1" "prefix (lvs s) (lvs s1)" "acc s \<subseteq> acc s1"
      "due s1 < due s \<or> (\<forall>l. (length (lvs s1), l) \<notin> acc s1)"
    using GetTreeHead_acc [OF assms(1,2)] GetTreeHead_grows [OF assms(1,2)] GetTreeHead_current [OF assms(1)] assms(2) by auto
  obtain s2 where s2: "db_AddSequencedLeaves db ls (of_nat (length (lvs s1))) s1 = (s2, Ok ())"
      "\<forall>j < length ls. (length (lvs s1) + j, ls ! j) \<in> acc s2"
      "due s2 < due s1 \<or> (\<forall>l. (length (lvs s2), l) \<notin> acc s2)"
    using AddSequencedLeaves_accepted [OF s1(1) assms(3,4,5)] by blast
  have p: "prefix (lvs s1) (lvs s2)" using AddSequencedLeaves_grows [OF s1(1) assms(3) _ s2(1)] assms(5) by simp
  have "lag s2 < lag s" if "\<not> length (lvs s) < length (lvs s2)"
  proof -
    have len: "length (lvs s1) = length (lvs s)" "length (lvs s2) = length (lvs s)"
      using that prefix_length_le [OF p] prefix_length_le [OF s1(2)] by auto
    have pend: "(length (lvs s2), ls ! 0) \<in> acc s2" using s2(2) assms(6) len by (metis add_0_right length_greater_0_conv)
    then have d2: "due s2 < due s1" using s2(3) by blast
    show ?thesis
    proof (cases "\<exists>l. (length (lvs s), l) \<in> acc s")
      case True
      then have "\<exists>l. (length (lvs s1), l) \<in> acc s1" using s1(3) len(1) by auto
      then have "due s1 < due s" using s1(4) by blast
      then show ?thesis using True pend d2 by (auto simp: lag_def)
    next
      case False
      then show ?thesis using pend d2 due_bound [OF s1(1)] by (auto simp: lag_def)
    qed
  qed
  then show ?thesis using s2(1) prefix_order.trans [OF s1(2) p] by blast
qed

end

text \<open>
  A backend that recognises the leaves it was given: \<open>known s\<close> are the hashes of all leaves that were accepted.
\<close>

locale leaf_tracker =
  fixes db :: "'s Client" and inv :: "'s \<Rightarrow> bool" and cd :: leaf_codec and known :: "'s \<Rightarrow> hash set"
  assumes AddLeaf_tracked: "inv s \<Longrightarrow> leaf_wf l \<Longrightarrow> db_AddLeaf db l n s = (s', Ok st) \<Longrightarrow>
      inv s' \<and> known s' = insert (leaf_hash cd l) (known s) \<and> (AlreadyExists st \<longleftrightarrow> leaf_hash cd l \<in> known s)"
    and AddLeaf_failed: "inv s \<Longrightarrow> leaf_wf l \<Longrightarrow> db_AddLeaf db l n s = (s', Err e) \<Longrightarrow> \<exists>m. e = Errorf m"

end
