(* ===== verification/Go_Text.thy ===== *)
theory Go_Text
  imports Go_Prelude
begin

text \<open>
  The text functions of Go's standard library that the parsers of the log server use:
  white space, trimming and field splitting (\<open>strings\<close>, \<open>bytes\<close>), the
  line scanner of \<open>bufio\<close> with its limit on the length of a line, decimal numbers
  (\<open>strconv.ParseUint\<close>) and hexadecimal strings (\<open>encoding/hex\<close>).
\<close>

section \<open>White space\<close>

text \<open>
  \<open>unicode.IsSpace\<close> on UTF-8 text.  A lead byte of a multi-byte sequence never occurs
  inside another sequence, so a white-space character starts at a position exactly when its
  bytes stand there; \<open>space_len\<close> is the number of bytes of the white-space character
  at the start of a string, 0 if there is none.
\<close>

definition ascii_space :: "char \<Rightarrow> bool" where
  \<comment> \<open>blank, tab, line feed, vertical tab, form feed, carriage return\<close>
  "ascii_space c \<longleftrightarrow> (let n = (of_char c :: nat) in n = 32 \<or> 9 \<le> n \<and> n \<le> 13)"

definition spaces2 :: "bytes list" where
  "spaces2 = [[CHR 0xC2, CHR 0x85], [CHR 0xC2, CHR 0xA0]]"

definition spaces3 :: "bytes list" where
  "spaces3 = [[CHR 0xE1, CHR 0x9A, CHR 0x80], [CHR 0xE2, CHR 0x81, CHR 0x9F],
     [CHR 0xE3, CHR 0x80, CHR 0x80]]
     @ map (\<lambda>c. [CHR 0xE2, CHR 0x80, c])
         [CHR 0x80, CHR 0x81, CHR 0x82, CHR 0x83, CHR 0x84, CHR 0x85, CHR 0x86, CHR 0x87,
          CHR 0x88, CHR 0x89, CHR 0x8A, CHR 0xA8, CHR 0xA9, CHR 0xAF]"

fun space_len :: "bytes \<Rightarrow> nat" where
  "space_len [] = 0"
| "space_len (c # s) =
     (if ascii_space c then 1
      else if take 2 (c # s) \<in> set spaces2 then 2
      else if take 3 (c # s) \<in> set spaces3 then 3 else 0)"

definition last_space_len :: "bytes \<Rightarrow> nat" where
  "last_space_len s =
     (if s = [] then 0
      else if ascii_space (last s) then 1
      else if drop (length s - 2) s \<in> set spaces2 then 2
      else if drop (length s - 3) s \<in> set spaces3 then 3 else 0)"

function TrimLeftSpace :: "bytes \<Rightarrow> bytes" where
  "TrimLeftSpace s =
     (if s = [] \<or> space_len s = 0 then s else TrimLeftSpace (drop (space_len s) s))"
  by pat_completeness auto
termination by (relation "measure length") auto

function TrimRightSpace :: "bytes \<Rightarrow> bytes" where
  "TrimRightSpace s =
     (if s = [] \<or> last_space_len s = 0 then s
      else TrimRightSpace (take (length s - last_space_len s) s))"
  by pat_completeness auto
termination by (relation "measure length") auto

declare TrimLeftSpace.simps [simp del] TrimRightSpace.simps [simp del]

definition TrimSpace :: "bytes \<Rightarrow> bytes" where
  "TrimSpace s = TrimRightSpace (TrimLeftSpace s)"

function fields_from :: "bytes \<Rightarrow> bytes \<Rightarrow> bytes list" where
  \<comment> \<open>the field being read so far, the rest of the input\<close>
  "fields_from cur s =
     (if s = [] then (if cur = [] then [] else [cur])
      else if space_len s = 0 then fields_from (cur @ [hd s]) (tl s)
      else (if cur = [] then [] else [cur]) @ fields_from [] (drop (space_len s) s))"
  by pat_completeness auto
termination by (relation "measure (\<lambda>(cur, s). length s)") auto

declare fields_from.simps [simp del]

definition Fields :: "bytes \<Rightarrow> bytes list" where
  "Fields s = fields_from [] s"

text \<open>Text without white space and without bytes of a multi-byte character.\<close>

definition plain_char :: "char \<Rightarrow> bool" where
  "plain_char c \<longleftrightarrow> \<not> ascii_space c \<and> (of_char c :: nat) < 128"

declare space_len.simps [simp del]

lemma wide_space_not_plain:
  "x \<in> set spaces2 \<or> x \<in> set spaces3 \<Longrightarrow> x \<noteq> [] \<and> \<not> plain_char (hd x) \<and> \<not> plain_char (last x)"
  by (auto simp: spaces2_def spaces3_def plain_char_def)

lemma space_len_Nil [simp]: "space_len [] = 0"
  by (simp add: space_len.simps)

lemma space_len_plain [simp]:
  assumes "plain_char c"
  shows "space_len (c # s) = 0"
proof -
  have "take (Suc n) (c # s) \<notin> set spaces2 \<union> set spaces3" for n
    using wide_space_not_plain [of "take (Suc n) (c # s)"] assms by auto
  from this [of 1] this [of 2] show ?thesis
    using assms by (simp add: space_len.simps plain_char_def numeral_2_eq_2 numeral_3_eq_3)
qed

lemma space_len_blank [simp]: "space_len (CHR '' '' # s) = Suc 0"
  by (simp add: space_len.simps ascii_space_def)

lemma fields_from_plain:
  "list_all plain_char w \<Longrightarrow> fields_from cur (w @ s) = fields_from (cur @ w) s"
proof (induction w arbitrary: cur)
  case (Cons c w)
  then show ?case by (subst fields_from.simps) simp
qed simp

lemma fields_from_end: "cur \<noteq> [] \<Longrightarrow> fields_from cur [] = [cur]"
  by (subst fields_from.simps) simp

lemma fields_from_blank:
  "cur \<noteq> [] \<Longrightarrow> fields_from cur (CHR '' '' # s) = cur # fields_from [] s"
  by (subst fields_from.simps) simp

lemma Fields_three:
  assumes "list_all plain_char a" "list_all plain_char b" "list_all plain_char c"
    and "a \<noteq> []" "b \<noteq> []" "c \<noteq> []"
  shows "Fields (a @ CHR '' '' # b @ CHR '' '' # c) = [a, b, c]"
  using assms fields_from_plain [of c "[]" "[]"]
  by (simp add: Fields_def fields_from_plain fields_from_blank fields_from_end)

lemma TrimSpace_plain:
  assumes "list_all plain_char s"
  shows "TrimSpace s = s"
proof (cases "s = []")
  case True
  then show ?thesis
    by (simp add: TrimSpace_def TrimLeftSpace.simps TrimRightSpace.simps)
next
  case False
  with assms have hd: "plain_char (hd s)" and last: "plain_char (last s)"
    by (auto simp: list_all_iff)
  have "last (drop n s) = last s" if "drop n s \<noteq> []" for n
    using that by (simp add: last_drop)
  with wide_space_not_plain last have "drop n s \<notin> set spaces2 \<union> set spaces3" for n
    by (metis UnE)
  with last False have "last_space_len s = 0"
    by (auto simp: last_space_len_def plain_char_def)
  moreover have "space_len s = 0" using False hd by (cases s) auto
  ultimately show ?thesis
    by (simp add: TrimSpace_def TrimLeftSpace.simps TrimRightSpace.simps)
qed

definition SplitN2 :: "bytes \<Rightarrow> char \<Rightarrow> bytes list" where
  \<comment> \<open>\<open>strings.SplitN(s, sep, 2)\<close> for a one-byte separator\<close>
  "SplitN2 s c = (case IndexByte s c of None \<Rightarrow> [s] | Some i \<Rightarrow> [take i s, drop (Suc i) s])"

section \<open>The line scanner\<close>

text \<open>
  An \<open>io.Reader\<close> is the data it delivers and the error it ends with (\<open>None\<close>
  at a regular end of file).  \<open>bufio.Scanner\<close> delivers the lines without their line
  end; an incomplete last line counts if it is not empty; a line of \<open>MaxScanTokenSize\<close>
  bytes or more does not fit the buffer: \<open>Scan\<close> then returns false and
  \<open>Err\<close> reports \<open>ErrTooLong\<close>.
\<close>

record reader =
  rd_data :: bytes
  rd_err :: "go_error option"

definition MaxScanTokenSize :: nat where
  "MaxScanTokenSize = 65536"

function raw_lines :: "bytes \<Rightarrow> bytes list" where
  "raw_lines s =
     (if s = [] then []
      else case IndexByte s (CHR 0x0A) of
        None \<Rightarrow> [s]
      | Some i \<Rightarrow> take i s # raw_lines (drop (Suc i) s))"
  by pat_completeness auto
termination by (relation "measure length") auto

declare raw_lines.simps [simp del]

definition dropCR :: "bytes \<Rightarrow> bytes" where
  "dropCR l = (if l \<noteq> [] \<and> last l = CHR 0x0D then butlast l else l)"

definition fits :: "bytes \<Rightarrow> bool" where
  "fits l \<longleftrightarrow> length l < MaxScanTokenSize"

definition scan_lines :: "reader \<Rightarrow> bytes list" where
  \<comment> \<open>the lines that successive calls of \<open>Scan\<close> deliver\<close>
  "scan_lines r = map dropCR (takeWhile fits (raw_lines (rd_data r)))"

definition scan_err :: "reader \<Rightarrow> go_error option" where
  \<comment> \<open>\<open>scanner.Err()\<close> after \<open>Scan\<close> returned false\<close>
  "scan_err r =
     (if list_all fits (raw_lines (rd_data r)) then rd_err r else Some ErrTooLong)"

lemma raw_lines_Nil [simp]: "raw_lines [] = []"
  by (simp add: raw_lines.simps)

lemma raw_lines_line:
  "CHR 0x0A \<notin> set l \<Longrightarrow> raw_lines (l @ CHR 0x0A # s) = l # raw_lines s"
  by (subst raw_lines.simps) (simp add: IndexByte_append)

lemma raw_lines_last: "CHR 0x0A \<notin> set l \<Longrightarrow> l \<noteq> [] \<Longrightarrow> raw_lines l = [l]"
  by (subst raw_lines.simps) simp

lemma scan_lines_cut:
  \<comment> \<open>a line that does not fit ends the scan silently: nothing after it is delivered\<close>
  assumes "CHR 0x0A \<notin> set l" and "MaxScanTokenSize \<le> length l"
  shows "scan_lines \<lparr>rd_data = l @ CHR 0x0A # s, rd_err = e\<rparr> = []"
  using assms by (simp add: scan_lines_def raw_lines_line fits_def)

lemma scan_lines_step:
  assumes "CHR 0x0A \<notin> set l" and "fits l"
  shows "scan_lines \<lparr>rd_data = l @ CHR 0x0A # s, rd_err = e\<rparr> =
     dropCR l # scan_lines \<lparr>rd_data = s, rd_err = e\<rparr>"
  using assms by (simp add: scan_lines_def raw_lines_line)

section \<open>Decimal and hexadecimal numbers\<close>

definition is_digit :: "char \<Rightarrow> bool" where
  "is_digit c \<longleftrightarrow> 48 \<le> (of_char c :: nat) \<and> (of_char c :: nat) \<le> 57"

definition digit_val :: "char \<Rightarrow> nat" where
  "digit_val c = of_char c - 48"

fun ParseUint_loop :: "nat \<Rightarrow> nat \<Rightarrow> bytes \<Rightarrow> nat result" where
  "ParseUint_loop bits n [] = Ok n"
| "ParseUint_loop bits n (c # s) =
     (if \<not> is_digit c then Err (Errorf ''invalid syntax'')
      else if n * 10 + digit_val c \<ge> 2 ^ bits then Err (Errorf ''value out of range'')
      else ParseUint_loop bits (n * 10 + digit_val c) s)"

definition ParseUint :: "nat \<Rightarrow> bytes \<Rightarrow> nat result" where
  \<comment> \<open>\<open>strconv.ParseUint(s, 10, bits)\<close>\<close>
  "ParseUint bits s =
     (if s = [] then Err (Errorf ''invalid syntax'') else ParseUint_loop bits 0 s)"

fun decimal :: "nat \<Rightarrow> bytes" where
  \<comment> \<open>the decimal notation of a number, as \<open>%d\<close> prints it\<close>
  "decimal n = (if n < 10 then [char_of (48 + n)] else decimal (n div 10) @ [char_of (48 + n mod 10)])"

declare decimal.simps [simp del]

definition hex_val :: "char \<Rightarrow> nat option" where
  "hex_val c =
     (let n = of_char c in
      if 48 \<le> n \<and> n \<le> 57 then Some (n - 48)
      else if 97 \<le> n \<and> n \<le> 102 then Some (n - 87)
      else if 65 \<le> n \<and> n \<le> 70 then Some (n - 55) else None)"

fun hex_DecodeString :: "bytes \<Rightarrow> bytes result" where
  "hex_DecodeString [] = Ok []"
| "hex_DecodeString [c] =
     (if hex_val c = None then Err (Errorf ''invalid byte'') else Err (Errorf ''odd length hex string''))"
| "hex_DecodeString (a # b # s) =
     (case (hex_val a, hex_val b) of
        (Some x, Some y) \<Rightarrow>
          bind_result (hex_DecodeString s) (\<lambda>t. Ok (char_of (16 * x + y) # t))
      | _ \<Rightarrow> Err (Errorf ''invalid byte''))"

definition hex_digit :: "nat \<Rightarrow> char" where
  "hex_digit n = (if n < 10 then char_of (48 + n) else char_of (87 + n))"

fun hex_EncodeToString :: "bytes \<Rightarrow> bytes" where
  "hex_EncodeToString [] = []"
| "hex_EncodeToString (c # s) =
     hex_digit (of_char c div 16) # hex_digit (of_char c mod 16) # hex_EncodeToString s"

lemma of_char_less: "of_char c < (256::nat)"
  by (metis of_char_mod_256 mod_less_divisor zero_less_numeral)

lemma of_char_high [simp]: "of_char c div 16 < (16::nat)"
  using of_char_less [of c] by (simp add: less_mult_imp_div_less)

lemma of_char_small: "n < 256 \<Longrightarrow> (of_char (char_of (n::nat)) :: nat) = n"
  by simp

text \<open>Printing a number and parsing it again: the decimal digits of a number in range.\<close>

lemma ParseUint_loop_append:
  "ParseUint_loop bits n (s @ t) = bind_result (ParseUint_loop bits n s) (\<lambda>m. ParseUint_loop bits m t)"
  by (induction s arbitrary: n) auto

lemma is_digit_char_of: "(n::nat) < 10 \<Longrightarrow> is_digit (char_of (48 + n))"
  by (simp add: is_digit_def)

lemma digit_val_char_of: "(n::nat) < 10 \<Longrightarrow> digit_val (char_of (48 + n)) = n"
  by (simp add: digit_val_def)

lemma ParseUint_loop_decimal: "n < 2 ^ bits \<Longrightarrow> ParseUint_loop bits 0 (decimal n) = Ok n"
proof (induction n rule: decimal.induct)
  case (1 n)
  show ?case
  proof (cases "n < 10")
    case True
    with 1 show ?thesis
      by (subst decimal.simps) (simp add: is_digit_char_of digit_val_char_of not_le)
  next
    case False
    have "n div 10 < 2 ^ bits" using 1(2) by (meson div_le_dividend order_le_less_trans)
    with 1(1) [OF False] have "ParseUint_loop bits 0 (decimal (n div 10)) = Ok (n div 10)" .
    with False 1(2) show ?thesis
      by (subst decimal.simps)
        (simp add: ParseUint_loop_append is_digit_char_of digit_val_char_of not_le)
  qed
qed

lemma decimal_nonempty [simp]: "decimal n \<noteq> []"
  by (subst decimal.simps) simp

lemma decimal_digits: "list_all is_digit (decimal n)"
proof (induction n rule: decimal.induct)
  case (1 n)
  then show ?case
    by (cases "n < 10"; subst decimal.simps) (simp_all add: is_digit_char_of)
qed

lemma ParseUint_decimal: "n < 2 ^ bits \<Longrightarrow> ParseUint bits (decimal n) = Ok n"
  by (simp add: ParseUint_def ParseUint_loop_decimal)

lemma ParseUint_loop_bound:
  "ParseUint_loop bits n s = Ok m \<Longrightarrow> n < 2 ^ bits \<Longrightarrow> m < 2 ^ bits"
  by (induction s arbitrary: n) (auto split: if_splits)

lemma ParseUint_bound: "ParseUint bits s = Ok m \<Longrightarrow> m < 2 ^ bits"
  by (auto simp: ParseUint_def split: if_splits dest: ParseUint_loop_bound)

lemma ParseUint_not_panic [simp]: "ParseUint bits s \<noteq> Panic m"
proof -
  have "ParseUint_loop bits n s \<noteq> Panic m" for n by (induction s arbitrary: n) auto
  then show ?thesis by (simp add: ParseUint_def)
qed

lemma ParseUint_digits: "ParseUint bits s = Ok m \<Longrightarrow> s \<noteq> [] \<and> list_all is_digit s"
proof -
  have "ParseUint_loop bits n s = Ok m \<Longrightarrow> list_all is_digit s" for n
    by (induction s arbitrary: n) (auto split: if_splits)
  then show "ParseUint bits s = Ok m \<Longrightarrow> s \<noteq> [] \<and> list_all is_digit s"
    by (auto simp: ParseUint_def split: if_splits)
qed

lemma plain_char_code:
  "plain_char c \<longleftrightarrow> (let n = (of_char c :: nat) in n < 128 \<and> n \<noteq> 32 \<and> (n < 9 \<or> 13 < n))"
  by (auto simp: plain_char_def ascii_space_def Let_def)

lemma is_digit_plain: "is_digit c \<Longrightarrow> plain_char c"
  by (auto simp: is_digit_def plain_char_code Let_def)

text \<open>Hexadecimal text decodes to the bytes it encodes.\<close>

lemma hex_val_digit: "n < 16 \<Longrightarrow> hex_val (hex_digit n) = Some n"
  by (auto simp: hex_val_def hex_digit_def Let_def)

lemma hex_digit_plain: "n < 16 \<Longrightarrow> plain_char (hex_digit n)"
  by (auto simp: plain_char_code hex_digit_def)

lemma hex_DecodeString_Encode: "hex_DecodeString (hex_EncodeToString s) = Ok s"
proof (induction s)
  case (Cons c s)
  then show ?case by (simp add: hex_val_digit)
qed simp

lemma hex_EncodeToString_plain: "list_all plain_char (hex_EncodeToString s)"
proof (induction s)
  case (Cons c s)
  then show ?case by (simp add: hex_digit_plain)
qed simp

lemma hex_EncodeToString_Nil_iff [simp]: "hex_EncodeToString s = [] \<longleftrightarrow> s = []"
  by (cases s) auto

lemma hex_DecodeString_not_panic [simp]: "hex_DecodeString s \<noteq> Panic m"
proof -
  have "\<not> is_panic (hex_DecodeString s)"
    by (induction s rule: hex_DecodeString.induct) (auto simp: outcome_simps split: option.splits)
  then show ?thesis by (auto simp: is_panic_iff)
qed

end
