(* ===== verification/Sth_File.thy ===== *)
theory Sth_File
  imports Db_Client Go_Text
begin

text \<open>
  The file that keeps the latest signed tree head across restarts
  (\<open>internal/state/sth-file.go\<close>) and the tool that prepares the first start
  (\<open>cmd/sigsum-mktree/main.go\<close>).  The file system is a map from names to contents;
  \<open>os_faults\<close> says which calls of package \<open>os\<close> fail and how.  The packages
  outside of this repository are parameters: \<open>safefile\<close> (atomic file replacement) and
  \<open>sth_pkg\<close> (the text form, signing and verification of tree heads).
\<close>

section \<open>File system\<close>

type_synonym fsys = "string \<rightharpoonup> bytes"

record os_faults =
  flt_open :: "string \<Rightarrow> go_error option" \<comment> \<open>opening, or reading the first line of what was opened\<close>
  flt_remove :: "string \<Rightarrow> go_error option"
  flt_stat :: "string \<Rightarrow> go_error option"
  flt_write :: "string \<Rightarrow> (nat \<times> go_error) option" \<comment> \<open>with the bytes written before\<close>

definition no_faults :: os_faults where
  "no_faults = \<lparr>flt_open = \<lambda>_. None, flt_remove = \<lambda>_. None, flt_stat = \<lambda>_. None, flt_write = \<lambda>_. None\<rparr>"

definition faults_ok :: "os_faults \<Rightarrow> bool" where
  \<comment> \<open>a fault is never reported as a missing file\<close>
  "faults_ok flt \<longleftrightarrow> (\<forall>n e. flt_open flt n = Some e \<or> flt_remove flt n = Some e \<or> flt_stat flt n = Some e
     \<longrightarrow> \<not> errors_Is_NotExist e)"

lemma faults_ok_none [simp]: "faults_ok no_faults"
  by (simp add: faults_ok_def no_faults_def)

definition os_Open :: "os_faults \<Rightarrow> fsys \<Rightarrow> string \<Rightarrow> bytes result" where
  "os_Open flt fs name =
     (case flt_open flt name of
        Some e \<Rightarrow> Err e
      | None \<Rightarrow> (case fs name of None \<Rightarrow> Err ErrNotExist | Some data \<Rightarrow> Ok data))"

definition os_Remove :: "os_faults \<Rightarrow> fsys \<Rightarrow> string \<Rightarrow> fsys \<times> go_error option" where
  "os_Remove flt fs name =
     (case flt_remove flt name of
        Some e \<Rightarrow> (fs, Some e)
      | None \<Rightarrow> (case fs name of None \<Rightarrow> (fs, Some ErrNotExist) | Some _ \<Rightarrow> (fs(name := None), None)))"

definition os_Stat :: "os_faults \<Rightarrow> fsys \<Rightarrow> string \<Rightarrow> go_error option" where
  "os_Stat flt fs name =
     (case flt_stat flt name of
        Some e \<Rightarrow> Some e
      | None \<Rightarrow> (if fs name = None then Some ErrNotExist else None))"

section \<open>Packages outside of the repository\<close>

text \<open>
  \<open>github.com/dchest/safefile\<close>, with \<open>CommitIfNotExists\<close>: \<open>sf_Create\<close> and
  \<open>sf_write\<close> work on a temporary file and only tell whether they fail; the two ways to
  commit take the name and the written data.
\<close>

record safefile =
  sf_Create :: "string \<Rightarrow> fsys \<Rightarrow> go_error option"
  sf_write :: "string \<Rightarrow> bytes \<Rightarrow> fsys \<Rightarrow> go_error option"
  sf_Commit :: "string \<Rightarrow> bytes \<Rightarrow> fsys \<Rightarrow> fsys \<times> go_error option"
  sf_CommitIfNotExists :: "string \<Rightarrow> bytes \<Rightarrow> fsys \<Rightarrow> fsys \<times> go_error option"

definition safefile_ok :: "safefile \<Rightarrow> bool" where
  \<comment> \<open>a commit is atomic: the file has the new content on success and is untouched on failure\<close>
  "safefile_ok sf \<longleftrightarrow>
     (\<forall>name data fs fs'. sf_Commit sf name data fs = (fs', None) \<longrightarrow> fs' = fs(name \<mapsto> data))
   \<and> (\<forall>name data fs fs' e. sf_Commit sf name data fs = (fs', Some e) \<longrightarrow> fs' = fs)
   \<and> (\<forall>name data fs fs'. sf_CommitIfNotExists sf name data fs = (fs', None) \<longrightarrow>
        fs name = None \<and> fs' = fs(name \<mapsto> data))
   \<and> (\<forall>name data fs fs' e. sf_CommitIfNotExists sf name data fs = (fs', Some e) \<longrightarrow> fs' = fs)"

lemma safefile_okD:
  assumes "safefile_ok sf"
  shows "sf_Commit sf name data fs = (fs', None) \<Longrightarrow> fs' = fs(name \<mapsto> data)"
    and "sf_Commit sf name data fs = (fs', Some e) \<Longrightarrow> fs' = fs"
    and "sf_CommitIfNotExists sf name data fs = (fs', None) \<Longrightarrow> fs name = None \<and> fs' = fs(name \<mapsto> data)"
    and "sf_CommitIfNotExists sf name data fs = (fs', Some e) \<Longrightarrow> fs' = fs"
  using assms unfolding safefile_ok_def by meson+

record sth_pkg =
  sth_ToASCII :: "SignedTreeHead \<Rightarrow> bytes"
  sth_FromASCII :: "bytes \<Rightarrow> SignedTreeHead result"
  sth_Verify :: "pubkey \<Rightarrow> SignedTreeHead \<Rightarrow> bool"
  sth_VerifyVersion0 :: "pubkey \<Rightarrow> SignedTreeHead \<Rightarrow> bool"

definition sth_wf :: "SignedTreeHead \<Rightarrow> bool" where
  \<comment> \<open>array lengths, and a size that the text format can express\<close>
  "sth_wf sth \<longleftrightarrow> unat (sth_Size sth) < capacity \<and> length (RootHash (sth_TreeHead sth)) = HashSize
     \<and> length (sth_Signature sth) = SignatureSize"

abbreviation th_wf :: "TreeHead \<Rightarrow> bool" where
  "th_wf th \<equiv> unat (Size th) < capacity \<and> length (RootHash th) = HashSize"

definition sth_codec_ok :: "sth_pkg \<Rightarrow> bool" where
  "sth_codec_ok sp \<longleftrightarrow> (\<forall>sth. sth_wf sth \<longrightarrow> sth_FromASCII sp (sth_ToASCII sp sth) = Ok sth)
     \<and> (\<forall>b sth. sth_FromASCII sp b = Ok sth \<longrightarrow> sth_wf sth)
     \<and> (\<forall>b. \<not> is_panic (sth_FromASCII sp b))"

text \<open>Instances: commits that always succeed, and a simple text form and signature.\<close>

definition sample_safefile :: safefile where
  "sample_safefile = \<lparr>sf_Create = \<lambda>n fs. None, sf_write = \<lambda>n b fs. None,
     sf_Commit = \<lambda>n b fs. (fs(n \<mapsto> b), None),
     sf_CommitIfNotExists = \<lambda>n b fs. if fs n = None then (fs(n \<mapsto> b), None) else (fs, Some (OsError 17))\<rparr>"

lemma safefile_ok_sample [simp]: "safefile_ok sample_safefile"
  by (simp add: safefile_ok_def sample_safefile_def)

definition sample_sth_pkg :: sth_pkg where
  "sample_sth_pkg = \<lparr>
     sth_ToASCII = (\<lambda>sth. RootHash (sth_TreeHead sth) @ sth_Signature sth @ replicate (unat (sth_Size sth)) CHR ''1''),
     sth_FromASCII = (\<lambda>b. if length b < 96 \<or> capacity \<le> length b - 96 then Err (ExtError ''bad length'')
        else Ok \<lparr>sth_TreeHead = \<lparr>Size = of_nat (length b - 96), RootHash = take 32 b\<rparr>, sth_Signature = take 64 (drop 32 b)\<rparr>),
     sth_Verify = (\<lambda>pub sth. sth_Signature sth = copy_array 64 pub),
     sth_VerifyVersion0 = (\<lambda>pub sth. False)\<rparr>"

lemma sth_codec_ok_sample [simp]: "sth_codec_ok sample_sth_pkg"
proof -
  have "sth_FromASCII sample_sth_pkg (sth_ToASCII sample_sth_pkg sth) = Ok sth" if "sth_wf sth" for sth
    using that by (cases sth; cases "sth_TreeHead sth") (auto simp: sample_sth_pkg_def sth_wf_def)
  moreover have "sth_wf sth" if "sth_FromASCII sample_sth_pkg b = Ok sth" for b sth
    using that by (auto simp: sample_sth_pkg_def sth_wf_def simp del: of_nat_diff split: if_splits)
  moreover have "\<not> is_panic (sth_FromASCII sample_sth_pkg b)" for b by (simp add: sample_sth_pkg_def)
  ultimately show ?thesis unfolding sth_codec_ok_def by blast
qed

section \<open>The tree head file\<close>

datatype StartupMode = StartupSaved | StartupEmpty | StartupLocalTree

definition StartupFileSuffix :: string where
  "StartupFileSuffix = ''.startup''"

record sthFile =
  sth_name :: string

definition startupFileName :: "sthFile \<Rightarrow> string" where
  "startupFileName s = sth_name s @ StartupFileSuffix"

definition parseStartupFile :: "reader \<Rightarrow> StartupMode result" where
  "parseStartupFile f =
     (case scan_lines f of
        [] \<Rightarrow> Err (case scan_err f of Some e \<Rightarrow> e | None \<Rightarrow> Errorf ''startup file empty'')
      | text # _ \<Rightarrow>
          (case SplitN2 (TrimSpace text) (CHR ''='') of
             [key, mode] \<Rightarrow>
               if key \<noteq> ''startup'' then Err (Errorf ''missing startup= keyword in startup file'')
               else if mode = ''empty'' then Ok StartupEmpty
               else if mode = ''local-tree'' then Ok StartupLocalTree
               else Err (Errorf ''invalid startup mode'')
           | _ \<Rightarrow> Err (Errorf ''missing startup= keyword in startup file'')))"

definition sthFile_Startup :: "os_faults \<Rightarrow> sthFile \<Rightarrow> fsys \<Rightarrow> StartupMode result" where
  "sthFile_Startup flt s fs =
     (case os_Open flt fs (startupFileName s) of
        Err e \<Rightarrow> if errors_Is_NotExist e then Ok StartupSaved else Err e
      | Panic m \<Rightarrow> Panic m
      | Ok data \<Rightarrow> parseStartupFile \<lparr>rd_data = data, rd_err = None\<rparr>)"

definition sthFile_Load :: "sth_pkg \<Rightarrow> os_faults \<Rightarrow> sthFile \<Rightarrow> pubkey \<Rightarrow> fsys \<Rightarrow> SignedTreeHead result" where
  "sthFile_Load sp flt s pub fs =
     bind_result (os_Open flt fs (sth_name s)) (\<lambda>data.
     bind_result (sth_FromASCII sp data) (\<lambda>sth.
     if sth_Verify sp pub sth \<or> sth_VerifyVersion0 sp pub sth then Ok sth
     else Err (Errorf ''invalid signature in file'')))"

definition sthFile_Create ::
    "sth_pkg \<Rightarrow> safefile \<Rightarrow> os_faults \<Rightarrow> sthFile \<Rightarrow> SignedTreeHead \<Rightarrow> fsys \<Rightarrow> fsys \<times> unit result" where
  "sthFile_Create sp sf flt s sth fs =
     (case sf_Create sf (sth_name s) fs of Some e \<Rightarrow> (fs, Err e) | None \<Rightarrow>
     (case sf_write sf (sth_name s) (sth_ToASCII sp sth) fs of Some e \<Rightarrow> (fs, Err e) | None \<Rightarrow>
     (case os_Remove flt fs (startupFileName s) of
        (fs1, err) \<Rightarrow>
          if (case err of None \<Rightarrow> False | Some e \<Rightarrow> \<not> errors_Is_NotExist e) then (fs1, Err (the err))
          else case sf_CommitIfNotExists sf (sth_name s) (sth_ToASCII sp sth) fs1 of
                 (fs2, None) \<Rightarrow> (fs2, Ok ())
               | (fs2, Some e) \<Rightarrow> (fs2, Err e))))"

definition sthFile_Store ::
    "sth_pkg \<Rightarrow> safefile \<Rightarrow> sthFile \<Rightarrow> SignedTreeHead \<Rightarrow> fsys \<Rightarrow> fsys \<times> unit result" where
  "sthFile_Store sp sf s sth fs =
     (case sf_Create sf (sth_name s) fs of Some e \<Rightarrow> (fs, Err e) | None \<Rightarrow>
     (case sf_write sf (sth_name s) (sth_ToASCII sp sth) fs of Some e \<Rightarrow> (fs, Err e) | None \<Rightarrow>
     (case sf_Commit sf (sth_name s) (sth_ToASCII sp sth) fs of
        (fs', None) \<Rightarrow> (fs', Ok ())
      | (fs', Some e) \<Rightarrow> (fs', Err e))))"

section \<open>The tool \<open>sigsum-mktree\<close>\<close>

text \<open>\<open>log.Fatalf\<close> ends the process: an error here.\<close>

definition mktree_mode :: "string \<Rightarrow> StartupMode result" where
  \<comment> \<open>the switch at the end of \<open>ParseFlags\<close>\<close>
  "mktree_mode mode =
     (if mode = ''empty'' then Ok StartupEmpty
      else if mode = ''local-tree'' then Ok StartupLocalTree
      else if mode = ''saved'' then Ok StartupSaved
      else Err (Errorf ''unknown mode''))"

definition checkNotExists :: "os_faults \<Rightarrow> fsys \<Rightarrow> string \<Rightarrow> unit result" where
  "checkNotExists flt fs file =
     (case os_Stat flt fs file of
        None \<Rightarrow> Err (Errorf ''Unexpected file, inconsistent with specified startup state.'')
      | Some e \<Rightarrow> if errors_Is_NotExist e then Ok ()
                 else Err (Errorf ''Unexpected file, inconsistent with specified startup state.''))"

definition writeStartupFile :: "os_faults \<Rightarrow> string \<Rightarrow> string \<Rightarrow> fsys \<Rightarrow> fsys \<times> unit result" where
  \<comment> \<open>\<open>O_CREATE|O_EXCL\<close> fails for an existing file; a failed write leaves a partial file behind\<close>
  "writeStartupFile flt name mode fs =
     (case (flt_open flt name, fs name) of
        (None, None) \<Rightarrow>
          (case flt_write flt name of
             None \<Rightarrow> (fs(name \<mapsto> ''startup='' @ mode), Ok ())
           | Some (n, e) \<Rightarrow> (fs(name \<mapsto> take n (''startup='' @ mode)), Err (Errorf ''writing startup file failed'')))
      | _ \<Rightarrow> (fs, Err (Errorf ''creating startup file failed'')))"

definition mktree_main :: "os_faults \<Rightarrow> string \<Rightarrow> StartupMode \<Rightarrow> fsys \<Rightarrow> fsys \<times> unit result" where
  \<comment> \<open>from the parsed flags on: the name of the tree head file and the mode\<close>
  "mktree_main flt sthFileName mode fs =
     (let startupFile = sthFileName @ StartupFileSuffix in
      case mode of
        StartupSaved \<Rightarrow>
          (fs, if os_Stat flt fs sthFileName \<noteq> None
               then Err (Errorf ''Signed tree head file doesn't exist'')
               else checkNotExists flt fs startupFile)
      | StartupEmpty \<Rightarrow>
          (case checkNotExists flt fs sthFileName of
             Ok _ \<Rightarrow> writeStartupFile flt startupFile ''empty'' fs
           | Err e \<Rightarrow> (fs, Err e)
           | Panic m \<Rightarrow> (fs, Panic m))
      | StartupLocalTree \<Rightarrow>
          (case checkNotExists flt fs sthFileName of
             Ok _ \<Rightarrow> writeStartupFile flt startupFile ''local-tree'' fs
           | Err e \<Rightarrow> (fs, Err e)
           | Panic m \<Rightarrow> (fs, Panic m)))"

section \<open>Lemmas\<close>

lemma sth_name_neq_startup [simp]: "startupFileName s \<noteq> sth_name s" "sth_name s \<noteq> startupFileName s"
  by (simp_all add: startupFileName_def StartupFileSuffix_def)

lemma sthFile_Store_cases:
  assumes "safefile_ok sf" and "sthFile_Store sp sf s sth fs = (fs', r)"
  shows "r = Ok () \<and> fs' = fs(sth_name s \<mapsto> sth_ToASCII sp sth) \<or> (\<exists>e. r = Err e) \<and> fs' = fs"
  using assms(2) safefile_okD(1,2) [OF assms(1), of "sth_name s"]
  by (auto simp: sthFile_Store_def split: option.splits prod.splits)

lemma os_Remove_cases:
  assumes "faults_ok flt" and "os_Remove flt fs n = (fs', err)"
  shows "(err = None \<or> err = Some ErrNotExist) \<and> fs' = fs(n := None)
    \<or> (\<exists>e. err = Some e \<and> \<not> errors_Is_NotExist e) \<and> fs' = fs"
  using assms by (auto simp: os_Remove_def faults_ok_def split: option.splits)

lemma sthFile_Create_cases:
  assumes "safefile_ok sf" and "faults_ok flt" and "sthFile_Create sp sf flt s sth fs = (fs', r)"
  shows "r = Ok () \<and> fs (sth_name s) = None
      \<and> fs' = (fs(startupFileName s := None))(sth_name s \<mapsto> sth_ToASCII sp sth)
    \<or> (\<exists>e. r = Err e) \<and> (fs' = fs \<or> fs' = fs(startupFileName s := None))"
proof -
  obtain fs1 err where rm: "os_Remove flt fs (startupFileName s) = (fs1, err)" by fastforce
  obtain fs2 cerr where cm: "sf_CommitIfNotExists sf (sth_name s) (sth_ToASCII sp sth) fs1 = (fs2, cerr)"
    by fastforce
  consider (fail) "\<exists>e. r = Err e" "fs' = fs" | (rm_fail) "\<exists>e. r = Err e" "fs' = fs1"
    | (commit) "fs' = fs2" "r = (case cerr of None \<Rightarrow> Ok () | Some e \<Rightarrow> Err e)"
        "err = None \<or> err = Some ErrNotExist"
    using assms(3) rm cm os_Remove_cases [OF assms(2) rm]
    by (auto simp: sthFile_Create_def split: option.splits if_splits)
  then show ?thesis
  proof cases
    case commit
    then have "fs1 = fs(startupFileName s := None)" using os_Remove_cases [OF assms(2) rm] by auto
    with commit show ?thesis
      using safefile_okD(3,4) [OF assms(1)] cm by (cases cerr) fastforce+
  qed (use os_Remove_cases [OF assms(2) rm] in auto)
qed

lemma parseStartupFile_modes:
  "parseStartupFile \<lparr>rd_data = ''startup=empty'', rd_err = None\<rparr> = Ok StartupEmpty"
  "parseStartupFile \<lparr>rd_data = ''startup=local-tree'', rd_err = None\<rparr> = Ok StartupLocalTree"
proof -
  have "TrimSpace ''startup=empty'' = ''startup=empty''" "TrimSpace ''startup=local-tree'' = ''startup=local-tree''"
    by (rule TrimSpace_plain, simp add: plain_char_def ascii_space_def)+
  then show "parseStartupFile \<lparr>rd_data = ''startup=empty'', rd_err = None\<rparr> = Ok StartupEmpty"
    and "parseStartupFile \<lparr>rd_data = ''startup=local-tree'', rd_err = None\<rparr> = Ok StartupLocalTree"
    by (simp_all add: parseStartupFile_def scan_lines_def raw_lines.simps fits_def MaxScanTokenSize_def
        dropCR_def SplitN2_def)
qed

lemma checkNotExists_Ok: "faults_ok flt \<Longrightarrow> checkNotExists flt fs n = Ok () \<longleftrightarrow> flt_stat flt n = None \<and> fs n = None"
  by (auto simp: checkNotExists_def os_Stat_def faults_ok_def split: option.splits)

section \<open>Properties\<close>

text \<open>
  C26: What \<open>sigsum-mktree\<close> sets up is what the server finds.  If the tool succeeds for a
  mode, the server's \<open>Startup\<close> reads back exactly that mode; for \<open>empty\<close> and
  \<open>local-tree\<close> there is no saved tree head that could be overwritten, for \<open>saved\<close>
  there is one; and no file other than the startup file has changed.
\<close>

theorem mktree_startup_roundtrip:
  assumes "faults_ok flt" and "mktree_main flt name mode fs = (fs', Ok ())"
    and "flt_open flt (name @ StartupFileSuffix) = None"
  shows "sthFile_Startup flt \<lparr>sth_name = name\<rparr> fs' = Ok mode
    \<and> (fs' name = None \<longleftrightarrow> mode \<noteq> StartupSaved)
    \<and> (\<exists>c. fs' = fs(name @ StartupFileSuffix := c))"
proof (cases mode)
  case StartupSaved
  then have "fs' = fs" "fs name \<noteq> None" "fs (name @ StartupFileSuffix) = None"
    using assms(2) checkNotExists_Ok [OF assms(1)]
    by (auto simp: mktree_main_def Let_def os_Stat_def split: if_splits option.splits)
  then show ?thesis
    using assms(3) StartupSaved fun_upd_triv [of fs "name @ StartupFileSuffix", symmetric]
    by (auto simp: sthFile_Startup_def os_Open_def startupFileName_def)
next
  case StartupEmpty
  then have "fs name = None" "fs' = fs(name @ StartupFileSuffix \<mapsto> ''startup=empty'')"
    using assms(2) checkNotExists_Ok [OF assms(1)]
    by (auto simp: mktree_main_def Let_def writeStartupFile_def split: result.splits option.splits)
  then show ?thesis
    using assms(3) StartupEmpty
    by (auto simp: sthFile_Startup_def os_Open_def startupFileName_def parseStartupFile_modes StartupFileSuffix_def)
next
  case StartupLocalTree
  then have "fs name = None" "fs' = fs(name @ StartupFileSuffix \<mapsto> ''startup=local-tree'')"
    using assms(2) checkNotExists_Ok [OF assms(1)]
    by (auto simp: mktree_main_def Let_def writeStartupFile_def split: result.splits option.splits)
  then show ?thesis
    using assms(3) StartupLocalTree
    by (auto simp: sthFile_Startup_def os_Open_def startupFileName_def parseStartupFile_modes StartupFileSuffix_def)
qed

theorem mktree_startup_roundtrip_witness:
  "sthFile_Startup no_faults \<lparr>sth_name = ''sth''\<rparr> (fst (mktree_main no_faults ''sth'' StartupLocalTree Map.empty))
   = Ok StartupLocalTree"
  using mktree_startup_roundtrip [of no_faults "''sth''" StartupLocalTree Map.empty]
  by (simp add: mktree_main_def checkNotExists_def os_Stat_def writeStartupFile_def no_faults_def faults_ok_def Let_def)

text \<open>
  Creating the first tree head file.  \<open>Create\<close> succeeds only where there was no tree
  head file, and then the new file is there and the startup file is gone.  When it fails, an
  existing tree head file has not been touched and the only possible change is that the startup
  file was removed; and at the one point where a crash can separate the two changes (after the
  removal) there is no tree head file that came from this call.  So a restart never finds both the
  startup file and the new tree head.
\<close>

theorem sthFile_Create_safe:
  assumes "safefile_ok sf" and "faults_ok flt" and "sthFile_Create sp sf flt s sth fs = (fs', r)"
  shows "(r = Ok () \<longrightarrow> fs (sth_name s) = None
        \<and> fs' = (fs(startupFileName s := None))(sth_name s \<mapsto> sth_ToASCII sp sth))
    \<and> (r \<noteq> Ok () \<longrightarrow> fs' (sth_name s) = fs (sth_name s) \<and> (fs' = fs \<or> fs' = fs(startupFileName s := None)))
    \<and> fst (os_Remove flt fs (startupFileName s)) (sth_name s) = fs (sth_name s)
    \<and> (fs' (sth_name s) \<noteq> fs (sth_name s) \<longrightarrow> fs' (startupFileName s) = None)"
proof -
  have "fst (os_Remove flt fs (startupFileName s)) (sth_name s) = fs (sth_name s)"
    by (simp add: os_Remove_def split: option.splits)
  then show ?thesis using sthFile_Create_cases [OF assms] by fastforce
qed

theorem sthFile_Create_safe_witness:
  "fst (sthFile_Create sample_sth_pkg sample_safefile no_faults \<lparr>sth_name = ''sth''\<rparr>
      \<lparr>sth_TreeHead = \<lparr>Size = 0, RootHash = []\<rparr>, sth_Signature = ''s''\<rparr> [''sth.startup'' \<mapsto> ''startup=empty''])
   = [''sth'' \<mapsto> ''s'']"
  using sthFile_Create_safe [OF safefile_ok_sample faults_ok_none, of sample_sth_pkg "\<lparr>sth_name = ''sth''\<rparr>"
      "\<lparr>sth_TreeHead = \<lparr>Size = 0, RootHash = []\<rparr>, sth_Signature = ''s''\<rparr>" "[''sth.startup'' \<mapsto> ''startup=empty'']"
      "[''sth'' \<mapsto> ''s'']" "Ok ()"]
  by (simp add: sthFile_Create_def sample_safefile_def sample_sth_pkg_def os_Remove_def no_faults_def
      startupFileName_def StartupFileSuffix_def)

end
