(* ===== verification/Memory_Db.thy ===== *)
theory Memory_Db
  imports Db_Client
begin

text \<open>
  The ephemeral backend of \<open>internal/db/memory.go\<close>: leaf blobs in a slice beside a
  Merkle tree of their hashes.  Its mutex makes every method one atomic step.  The well-formed
  states are described by \<open>memory_inv\<close>, and the interpretation \<open>mem\<close> discharges
  the whole database contract for the code.
\<close>

section \<open>State and operations\<close>

abbreviation (input) leafBlobSize :: nat where
  "leafBlobSize \<equiv> 2 * HashSize + SignatureSize"

record 't MemoryDb =
  leafs :: "bytes list"
  tree :: 't

definition NewMemoryDb :: "'t merkle_pkg \<Rightarrow> 't MemoryDb" where
  "NewMemoryDb mk = \<lparr>leafs = [], tree = NewTree mk\<rparr>"

definition leaf_blob :: "leaf_codec \<Rightarrow> Leaf \<Rightarrow> bytes" where
  \<comment> \<open>\<open>var blob leafBlob; copy(blob[:], leaf.ToBinary())\<close>\<close>
  "leaf_blob cd leaf = copy_array leafBlobSize (ToBinary cd leaf)"

definition MemoryDb_AddLeaf ::
    "leaf_codec \<Rightarrow> 't merkle_pkg \<Rightarrow> Leaf \<Rightarrow> u64 \<Rightarrow> 't MemoryDb \<Rightarrow> 't MemoryDb \<times> AddLeafStatus result" where
  "MemoryDb_AddLeaf cd mk leaf treeSize db =
     (let blob = leaf_blob cd leaf; h = HashLeafNode cd blob in
      case AddLeafHash mk (tree db) h of
        (t, False) \<Rightarrow>
          (db\<lparr>tree := t\<rparr>,
           case GetLeafIndex mk t h of
             Panic m \<Rightarrow> Panic m
           | Err e \<Rightarrow> Ok \<lparr>AlreadyExists = True, IsSequenced = False\<rparr>
           | Ok i \<Rightarrow> Ok \<lparr>AlreadyExists = True, IsSequenced = i < treeSize\<rparr>)
      | (t, True) \<Rightarrow>
          (db\<lparr>tree := t, leafs := leafs db @ [blob]\<rparr>, Ok \<lparr>AlreadyExists = False, IsSequenced = False\<rparr>))"

fun add_sequenced_loop ::
    "leaf_codec \<Rightarrow> 't merkle_pkg \<Rightarrow> Leaf list \<Rightarrow> 't MemoryDb \<Rightarrow> 't MemoryDb \<times> unit result" where
  "add_sequenced_loop cd mk [] db = (db, Ok ())"
| "add_sequenced_loop cd mk (leaf # rest) db =
     (let blob = leaf_blob cd leaf; h = HashLeafNode cd blob in
      case AddLeafHash mk (tree db) h of
        (t, False) \<Rightarrow> (db\<lparr>tree := t\<rparr>, Err (Errorf ''unexpected duplicate at index''))
      | (t, True) \<Rightarrow> add_sequenced_loop cd mk rest (db\<lparr>tree := t, leafs := leafs db @ [blob]\<rparr>))"

definition MemoryDb_AddSequencedLeaves ::
    "leaf_codec \<Rightarrow> 't merkle_pkg \<Rightarrow> Leaf list \<Rightarrow> i64 \<Rightarrow> 't MemoryDb \<Rightarrow> 't MemoryDb \<times> unit result" where
  "MemoryDb_AddSequencedLeaves cd mk leaves index db =
     (if tree_Size mk (tree db) \<noteq> index then (db, Err (Errorf ''incorrect index''))
      else add_sequenced_loop cd mk leaves db)"

definition MemoryDb_GetTreeHead :: "'t merkle_pkg \<Rightarrow> 't MemoryDb \<Rightarrow> 't MemoryDb \<times> TreeHead result" where
  "MemoryDb_GetTreeHead mk db =
     (db, Ok \<lparr>Size = tree_Size mk (tree db), RootHash = GetRootHash mk (tree db)\<rparr>)"

definition MemoryDb_GetConsistencyProof ::
    "'t merkle_pkg \<Rightarrow> ConsistencyRequest \<Rightarrow> 't MemoryDb \<Rightarrow> 't MemoryDb \<times> ConsistencyProof result" where
  "MemoryDb_GetConsistencyProof mk req db =
     (db, map_result (\<lambda>path. \<lparr>cp_Path = path\<rparr>) (ProveConsistency mk (tree db) (OldSize req) (NewSize req)))"

definition MemoryDb_GetInclusionProof ::
    "'t merkle_pkg \<Rightarrow> InclusionRequest \<Rightarrow> 't MemoryDb \<Rightarrow> 't MemoryDb \<times> InclusionProof result" where
  "MemoryDb_GetInclusionProof mk req db =
     (db, case GetLeafIndex mk (tree db) (ir_LeafHash req) of
            Panic m \<Rightarrow> Panic m
          | Err e \<Rightarrow> Err ErrNotIncluded
          | Ok index \<Rightarrow>
              if ir_Size req \<le> index then Err ErrNotIncluded
              else map_result (\<lambda>path. \<lparr>ip_LeafIndex = index, ip_Path = path\<rparr>)
                     (ProveInclusion mk (tree db) index (ir_Size req)))"

definition read_leaf :: "leaf_codec \<Rightarrow> bytes list \<Rightarrow> u64 \<Rightarrow> Leaf result" where
  \<comment> \<open>\<open>list[i].FromBinary(db.leafs[index][:])\<close>; the index is a signed \<open>int\<close>\<close>
  "read_leaf cd blobs index =
     (if sint index < 0 \<or> length blobs \<le> unat index then Panic ''index out of range''
      else case FromBinary cd (blobs ! unat index) of
             Ok l \<Rightarrow> Ok l
           | Err e \<Rightarrow> Panic ''internal error''
           | Panic m \<Rightarrow> Panic m)"

definition MemoryDb_GetLeaves ::
    "leaf_codec \<Rightarrow> 't merkle_pkg \<Rightarrow> LeavesRequest \<Rightarrow> 't MemoryDb \<Rightarrow> 't MemoryDb \<times> Leaf list result" where
  "MemoryDb_GetLeaves cd mk req db =
     (db, let size = tree_Size mk (tree db) in
        if size \<le> StartIndex req \<or> size < EndIndex req \<or> EndIndex req \<le> StartIndex req
        then Err (Errorf ''out of range request'')
        else mapM_result (\<lambda>i. read_leaf cd (leafs db) (of_nat i + StartIndex req))
               [0 ..< unat (EndIndex req - StartIndex req)])"

definition MemoryDb_Client :: "leaf_codec \<Rightarrow> 't merkle_pkg \<Rightarrow> 't MemoryDb Client" where
  "MemoryDb_Client cd mk = \<lparr>
     db_AddLeaf = MemoryDb_AddLeaf cd mk,
     db_AddSequencedLeaves = MemoryDb_AddSequencedLeaves cd mk,
     db_GetTreeHead = MemoryDb_GetTreeHead mk,
     db_GetConsistencyProof = MemoryDb_GetConsistencyProof mk,
     db_GetInclusionProof = MemoryDb_GetInclusionProof mk,
     db_GetLeaves = MemoryDb_GetLeaves cd mk\<rparr>"

section \<open>Invariant\<close>

definition memory_leaves :: "leaf_codec \<Rightarrow> 't MemoryDb \<Rightarrow> Leaf list" where
  "memory_leaves cd db =
     map (\<lambda>b. case FromBinary cd b of Ok l \<Rightarrow> l | _ \<Rightarrow> \<lparr>lf_Checksum = [], lf_Signature = [], lf_KeyHash = []\<rparr>) (leafs db)"

definition memory_inv ::
    "leaf_codec \<Rightarrow> 't merkle_pkg \<Rightarrow> merkle_spec \<Rightarrow> ('t \<Rightarrow> hash list) \<Rightarrow> 't MemoryDb \<Rightarrow> bool" where
  \<comment> \<open>under the laws of the packages: the tree holds the hashes of the blobs, which are
     distinct serialized leaves\<close>
  "memory_inv cd mk ms hs db \<longleftrightarrow> codec_ok cd \<and> merkle_ok mk ms hs
     \<and> hs (tree db) = map (HashLeafNode cd) (leafs db) \<and> distinct (hs (tree db))
     \<and> list_all (\<lambda>b. is_ok (FromBinary cd b)) (leafs db) \<and> length (leafs db) < capacity"

lemma length_memory_leaves [simp]: "length (memory_leaves cd db) = length (leafs db)"
  by (simp add: memory_leaves_def)

lemma leaf_blob_wf [simp]: "codec_ok cd \<Longrightarrow> leaf_wf l \<Longrightarrow> leaf_blob cd l = ToBinary cd l"
  by (simp add: leaf_blob_def codec_okD)

lemma memory_leaves_append:
  "codec_ok cd \<Longrightarrow> leaf_wf l \<Longrightarrow>
   memory_leaves cd (db\<lparr>tree := t, leafs := leafs db @ [ToBinary cd l]\<rparr>) = memory_leaves cd db @ [l]"
  by (simp add: memory_leaves_def codec_okD)

lemma memory_leaves_tree [simp]: "memory_leaves cd (db\<lparr>tree := t\<rparr>) = memory_leaves cd db"
  by (simp add: memory_leaves_def)

lemma memory_leaf:
  assumes "memory_inv cd mk ms hs db" and "i < length (leafs db)"
  shows "FromBinary cd (leafs db ! i) = Ok (memory_leaves cd db ! i)"
    and "ToBinary cd (memory_leaves cd db ! i) = leafs db ! i"
    and "leaf_wf (memory_leaves cd db ! i)"
proof -
  have ok: "codec_ok cd" and "is_ok (FromBinary cd (leafs db ! i))"
    using assms by (auto simp: memory_inv_def list_all_length)
  then obtain l where l: "FromBinary cd (leafs db ! i) = Ok l"
    by (auto simp: is_ok_iff)
  then have "memory_leaves cd db ! i = l"
    using assms by (simp add: memory_leaves_def)
  with l show "FromBinary cd (leafs db ! i) = Ok (memory_leaves cd db ! i)"
    and "ToBinary cd (memory_leaves cd db ! i) = leafs db ! i"
    and "leaf_wf (memory_leaves cd db ! i)"
    using codec_okD(3,4) [OF ok l] by simp_all
qed

lemma memory_leaf_hashes:
  assumes "memory_inv cd mk ms hs db"
  shows "map (leaf_hash cd) (memory_leaves cd db) = hs (tree db)"
proof (rule nth_equalityI)
  show "length (map (leaf_hash cd) (memory_leaves cd db)) = length (hs (tree db))"
    using assms by (simp add: memory_inv_def)
  show "map (leaf_hash cd) (memory_leaves cd db) ! i = hs (tree db) ! i"
    if "i < length (map (leaf_hash cd) (memory_leaves cd db))" for i
    using that memory_leaf(2) [OF assms] assms by (simp add: memory_inv_def leaf_hash_def)
qed

lemma memory_inv_leaves:
  "memory_inv cd mk ms hs db \<Longrightarrow> list_all leaf_wf (memory_leaves cd db)
     \<and> distinct (map (leaf_hash cd) (memory_leaves cd db)) \<and> length (memory_leaves cd db) < capacity"
  by (auto simp: list_all_length memory_leaf_hashes memory_leaf(3)) (auto simp: memory_inv_def)

lemma memory_inv_New: "codec_ok cd \<Longrightarrow> merkle_ok mk ms hs \<Longrightarrow> memory_inv cd mk ms hs (NewMemoryDb mk)"
  by (simp add: memory_inv_def NewMemoryDb_def merkle_okD capacity_def)

section \<open>Each operation on the abstract log\<close>

text \<open>
  The reference behaviour: the database is the list \<open>ls\<close> of its leaves.
\<close>

definition log_AddLeaf :: "leaf_codec \<Rightarrow> Leaf \<Rightarrow> u64 \<Rightarrow> Leaf list \<Rightarrow> Leaf list \<times> AddLeafStatus" where
  "log_AddLeaf cd l n ls =
     (let i = leaf_position cd ls (leaf_hash cd l) in
      if i < length ls then (ls, \<lparr>AlreadyExists = True, IsSequenced = i < unat n\<rparr>)
      else (ls @ [l], \<lparr>AlreadyExists = False, IsSequenced = False\<rparr>))"

fun log_append :: "leaf_codec \<Rightarrow> Leaf list \<Rightarrow> Leaf list \<Rightarrow> Leaf list \<times> bool" where
  \<comment> \<open>append leaves up to the first duplicate\<close>
  "log_append cd [] ls = (ls, True)"
| "log_append cd (l # rest) ls =
     (if leaf_hash cd l \<in> leaf_hash cd ` set ls then (ls, False) else log_append cd rest (ls @ [l]))"

lemma memory_mem_iff:
  "memory_inv cd mk ms hs db \<Longrightarrow> h \<in> set (hs (tree db)) \<longleftrightarrow> h \<in> leaf_hash cd ` set (memory_leaves cd db)"
  by (simp flip: memory_leaf_hashes)

lemma memory_GetLeafIndex:
  assumes "memory_inv cd mk ms hs db" and "h \<in> leaf_hash cd ` set (memory_leaves cd db)"
  shows "GetLeafIndex mk (tree db) h = Ok (of_nat (leaf_position cd (memory_leaves cd db) h))"
proof -
  let ?i = "leaf_position cd (memory_leaves cd db) h"
  have i: "?i < length (memory_leaves cd db)"
    using assms(2) leaf_position_less_iff by metis
  then have "hs (tree db) ! ?i = h"
    using leaf_position_nth [OF i] memory_leaf_hashes [OF assms(1)] by (metis nth_map)
  moreover have "?i < length (hs (tree db))"
    using i memory_leaf_hashes [OF assms(1)] by (metis length_map)
  ultimately show ?thesis
    using merkle_okD(4) [of mk ms hs ?i "tree db"] assms(1) unfolding memory_inv_def by metis
qed

lemma memory_no_LeafIndex:
  assumes "memory_inv cd mk ms hs db" and "h \<notin> leaf_hash cd ` set (memory_leaves cd db)"
  obtains e where "GetLeafIndex mk (tree db) h = Err e"
  using assms memory_mem_iff [OF assms(1)] merkle_okD(5) [of mk ms hs h "tree db"]
  unfolding memory_inv_def by metis

lemma memory_append:
  assumes "memory_inv cd mk ms hs db" and "leaf_wf l"
    and "leaf_hash cd l \<notin> leaf_hash cd ` set (memory_leaves cd db)"
  obtains t where "AddLeafHash mk (tree db) (HashLeafNode cd (ToBinary cd l)) = (t, True)"
    and "length (memory_leaves cd db) + 1 < capacity \<Longrightarrow>
       memory_inv cd mk ms hs (db\<lparr>tree := t, leafs := leafs db @ [ToBinary cd l]\<rparr>)"
proof -
  let ?h = "HashLeafNode cd (ToBinary cd l)"
  have new: "?h \<notin> set (hs (tree db))"
    using assms memory_mem_iff [OF assms(1)] by (simp add: leaf_hash_def)
  have ok: "codec_ok cd" "merkle_ok mk ms hs" using assms(1) by (auto simp: memory_inv_def)
  obtain t where t: "AddLeafHash mk (tree db) ?h = (t, True)" "hs t = hs (tree db) @ [?h]"
    using merkle_okD(3) [OF ok(2) new] by blast
  have "memory_inv cd mk ms hs (db\<lparr>tree := t, leafs := leafs db @ [ToBinary cd l]\<rparr>)"
    if "length (memory_leaves cd db) + 1 < capacity"
    using assms that t new ok by (auto simp: memory_inv_def codec_okD)
  with t show ?thesis using that by blast
qed

lemma memory_duplicate:
  assumes "memory_inv cd mk ms hs db" and "leaf_hash cd l \<in> leaf_hash cd ` set (memory_leaves cd db)"
  shows "AddLeafHash mk (tree db) (HashLeafNode cd (ToBinary cd l)) = (tree db, False)"
  using assms memory_mem_iff [OF assms(1)] merkle_okD(2) [of mk ms hs _ "tree db"]
  by (simp add: memory_inv_def leaf_hash_def)

lemma MemoryDb_AddLeaf_log:
  assumes inv: "memory_inv cd mk ms hs db" and wf: "leaf_wf l"
    and eq: "MemoryDb_AddLeaf cd mk l n db = (db', r)"
  shows "(memory_leaves cd db', r) = map_prod id Ok (log_AddLeaf cd l n (memory_leaves cd db))
    \<and> (length (memory_leaves cd db') < capacity \<longrightarrow> memory_inv cd mk ms hs db')"
proof -
  have ok: "codec_ok cd" using inv by (simp add: memory_inv_def)
  let ?ls = "memory_leaves cd db" and ?h = "leaf_hash cd l"
  show ?thesis
  proof (cases "?h \<in> leaf_hash cd ` set ?ls")
    case True
    let ?i = "leaf_position cd ?ls ?h"
    have i: "?i < length ?ls" using True leaf_position_less_iff by metis
    then have "?i < capacity" using memory_inv_leaves [OF inv] by simp
    then have "of_nat ?i < n \<longleftrightarrow> ?i < unat n" by (simp add: word_less_nat_alt)
    then show ?thesis
      using eq wf ok i inv memory_duplicate [OF inv True] memory_GetLeafIndex [OF inv True]
      by (auto simp: MemoryDb_AddLeaf_def log_AddLeaf_def Let_def leaf_hash_def)
  next
    case False
    obtain t where t: "AddLeafHash mk (tree db) (HashLeafNode cd (ToBinary cd l)) = (t, True)"
      "length ?ls + 1 < capacity \<Longrightarrow>
       memory_inv cd mk ms hs (db\<lparr>tree := t, leafs := leafs db @ [ToBinary cd l]\<rparr>)"
      using memory_append [OF inv wf False] by blast
    then show ?thesis
      using eq wf ok False leaf_position_less_iff [of cd ?ls ?h]
      by (auto simp: MemoryDb_AddLeaf_def log_AddLeaf_def Let_def memory_leaves_append)
  qed
qed

lemma add_sequenced_loop_log:
  assumes "memory_inv cd mk ms hs db" and "list_all leaf_wf ls"
    and "add_sequenced_loop cd mk ls db = (db', r)"
    and "length (memory_leaves cd db) + length ls < capacity"
  shows "(memory_leaves cd db', is_ok r) = log_append cd ls (memory_leaves cd db)
    \<and> memory_inv cd mk ms hs db' \<and> \<not> is_panic r"
  using assms
proof (induction ls arbitrary: db)
  case (Cons l ls)
  have ok: "codec_ok cd" using Cons.prems(1) by (simp add: memory_inv_def)
  show ?case
  proof (cases "leaf_hash cd l \<in> leaf_hash cd ` set (memory_leaves cd db)")
    case True
    then show ?thesis
      using Cons.prems ok memory_duplicate [OF Cons.prems(1) True] by auto
  next
    case False
    obtain t where t: "AddLeafHash mk (tree db) (HashLeafNode cd (ToBinary cd l)) = (t, True)"
      "length (memory_leaves cd db) + 1 < capacity \<Longrightarrow>
       memory_inv cd mk ms hs (db\<lparr>tree := t, leafs := leafs db @ [ToBinary cd l]\<rparr>)"
      using memory_append [OF Cons.prems(1) _ False] Cons.prems(2) by auto
    let ?db = "db\<lparr>tree := t, leafs := leafs db @ [ToBinary cd l]\<rparr>"
    have "add_sequenced_loop cd mk ls ?db = (db', r)"
      using Cons.prems(2,3) t(1) ok by simp
    moreover have "memory_inv cd mk ms hs ?db" using t(2) Cons.prems(4) by simp
    moreover have "memory_leaves cd ?db = memory_leaves cd db @ [l]"
      using ok Cons.prems(2) by (simp del: MemoryDb.update_convs add: memory_leaves_append)
    ultimately show ?thesis
      using Cons.IH [of ?db] Cons.prems False by simp
  qed
qed auto

lemma log_append_ok:
  "distinct (map (leaf_hash cd) (ls @ ls')) \<Longrightarrow> log_append cd ls' ls = (ls @ ls', True)"
proof (induction ls' arbitrary: ls)
  case (Cons l ls')
  then show ?case using Cons.IH [of "ls @ [l]"] by auto
qed simp

lemma log_append_take: "\<exists>k \<le> length ls'. log_append cd ls' ls = (ls @ take k ls', k = length ls')"
proof (induction ls' arbitrary: ls)
  case (Cons l ls')
  show ?case
  proof (cases "leaf_hash cd l \<in> leaf_hash cd ` set ls")
    case True
    then show ?thesis by (auto intro!: exI [of _ 0])
  next
    case False
    obtain k where "k \<le> length ls'" "log_append cd ls' (ls @ [l]) = ((ls @ [l]) @ take k ls', k = length ls')"
      using Cons.IH [of "ls @ [l]"] by blast
    with False show ?thesis by (auto intro!: exI [of _ "Suc k"])
  qed
qed simp

lemma memory_size:
  assumes "memory_inv cd mk ms hs db"
  shows "tree_Size mk (tree db) = of_nat (length (memory_leaves cd db))"
    and "unat (tree_Size mk (tree db)) = length (memory_leaves cd db)"
proof -
  have "length (hs (tree db)) = length (memory_leaves cd db)"
    using memory_leaf_hashes [OF assms] by (metis length_map)
  moreover have "merkle_ok mk ms hs" using assms by (simp add: memory_inv_def)
  ultimately show "tree_Size mk (tree db) = of_nat (length (memory_leaves cd db))"
    by (simp add: merkle_okD(6))
  then show "unat (tree_Size mk (tree db)) = length (memory_leaves cd db)"
    using memory_inv_leaves [OF assms] by simp
qed

lemma MemoryDb_AddSequencedLeaves_log:
  assumes "memory_inv cd mk ms hs db" and "list_all leaf_wf ls"
    and "MemoryDb_AddSequencedLeaves cd mk ls k db = (db', r)"
    and "length (memory_leaves cd db) + length ls < capacity"
  shows "(memory_leaves cd db', is_ok r) =
      (if unat k = length (memory_leaves cd db) then log_append cd ls (memory_leaves cd db)
       else (memory_leaves cd db, False))
    \<and> memory_inv cd mk ms hs db' \<and> \<not> is_panic r"
proof -
  have "tree_Size mk (tree db) = k \<longleftrightarrow> unat k = length (memory_leaves cd db)"
    using memory_size [OF assms(1)] by (metis word_unat_eq_iff)
  then show ?thesis
    using assms add_sequenced_loop_log [OF assms(1,2) _ assms(4)]
    by (auto simp: MemoryDb_AddSequencedLeaves_def split: if_splits)
qed

lemma MemoryDb_GetTreeHead_log:
  assumes "memory_inv cd mk ms hs db"
  shows "MemoryDb_GetTreeHead mk db =
    (db, Ok \<lparr>Size = of_nat (length (memory_leaves cd db)),
             RootHash = mroot ms (map (leaf_hash cd) (memory_leaves cd db))\<rparr>)"
proof -
  have "merkle_ok mk ms hs" using assms by (simp add: memory_inv_def)
  then show ?thesis
    using memory_size(1) [OF assms] memory_leaf_hashes [OF assms]
    by (simp add: MemoryDb_GetTreeHead_def merkle_okD(7))
qed

lemma MemoryDb_GetConsistencyProof_log:
  assumes "memory_inv cd mk ms hs db"
  shows "if OldSize req \<le> NewSize req \<and> unat (NewSize req) \<le> length (memory_leaves cd db)
    then MemoryDb_GetConsistencyProof mk req db = (db, Ok \<lparr>cp_Path =
      cproof ms (map (leaf_hash cd) (take (unat (NewSize req)) (memory_leaves cd db))) (unat (OldSize req))\<rparr>)
    else \<exists>e. MemoryDb_GetConsistencyProof mk req db = (db, Err e)"
proof -
  have ok: "merkle_ok mk ms hs" using assms by (simp add: memory_inv_def)
  have len: "length (hs (tree db)) = length (memory_leaves cd db)"
    using memory_leaf_hashes [OF assms] by (metis length_map)
  show ?thesis
    using merkle_okD(8,9) [OF ok, of "OldSize req" "NewSize req" "tree db"] len
    by (auto simp: MemoryDb_GetConsistencyProof_def memory_leaf_hashes [OF assms] simp flip: take_map)
qed

lemma MemoryDb_GetInclusionProof_log:
  fixes req :: InclusionRequest
  assumes "memory_inv cd mk ms hs db"
  defines "i \<equiv> leaf_position cd (memory_leaves cd db) (ir_LeafHash req)"
  shows "if \<not> i < min (length (memory_leaves cd db)) (unat (ir_Size req))
    then MemoryDb_GetInclusionProof mk req db = (db, Err ErrNotIncluded)
    else if unat (ir_Size req) \<le> length (memory_leaves cd db)
    then MemoryDb_GetInclusionProof mk req db = (db, Ok \<lparr>ip_LeafIndex = of_nat i, ip_Path =
      iproof ms (map (leaf_hash cd) (take (unat (ir_Size req)) (memory_leaves cd db))) i\<rparr>)
    else \<exists>e. MemoryDb_GetInclusionProof mk req db = (db, Err e)"
proof (cases "i < length (memory_leaves cd db)")
  case True
  then have mem: "ir_LeafHash req \<in> leaf_hash cd ` set (memory_leaves cd db)"
    unfolding i_def by (simp only: leaf_position_less_iff)
  have "i < capacity" using True memory_inv_leaves [OF assms(1)] by simp
  then have i: "unat (of_nat i :: u64) = i" by simp
  have ok: "merkle_ok mk ms hs" using assms by (simp add: memory_inv_def)
  have len: "length (hs (tree db)) = length (memory_leaves cd db)"
    using memory_leaf_hashes [OF assms(1)] by (metis length_map)
  have idx: "GetLeafIndex mk (tree db) (ir_LeafHash req) = Ok (of_nat i)"
    using memory_GetLeafIndex [OF assms(1) mem] by (simp add: i_def)
  show ?thesis
    using merkle_okD(10,11) [OF ok, of "of_nat i" "ir_Size req" "tree db"] len idx True i
    by (auto simp: MemoryDb_GetInclusionProof_def memory_leaf_hashes [OF assms(1)] word_less_nat_alt
        word_le_nat_alt simp flip: take_map)
next
  case False
  then have "ir_LeafHash req \<notin> leaf_hash cd ` set (memory_leaves cd db)"
    unfolding i_def by (metis leaf_position_less_iff)
  then obtain e where "GetLeafIndex mk (tree db) (ir_LeafHash req) = Err e"
    using memory_no_LeafIndex [OF assms(1)] by blast
  then show ?thesis using False by (simp add: MemoryDb_GetInclusionProof_def)
qed

lemma read_leaf_memory:
  assumes "memory_inv cd mk ms hs db" and "unat k < length (memory_leaves cd db)"
  shows "read_leaf cd (leafs db) k = Ok (memory_leaves cd db ! unat k)"
proof -
  have "unat k < capacity"
    using assms memory_inv_leaves [OF assms(1)] by simp
  then have "0 \<le> sint k"
    by (simp add: sint_capacity)
  then show ?thesis
    using assms memory_leaf(1) [OF assms(1)] by (simp add: read_leaf_def)
qed

lemma MemoryDb_GetLeaves_log:
  assumes "memory_inv cd mk ms hs db"
  shows "MemoryDb_GetLeaves cd mk req db =
    (db, if StartIndex req < EndIndex req \<and> unat (EndIndex req) \<le> length (memory_leaves cd db)
         then Ok (leaf_slice (memory_leaves cd db) (StartIndex req) (EndIndex req))
         else Err (Errorf ''out of range request''))"
proof (cases "StartIndex req < EndIndex req \<and> unat (EndIndex req) \<le> length (memory_leaves cd db)")
  case True
  let ?a = "StartIndex req" and ?b = "EndIndex req"
  have ab: "unat ?a < unat ?b" using True by (simp add: word_less_nat_alt)
  have n: "unat (?b - ?a) = unat ?b - unat ?a"
    using ab by (simp add: unat_sub word_le_nat_alt)
  have step: "unat (of_nat i + ?a) = i + unat ?a" if "i < unat ?b - unat ?a" for i
  proof -
    have "i + unat ?a < unat ?b" using that by simp
    then have "i + unat ?a < 2 ^ 64" using unat_less_word [of ?b] by simp
    then have "unat (of_nat (i + unat ?a) :: u64) = i + unat ?a" by (rule unat_of_nat_word)
    then show ?thesis by simp
  qed
  have "read_leaf cd (leafs db) (of_nat i + ?a) = Ok (memory_leaves cd db ! (i + unat ?a))"
    if "i \<in> set [0 ..< unat (?b - ?a)]" for i
    using that step [of i] read_leaf_memory [OF assms, of "of_nat i + ?a"] n True
    by (simp add: less_diff_conv)
  then have "mapM_result (\<lambda>i. read_leaf cd (leafs db) (of_nat i + ?a)) [0 ..< unat (?b - ?a)]
      = Ok (map (\<lambda>i. memory_leaves cd db ! (i + unat ?a)) [0 ..< unat (?b - ?a)])"
    by (rule mapM_result_map_Ok)
  moreover have "map (\<lambda>i. memory_leaves cd db ! (i + unat ?a)) [0 ..< unat (?b - ?a)]
      = leaf_slice (memory_leaves cd db) ?a ?b"
    using True ab n by (auto simp: leaf_slice_def add.commute intro!: nth_equalityI)
  ultimately show ?thesis
    using True ab memory_size(2) [OF assms]
    by (simp add: MemoryDb_GetLeaves_def Let_def word_less_nat_alt word_le_nat_alt)
next
  case False
  then show ?thesis
    using memory_size(2) [OF assms]
    by (auto simp: MemoryDb_GetLeaves_def Let_def word_less_nat_alt word_le_nat_alt)
qed

lemma MemoryDb_reads_pure:
  assumes "memory_inv cd mk ms hs db"
  shows "MemoryDb_GetConsistencyProof mk cr db = (db', rC) \<Longrightarrow> db' = db \<and> \<not> is_panic rC"
    and "MemoryDb_GetInclusionProof mk ir db = (db', rI) \<Longrightarrow> db' = db \<and> \<not> is_panic rI"
  using MemoryDb_GetConsistencyProof_log [OF assms, of cr] MemoryDb_GetInclusionProof_log [OF assms, of ir]
  by (auto split: if_splits)

lemma MemoryDb_GetInclusionProof_leaf:
  assumes "memory_inv cd mk ms hs db" and "MemoryDb_GetInclusionProof mk req db = (db', Ok p)"
  shows "ip_LeafIndex p < ir_Size req \<and> unat (ip_LeafIndex p) < length (memory_leaves cd db) \<and> db' = db
    \<and> leaf_hash cd (memory_leaves cd db ! unat (ip_LeafIndex p)) = ir_LeafHash req"
proof -
  let ?i = "leaf_position cd (memory_leaves cd db) (ir_LeafHash req)"
  have i: "?i < length (memory_leaves cd db)" "?i < unat (ir_Size req)" "ip_LeafIndex p = of_nat ?i"
    using MemoryDb_GetInclusionProof_log [OF assms(1), of req] assms(2) by (auto split: if_splits)
  then have "unat (ip_LeafIndex p) = ?i"
    using memory_inv_leaves [OF assms(1)] by simp
  moreover have "db' = db" using MemoryDb_reads_pure(2) [OF assms] by simp
  ultimately show ?thesis
    using i leaf_position_nth [of cd "memory_leaves cd db" "ir_LeafHash req"] by (simp add: word_less_nat_alt)
qed

section \<open>The contract\<close>

lemma log_AddLeaf_prefix: "log_AddLeaf cd l n ls = (ls', st) \<Longrightarrow> prefix ls ls'"
  by (auto simp: log_AddLeaf_def Let_def split: if_splits)

definition memory_acc :: "leaf_codec \<Rightarrow> 't MemoryDb \<Rightarrow> (nat \<times> Leaf) set" where
  "memory_acc cd db = {(i, memory_leaves cd db ! i) | i. i < length (memory_leaves cd db)}"

lemma log_AddLeaf_sequenced:
  assumes "log_AddLeaf cd l n ls = (ls', st)" and "IsSequenced st"
  shows "\<exists>i < unat n. i < length ls' \<and> leaf_hash cd (ls' ! i) = leaf_hash cd l"
  using assms leaf_position_nth [of cd ls "leaf_hash cd l"]
  by (auto simp: log_AddLeaf_def Let_def split: if_splits)

lemma MemoryDb_AddSequencedLeaves_prefix:
  assumes "memory_inv cd mk ms hs db" and "list_all leaf_wf ls" and "k + length ls < capacity"
    and "MemoryDb_AddSequencedLeaves cd mk ls (of_nat k) db = (db', r)"
  shows "\<exists>j \<le> length ls. memory_leaves cd db' = memory_leaves cd db @ take j ls
      \<and> (j = 0 \<or> k = length (memory_leaves cd db))
      \<and> (is_ok r \<longrightarrow> j = length ls \<and> k = length (memory_leaves cd db))
      \<and> memory_inv cd mk ms hs db' \<and> \<not> is_panic r"
proof (cases "k = length (memory_leaves cd db)")
  case True
  then have "unat (of_nat k :: u64) = length (memory_leaves cd db)" using assms(3) by simp
  moreover obtain j where "j \<le> length ls"
      "log_append cd ls (memory_leaves cd db) = (memory_leaves cd db @ take j ls, j = length ls)"
    using log_append_take by blast
  ultimately show ?thesis
    using MemoryDb_AddSequencedLeaves_log [OF assms(1,2,4)] True assms(3) by auto
next
  case False
  then have "tree_Size mk (tree db) \<noteq> of_nat k"
    using memory_size(2) [OF assms(1)] assms(3) by auto
  then show ?thesis
    using assms False by (auto simp: MemoryDb_AddSequencedLeaves_def)
qed

interpretation mem: db_contract "MemoryDb_Client cd mk" "memory_inv cd mk ms hs" "memory_leaves cd" cd ms
  for cd :: leaf_codec and mk :: "'t merkle_pkg" and ms :: merkle_spec and hs :: "'t \<Rightarrow> hash list"
proof
  fix s s' :: "'t MemoryDb" and l n r
  assume *: "memory_inv cd mk ms hs s" "leaf_wf l" "db_AddLeaf (MemoryDb_Client cd mk) l n s = (s', r)"
  then show "prefix (memory_leaves cd s) (memory_leaves cd s') \<and>
      (length (memory_leaves cd s') < capacity \<longrightarrow> memory_inv cd mk ms hs s') \<and> \<not> is_panic r"
    using MemoryDb_AddLeaf_log [OF *(1,2)] log_AddLeaf_prefix
    by (cases "log_AddLeaf cd l n (memory_leaves cd s)") (fastforce simp: MemoryDb_Client_def)
next
  fix s s' :: "'t MemoryDb" and l n st
  assume *: "memory_inv cd mk ms hs s" "leaf_wf l" "db_AddLeaf (MemoryDb_Client cd mk) l n s = (s', Ok st)"
    "IsSequenced st"
  then show "\<exists>i < unat n. i < length (memory_leaves cd s') \<and>
      leaf_hash cd (memory_leaves cd s' ! i) = leaf_hash cd l"
    using MemoryDb_AddLeaf_log [OF *(1,2)] log_AddLeaf_sequenced
    by (cases "log_AddLeaf cd l n (memory_leaves cd s)") (fastforce simp: MemoryDb_Client_def)
next
  fix s s' :: "'t MemoryDb" and ir p
  assume "memory_inv cd mk ms hs s" "db_GetInclusionProof (MemoryDb_Client cd mk) ir s = (s', Ok p)"
  then show "ip_LeafIndex p < ir_Size ir \<and> unat (ip_LeafIndex p) < length (memory_leaves cd s')
      \<and> leaf_hash cd (memory_leaves cd s' ! unat (ip_LeafIndex p)) = ir_LeafHash ir"
    using MemoryDb_GetInclusionProof_leaf [of cd mk ms hs s ir s' p] by (simp add: MemoryDb_Client_def)
next
  fix s s' :: "'t MemoryDb" and ls k r
  assume *: "memory_inv cd mk ms hs s" "list_all leaf_wf ls" "k + length ls < capacity"
    "db_AddSequencedLeaves (MemoryDb_Client cd mk) ls (of_nat k) s = (s', r)"
  then show "prefix (memory_leaves cd s) (memory_leaves cd s') \<and>
      (length (memory_leaves cd s') < capacity \<longrightarrow> memory_inv cd mk ms hs s') \<and> \<not> is_panic r"
    using MemoryDb_AddSequencedLeaves_prefix [OF *(1,2,3)] by (auto simp: MemoryDb_Client_def)
qed (auto simp: MemoryDb_Client_def MemoryDb_GetTreeHead_log MemoryDb_GetLeaves_log is_head_of_def
    split: if_splits dest: memory_inv_leaves MemoryDb_reads_pure)

lemma acc_append:
  assumes "j \<le> length ls"
  shows "{(i, (xs @ take j ls) ! i) | i. i < length (xs @ take j ls)}
    \<subseteq> {(i, xs ! i) | i. i < length xs} \<union> {(length xs + j, ls ! j) | j. j < length ls}"
proof
  fix p
  assume "p \<in> {(i, (xs @ take j ls) ! i) | i. i < length (xs @ take j ls)}"
  then obtain i where i: "p = (i, (xs @ take j ls) ! i)" "i < length xs + j"
    using assms by auto
  show "p \<in> {(i, xs ! i) | i. i < length xs} \<union> {(length xs + j, ls ! j) | j. j < length ls}"
  proof (cases "i < length xs")
    case False
    then have "p = (length xs + (i - length xs), ls ! (i - length xs))" "i - length xs < length ls"
      using i assms by (auto simp: nth_append)
    then show ?thesis by blast
  qed (use i in \<open>auto simp: nth_append\<close>)
qed

interpretation memp: integrating_db "MemoryDb_Client cd mk" "memory_inv cd mk ms hs" "memory_leaves cd" cd ms
    "memory_acc cd" "\<lambda>s. 0" 0
  for cd :: leaf_codec and mk :: "'t merkle_pkg" and ms :: merkle_spec and hs :: "'t \<Rightarrow> hash list"
proof
  fix s s' :: "'t MemoryDb" and ls k r
  assume *: "memory_inv cd mk ms hs s" "list_all leaf_wf ls" "k + length ls < capacity"
    "db_AddSequencedLeaves (MemoryDb_Client cd mk) ls (of_nat k) s = (s', r)"
  obtain j where j: "j \<le> length ls" "memory_leaves cd s' = memory_leaves cd s @ take j ls"
      "j = 0 \<or> k = length (memory_leaves cd s)" "memory_inv cd mk ms hs s'" "\<not> is_panic r"
    using MemoryDb_AddSequencedLeaves_prefix [OF *(1,2,3)] *(4) by (auto simp: MemoryDb_Client_def)
  have "memory_acc cd s' \<subseteq> memory_acc cd s \<union> {(k + j, ls ! j) | j. j < length ls}"
    using j(2,3) acc_append [OF j(1), of "memory_leaves cd s"] unfolding memory_acc_def
    by (cases "j = 0") (simp_all only: take0 append_Nil2 Un_upper1 simp_thms)
  with j(4) show "memory_inv cd mk ms hs s' \<and>
      memory_acc cd s' \<subseteq> memory_acc cd s \<union> {(k + j, ls ! j) | j. j < length ls}" ..
next
  fix s :: "'t MemoryDb" and ls
  assume *: "memory_inv cd mk ms hs s" "list_all leaf_wf ls"
    "distinct (map (leaf_hash cd) (memory_leaves cd s @ ls))" "length (memory_leaves cd s @ ls) < capacity"
  obtain s' r where s': "MemoryDb_AddSequencedLeaves cd mk ls (of_nat (length (memory_leaves cd s))) s = (s', r)"
    by fastforce
  have "memory_leaves cd s' = memory_leaves cd s @ ls" "r = Ok ()" "memory_inv cd mk ms hs s'"
    using MemoryDb_AddSequencedLeaves_log [OF *(1,2) s'] log_append_ok [OF *(3)] *(4)
    by (auto simp: is_ok_iff)
  with s' show "\<exists>s'. db_AddSequencedLeaves (MemoryDb_Client cd mk) ls (of_nat (length (memory_leaves cd s))) s = (s', Ok ())
      \<and> (\<forall>j < length ls. (length (memory_leaves cd s) + j, ls ! j) \<in> memory_acc cd s')
      \<and> ((0 :: nat) < 0 \<or> (\<forall>l. (length (memory_leaves cd s'), l) \<notin> memory_acc cd s'))"
    by (auto simp: MemoryDb_Client_def memory_acc_def nth_append simp del: length_memory_leaves)
qed (auto simp: MemoryDb_Client_def MemoryDb_GetTreeHead_log memory_acc_def dest: memory_inv_leaves)

section \<open>Properties\<close>

text \<open>
  C10: The in-memory backend implements the abstract append-only log.  In a well-formed state every
  method does on the list of leaves what the reference operation does: \<open>AddLeaf\<close> appends
  a new leaf and reports an existing one with its position compared with the given tree size;
  \<open>AddSequencedLeaves\<close> appends up to the first duplicate, and only at the end of the
  log; \<open>GetTreeHead\<close> returns the size and root of the whole list; \<open>GetLeaves\<close>
  returns exactly the requested slice or an error; \<open>GetConsistencyProof\<close> returns the Merkle
  consistency proof between the two prefixes of the list when both sizes are in range and in order, and an error
  otherwise; \<open>GetInclusionProof\<close> reports \<open>ErrNotIncluded\<close> when the leaf is not among the first
  \<open>Size\<close> leaves, else returns its position with the proof for the first \<open>Size\<close> leaves, or
  an error when the log has fewer leaves than that.  The reading methods change nothing, and no method panics.
\<close>

theorem MemoryDb_refines_log:
  assumes "memory_inv cd mk ms hs db" and "leaf_wf l" and "list_all leaf_wf ls"
    and "length (memory_leaves cd db) + length ls < capacity"
  shows "map_prod (memory_leaves cd) id (MemoryDb_AddLeaf cd mk l n db)
      = map_prod id Ok (log_AddLeaf cd l n (memory_leaves cd db))
    \<and> map_prod (memory_leaves cd) is_ok (MemoryDb_AddSequencedLeaves cd mk ls k db)
      = (if unat k = length (memory_leaves cd db) then log_append cd ls (memory_leaves cd db)
         else (memory_leaves cd db, False))
    \<and> \<not> is_panic (snd (MemoryDb_AddSequencedLeaves cd mk ls k db))
    \<and> MemoryDb_GetTreeHead mk db =
      (db, Ok \<lparr>Size = of_nat (length (memory_leaves cd db)),
               RootHash = mroot ms (map (leaf_hash cd) (memory_leaves cd db))\<rparr>)
    \<and> MemoryDb_GetLeaves cd mk req db =
      (db, if StartIndex req < EndIndex req \<and> unat (EndIndex req) \<le> length (memory_leaves cd db)
           then Ok (leaf_slice (memory_leaves cd db) (StartIndex req) (EndIndex req))
           else Err (Errorf ''out of range request''))
    \<and> (if ir_LeafHash ireq \<notin> leaf_hash cd ` set (take (unat (ir_Size ireq)) (memory_leaves cd db))
       then MemoryDb_GetInclusionProof mk ireq db = (db, Err ErrNotIncluded)
       else if unat (ir_Size ireq) \<le> length (memory_leaves cd db)
       then MemoryDb_GetInclusionProof mk ireq db = (db, Ok
           \<lparr>ip_LeafIndex = of_nat (leaf_position cd (memory_leaves cd db) (ir_LeafHash ireq)),
            ip_Path = iproof ms (map (leaf_hash cd) (take (unat (ir_Size ireq)) (memory_leaves cd db)))
                        (leaf_position cd (memory_leaves cd db) (ir_LeafHash ireq))\<rparr>)
       else \<exists>e. MemoryDb_GetInclusionProof mk ireq db = (db, Err e))
    \<and> (if OldSize creq \<le> NewSize creq \<and> unat (NewSize creq) \<le> length (memory_leaves cd db)
       then MemoryDb_GetConsistencyProof mk creq db = (db, Ok \<lparr>cp_Path =
           cproof ms (map (leaf_hash cd) (take (unat (NewSize creq)) (memory_leaves cd db))) (unat (OldSize creq))\<rparr>)
       else \<exists>e. MemoryDb_GetConsistencyProof mk creq db = (db, Err e))"
proof -
  obtain db1 r1 where 1: "MemoryDb_AddLeaf cd mk l n db = (db1, r1)" by fastforce
  obtain db2 r2 where 2: "MemoryDb_AddSequencedLeaves cd mk ls k db = (db2, r2)" by fastforce
  show ?thesis
    using MemoryDb_AddLeaf_log [OF assms(1,2) 1] MemoryDb_AddSequencedLeaves_log [OF assms(1,3) 2 assms(4)]
      MemoryDb_GetTreeHead_log [OF assms(1)] MemoryDb_GetLeaves_log [OF assms(1)] 1 2
      MemoryDb_GetInclusionProof_log [OF assms(1), of ireq] MemoryDb_GetConsistencyProof_log [OF assms(1), of creq]
    by (simp add: leaf_position_take_iff prod_eq_iff)
qed

definition sample_db :: "hash list MemoryDb" where
  "sample_db = run_calls (MemoryDb_Client concat_codec list_merkle)
     [CallAddLeaf (sample_leaf CHR ''a'') 0, CallAddLeaf (sample_leaf CHR ''b'') 1] (NewMemoryDb list_merkle)"

lemma sample_db_eq:
  "sample_db = \<lparr>leafs = [replicate 128 CHR ''a'', replicate 128 CHR ''b''],
     tree = [replicate 32 CHR ''a'', replicate 32 CHR ''b'']\<rparr>"
  by (simp add: sample_db_def MemoryDb_Client_def MemoryDb_AddLeaf_def NewMemoryDb_def leaf_blob_def Let_def)

lemma sample_db_leaves: "memory_leaves concat_codec sample_db = [sample_leaf CHR ''a'', sample_leaf CHR ''b'']"
  by (simp add: memory_leaves_def sample_db_eq)

lemma sample_db_inv: "memory_inv concat_codec list_merkle list_merkle_spec (\<lambda>t. t) sample_db"
  by (simp add: memory_inv_def sample_db_eq capacity_def)

theorem MemoryDb_refines_log_witness:
  "map_prod (memory_leaves concat_codec) id
      (MemoryDb_AddLeaf concat_codec list_merkle (sample_leaf CHR ''b'') 1 sample_db)
    = ([sample_leaf CHR ''a'', sample_leaf CHR ''b''], Ok \<lparr>AlreadyExists = True, IsSequenced = False\<rparr>)
   \<and> MemoryDb_GetLeaves concat_codec list_merkle \<lparr>StartIndex = 1, EndIndex = 2\<rparr> sample_db
    = (sample_db, Ok [sample_leaf CHR ''b''])
   \<and> (\<exists>path. MemoryDb_GetConsistencyProof list_merkle \<lparr>OldSize = 1, NewSize = 2\<rparr> sample_db = (sample_db, Ok \<lparr>cp_Path = path\<rparr>))
   \<and> (\<exists>e. MemoryDb_GetConsistencyProof list_merkle \<lparr>OldSize = 1, NewSize = 3\<rparr> sample_db = (sample_db, Err e))"
  using MemoryDb_refines_log [OF sample_db_inv, of "sample_leaf CHR ''b''" "[]" 1 0 "\<lparr>StartIndex = 1, EndIndex = 2\<rparr>"
      "\<lparr>ir_Size = 0, ir_LeafHash = []\<rparr>" "\<lparr>OldSize = 1, NewSize = 2\<rparr>"]
    MemoryDb_refines_log [OF sample_db_inv, of "sample_leaf CHR ''b''" "[]" 1 0 "\<lparr>StartIndex = 1, EndIndex = 2\<rparr>"
      "\<lparr>ir_Size = 0, ir_LeafHash = []\<rparr>" "\<lparr>OldSize = 1, NewSize = 3\<rparr>"]
  by (simp add: sample_db_leaves log_AddLeaf_def leaf_position_def leaf_slice_def capacity_def word_le_nat_alt)

text \<open>
  C12: The in-memory log is append-only under every sequence of calls.  Split a run from the empty
  database at any point: the state is well-formed, the leaves at the earlier point are a prefix of
  the later ones, and the tree head that was returned at the earlier point (which covers
  exactly its leaves) still is the head of a prefix of the later log.
\<close>

theorem MemoryDb_append_only:
  fixes cs1 cs2 :: "db_call list"
  assumes "codec_ok cd" and "merkle_ok mk ms hs"
    and "calls_fit (MemoryDb_Client cd mk) (memory_leaves cd) (cs1 @ cs2) (NewMemoryDb mk)"
  defines "s1 \<equiv> run_calls (MemoryDb_Client cd mk) cs1 (NewMemoryDb mk)"
  defines "s2 \<equiv> run_calls (MemoryDb_Client cd mk) cs2 s1"
  shows "memory_inv cd mk ms hs s2 \<and> prefix (memory_leaves cd s1) (memory_leaves cd s2)
    \<and> (\<exists>th. MemoryDb_GetTreeHead mk s1 = (s1, Ok th) \<and> unat (Size th) = length (memory_leaves cd s1)
          \<and> is_head_of ms cd (memory_leaves cd s2) th)"
proof -
  have fit: "calls_fit (MemoryDb_Client cd mk) (memory_leaves cd) cs1 (NewMemoryDb mk)"
    "calls_fit (MemoryDb_Client cd mk) (memory_leaves cd) cs2 s1"
    using assms(3) by (simp_all add: s1_def)
  have inv1: "memory_inv cd mk ms hs s1"
    using mem.run_calls_grows [OF memory_inv_New [OF assms(1,2)] fit(1)] by (simp add: s1_def)
  have step: "memory_inv cd mk ms hs s2" "prefix (memory_leaves cd s1) (memory_leaves cd s2)"
    using mem.run_calls_grows [OF inv1 fit(2)] by (simp_all add: s2_def)
  have len: "length (memory_leaves cd s1) < capacity" using memory_inv_leaves [OF inv1] by simp
  obtain th where th: "db_GetTreeHead (MemoryDb_Client cd mk) s1 = (s1, Ok th)"
      "unat (Size th) = length (memory_leaves cd s1)"
    using MemoryDb_GetTreeHead_log [OF inv1] len by (simp add: MemoryDb_Client_def)
  have "is_head_of ms cd (memory_leaves cd s2) th"
    using mem.head_stays [OF inv1 th(1) len fit(2)] by (simp add: s2_def)
  with step th show ?thesis by (auto simp: MemoryDb_Client_def)
qed

theorem MemoryDb_append_only_witness:
  "prefix (memory_leaves concat_codec sample_db) (memory_leaves concat_codec
     (run_calls (MemoryDb_Client concat_codec list_merkle)
        [CallAddLeaf (sample_leaf CHR ''c'') 2, CallGetTreeHead] sample_db))"
proof -
  let ?db = "MemoryDb_Client concat_codec list_merkle"
  let ?cs = "[CallAddLeaf (sample_leaf CHR ''a'') 0, CallAddLeaf (sample_leaf CHR ''b'') 1]"
  have "calls_fit ?db (memory_leaves concat_codec)
      (?cs @ [CallAddLeaf (sample_leaf CHR ''c'') 2, CallGetTreeHead]) (NewMemoryDb list_merkle)"
    by (simp add: MemoryDb_Client_def MemoryDb_AddLeaf_def MemoryDb_GetTreeHead_def NewMemoryDb_def
        leaf_blob_def Let_def capacity_def)
  then show ?thesis
    using MemoryDb_append_only [of concat_codec list_merkle list_merkle_spec "\<lambda>t. t" ?cs
        "[CallAddLeaf (sample_leaf CHR ''c'') 2, CallGetTreeHead]"]
    by (simp only: codec_ok_concat merkle_ok_list sample_db_def simp_thms)
qed

end
