(* ===== verification/Replication.thy ===== *)
theory Replication
  imports Sth_File Memory_Db
begin

text \<open>
  Which tree head may be signed next (\<open>internal/state/replication_state.go\<close>): the
  latest one that the secondary has replicated.  Primary and secondary are reached through
  operations on a common state \<open>'w\<close>; the timeouts of the context show up as errors of
  these operations.  The verification of a consistency proof is the parameter \<open>pv\<close>.
\<close>

type_synonym proof_verifier = "ConsistencyProof \<Rightarrow> TreeHead \<Rightarrow> TreeHead \<Rightarrow> go_error option"

record 'w PrimaryTree =
  pt_GetTreeHead :: "'w \<Rightarrow> 'w \<times> TreeHead result"
  pt_GetConsistencyProof :: "ConsistencyRequest \<Rightarrow> 'w \<Rightarrow> 'w \<times> ConsistencyProof result"

record 'w ReplicationState =
  rs_primary :: "'w PrimaryTree"
  rs_secondaryPub :: pubkey
  rs_secondary :: "('w \<Rightarrow> 'w \<times> SignedTreeHead result) option" \<comment> \<open>nil without a secondary\<close>

definition getPrimaryTreeHead :: "'w ReplicationState \<Rightarrow> u64 \<Rightarrow> 'w \<Rightarrow> 'w \<times> TreeHead result" where
  "getPrimaryTreeHead r minSize w =
     (case pt_GetTreeHead (rs_primary r) w of
        (w', Err e) \<Rightarrow> (w', Err (Wrapf ''get primary tree head'' e))
      | (w', Panic m) \<Rightarrow> (w', Panic m)
      | (w', Ok th) \<Rightarrow>
          (w', if Size th < minSize then Err (Errorf ''primary is behind(!)'') else Ok th))"

definition getSecondaryTreeHead ::
    "sth_pkg \<Rightarrow> 'w ReplicationState \<Rightarrow> ('w \<Rightarrow> 'w \<times> SignedTreeHead result) \<Rightarrow> u64 \<Rightarrow> u64 \<Rightarrow> 'w
     \<Rightarrow> 'w \<times> TreeHead result" where
  "getSecondaryTreeHead sp r secondary minSize maxSize w =
     (case secondary w of
        (w', Err e) \<Rightarrow> (w', Err (Wrapf ''failed fetching tree head from secondary'' e))
      | (w', Panic m) \<Rightarrow> (w', Panic m)
      | (w', Ok sth) \<Rightarrow>
          (w', if \<not> sth_Verify sp (rs_secondaryPub r) sth
               then Err (Errorf ''invalid signature on secondary's tree head'')
               else if maxSize < sth_Size sth then Err (Errorf ''secondary is ahead'')
               else if sth_Size sth < minSize then Err (Errorf ''secondary is behind'')
               else Ok (sth_TreeHead sth)))"

definition checkConsistency ::
    "proof_verifier \<Rightarrow> 'w ReplicationState \<Rightarrow> TreeHead \<Rightarrow> TreeHead \<Rightarrow> 'w \<Rightarrow> 'w \<times> unit result" where
  "checkConsistency pv r old new w =
     (if Size new < Size old then (w, Panic ''internal error old.Size > new.Size'')
      else case pt_GetConsistencyProof (rs_primary r) \<lparr>OldSize = Size old, NewSize = Size new\<rparr> w of
             (w', Err e) \<Rightarrow> (w', Err (Wrapf ''unable to get consistency proof'' e))
           | (w', Panic m) \<Rightarrow> (w', Panic m)
           | (w', Ok proof) \<Rightarrow> (w', case pv proof old new of None \<Rightarrow> Ok () | Some e \<Rightarrow> Err e))"

definition ReplicatedTreeHead ::
    "sth_pkg \<Rightarrow> proof_verifier \<Rightarrow> 'w ReplicationState \<Rightarrow> u64 \<Rightarrow> 'w \<Rightarrow> 'w \<times> TreeHead result" where
  "ReplicatedTreeHead sp pv r minSize w =
     (case getPrimaryTreeHead r minSize w of
        (w1, Err e) \<Rightarrow> (w1, Err e)
      | (w1, Panic m) \<Rightarrow> (w1, Panic m)
      | (w1, Ok primaryTreeHead) \<Rightarrow>
     (if Size primaryTreeHead = minSize then (w1, Ok primaryTreeHead)
      else case rs_secondary r of
        None \<Rightarrow> (w1, Ok primaryTreeHead)
      | Some secondary \<Rightarrow>
     (case getSecondaryTreeHead sp r secondary minSize (Size primaryTreeHead) w1 of
        (w2, Err e) \<Rightarrow> (w2, Err (Wrapf ''failed fetching tree head from secondary'' e))
      | (w2, Panic m) \<Rightarrow> (w2, Panic m)
      | (w2, Ok secTreeHead) \<Rightarrow>
     (case checkConsistency pv r secTreeHead primaryTreeHead w2 of
        (w3, Err e) \<Rightarrow> (w3, Err e)
      | (w3, Panic m) \<Rightarrow> (w3, Panic m)
      | (w3, Ok _) \<Rightarrow> (w3, Ok secTreeHead)))))"

text \<open>Tree heads for concrete inputs, and a secondary that has replicated three of five leaves.\<close>

definition sample_head :: "nat \<Rightarrow> TreeHead" where
  "sample_head n = \<lparr>Size = of_nat n, RootHash = replicate 32 CHR ''r''\<rparr>"

definition sample_sth :: "nat \<Rightarrow> SignedTreeHead" where
  "sample_sth n = \<lparr>sth_TreeHead = sample_head n, sth_Signature = copy_array 64 ''key''\<rparr>"

definition sample_lagging :: "unit ReplicationState" where
  "sample_lagging = \<lparr>
     rs_primary = \<lparr>pt_GetTreeHead = \<lambda>w. (w, Ok (sample_head 5)),
                   pt_GetConsistencyProof = \<lambda>req w. (w, Ok \<lparr>cp_Path = []\<rparr>)\<rparr>,
     rs_secondaryPub = ''key'', rs_secondary = Some (\<lambda>w. (w, Ok (sample_sth 3)))\<rparr>"

lemma sample_lagging_head:
  "ReplicatedTreeHead sample_sth_pkg (\<lambda>_ _ _. None) sample_lagging 2 () = ((), Ok (sample_head 3))"
  by (simp add: ReplicatedTreeHead_def getPrimaryTreeHead_def getSecondaryTreeHead_def checkConsistency_def
      sample_lagging_def sample_sth_pkg_def sample_sth_def sample_head_def word_less_nat_alt)

section \<open>What a replicated tree head is\<close>

lemma getPrimaryTreeHead_Ok:
  "getPrimaryTreeHead r n w = (w', Ok th) \<longleftrightarrow>
   pt_GetTreeHead (rs_primary r) w = (w', Ok th) \<and> n \<le> Size th"
  by (auto simp: getPrimaryTreeHead_def not_less split: prod.splits result.splits if_splits)

lemma getSecondaryTreeHead_Ok:
  "getSecondaryTreeHead sp r sec n m w = (w', Ok th) \<longleftrightarrow>
   (\<exists>sth. sec w = (w', Ok sth) \<and> sth_Verify sp (rs_secondaryPub r) sth \<and> th = sth_TreeHead sth
      \<and> n \<le> Size th \<and> Size th \<le> m)"
  by (auto simp: getSecondaryTreeHead_def not_less split: prod.splits result.splits if_splits)

lemma checkConsistency_Ok:
  "checkConsistency pv r old new w = (w', Ok u) \<longleftrightarrow> Size old \<le> Size new \<and>
   (\<exists>p. pt_GetConsistencyProof (rs_primary r) \<lparr>OldSize = Size old, NewSize = Size new\<rparr> w = (w', Ok p)
      \<and> pv p old new = None)"
  by (auto simp: checkConsistency_def not_less split: prod.splits result.splits if_splits option.splits)

lemma ReplicatedTreeHead_OkE:
  assumes "ReplicatedTreeHead sp pv r minSize w = (w', Ok th)"
  obtains (primary) "pt_GetTreeHead (rs_primary r) w = (w', Ok th)" "minSize \<le> Size th"
      "rs_secondary r = None \<or> Size th = minSize"
  | (secondary) sec w1 w2 p sth pf where
      "pt_GetTreeHead (rs_primary r) w = (w1, Ok p)" "minSize < Size p"
      "rs_secondary r = Some sec" "sec w1 = (w2, Ok sth)" "sth_Verify sp (rs_secondaryPub r) sth"
      "th = sth_TreeHead sth" "minSize \<le> Size th" "Size th \<le> Size p"
      "pt_GetConsistencyProof (rs_primary r) \<lparr>OldSize = Size th, NewSize = Size p\<rparr> w2 = (w', Ok pf)"
      "pv pf th p = None"
proof -
  obtain w1 p where p: "getPrimaryTreeHead r minSize w = (w1, Ok p)"
    using assms by (auto simp: ReplicatedTreeHead_def split: prod.splits result.splits)
  show ?thesis
  proof (cases "Size p = minSize \<or> rs_secondary r = None")
    case True
    then have "w' = w1" "th = p"
      using assms p by (auto simp: ReplicatedTreeHead_def split: if_splits option.splits)
    then show ?thesis using primary p True by (auto simp: getPrimaryTreeHead_Ok)
  next
    case False
    then obtain sec where sec: "rs_secondary r = Some sec" by auto
    then obtain w2 where w2: "getSecondaryTreeHead sp r sec minSize (Size p) w1 = (w2, Ok th)"
        "checkConsistency pv r th p w2 = (w', Ok ())"
      using assms p False by (auto simp: ReplicatedTreeHead_def split: prod.splits result.splits)
    obtain sth where "sec w1 = (w2, Ok sth)" "sth_Verify sp (rs_secondaryPub r) sth" "th = sth_TreeHead sth"
        "minSize \<le> Size th" "Size th \<le> Size p"
      using w2(1) by (auto simp: getSecondaryTreeHead_Ok)
    moreover obtain pf where
        "pt_GetConsistencyProof (rs_primary r) \<lparr>OldSize = Size th, NewSize = Size p\<rparr> w2 = (w', Ok pf)" "pv pf th p = None"
      using w2(2) by (auto simp: checkConsistency_Ok)
    moreover have "pt_GetTreeHead (rs_primary r) w = (w1, Ok p)" "minSize < Size p"
      using p False by (auto simp: getPrimaryTreeHead_Ok)
    ultimately show ?thesis using secondary sec by blast
  qed
qed

text \<open>
  C17: A replicated tree head is never smaller than asked for nor larger than the primary's tree,
  and it is backed: either the secondary signed it with the configured key and the primary proved
  it consistent with its own head, or it is the primary's own head and there is no secondary or
  nothing new to replicate.
\<close>

theorem ReplicatedTreeHead_backed:
  assumes "ReplicatedTreeHead sp pv r minSize w = (w', Ok th)"
  shows "minSize \<le> Size th \<and>
    (\<exists>w1 p. pt_GetTreeHead (rs_primary r) w = (w1, Ok p) \<and> Size th \<le> Size p \<and>
       (th = p \<and> (rs_secondary r = None \<or> Size p = minSize)
        \<or> (\<exists>sec w2 sth pf. rs_secondary r = Some sec \<and> sec w1 = (w2, Ok sth)
             \<and> sth_Verify sp (rs_secondaryPub r) sth \<and> th = sth_TreeHead sth
             \<and> pt_GetConsistencyProof (rs_primary r) \<lparr>OldSize = Size th, NewSize = Size p\<rparr> w2 = (w', Ok pf)
             \<and> pv pf th p = None)))"
  using assms by (cases rule: ReplicatedTreeHead_OkE) fastforce+

theorem ReplicatedTreeHead_backed_witness:
  "\<exists>sec w2 sth. rs_secondary sample_lagging = Some sec \<and> sec () = (w2, Ok sth)
     \<and> sth_Verify sample_sth_pkg (rs_secondaryPub sample_lagging) sth \<and> sample_head 3 = sth_TreeHead sth"
  using ReplicatedTreeHead_backed [OF sample_lagging_head]
  by (auto simp: sample_lagging_def sample_head_def)

lemma ReplicatedTreeHead_not_panic:
  assumes "\<And>w. \<not> is_panic (snd (pt_GetTreeHead (rs_primary r) w))"
    and "\<And>req w. \<not> is_panic (snd (pt_GetConsistencyProof (rs_primary r) req w))"
    and "\<And>sec w. rs_secondary r = Some sec \<Longrightarrow> \<not> is_panic (snd (sec w))"
  shows "\<not> is_panic (snd (ReplicatedTreeHead sp pv r minSize w))"
proof -
  have 1: "\<not> is_panic (snd (getPrimaryTreeHead r minSize w))"
    using assms(1) [of w] by (auto simp: getPrimaryTreeHead_def split: prod.splits result.splits)
  have 2: "\<not> is_panic (snd (getSecondaryTreeHead sp r sec n m w))" if "rs_secondary r = Some sec" for sec n m w
    using assms(3) [OF that, of w] by (auto simp: getSecondaryTreeHead_def split: prod.splits result.splits)
  have 3: "\<not> is_panic (snd (checkConsistency pv r old new w))" if "Size old \<le> Size new" for old new w
    using assms(2) [of "\<lparr>OldSize = Size old, NewSize = Size new\<rparr>" w] that
    by (auto simp: checkConsistency_def not_less split: prod.splits result.splits option.splits)
  show ?thesis
  proof (cases "getPrimaryTreeHead r minSize w")
    case (Pair w1 r1)
    show ?thesis
    proof (cases r1)
      case (Ok p)
      show ?thesis
      proof (cases "Size p = minSize \<or> rs_secondary r = None")
        case False
        then obtain sec where sec: "rs_secondary r = Some sec" by auto
        obtain w2 r2 where s: "getSecondaryTreeHead sp r sec minSize (Size p) w1 = (w2, r2)" by fastforce
        have "\<not> is_panic (snd (checkConsistency pv r th p w2))" if "r2 = Ok th" for th
          using 3 s that by (auto simp: getSecondaryTreeHead_Ok)
        then show ?thesis
          using Pair Ok False sec s 2 [OF sec, of minSize "Size p" w1]
          by (cases r2) (auto simp: ReplicatedTreeHead_def split: prod.splits result.splits)
      qed (use Pair Ok in \<open>auto simp: ReplicatedTreeHead_def\<close>)
    qed (use Pair 1 in \<open>auto simp: ReplicatedTreeHead_def\<close>)
  qed
qed

text \<open>
  The internal-error panic of \<open>checkConsistency\<close> is unreachable: if the calls to
  primary and secondary do not panic themselves, \<open>ReplicatedTreeHead\<close> returns a tree
  head or an error, whatever sizes and signatures they answer with.
\<close>

theorem ReplicatedTreeHead_no_panic:
  assumes "\<And>w. \<not> is_panic (snd (pt_GetTreeHead (rs_primary r) w))"
    and "\<And>req w. \<not> is_panic (snd (pt_GetConsistencyProof (rs_primary r) req w))"
    and "\<And>sec w. rs_secondary r = Some sec \<Longrightarrow> \<not> is_panic (snd (sec w))"
  shows "\<not> is_panic (snd (ReplicatedTreeHead sp pv r minSize w))"
  using assms by (rule ReplicatedTreeHead_not_panic)

theorem ReplicatedTreeHead_no_panic_witness:
  "\<not> is_panic (snd (ReplicatedTreeHead sample_sth_pkg (\<lambda>_ _ _. Some (ExtError ''bad proof'')) sample_lagging 2 ()))"
  by (rule ReplicatedTreeHead_no_panic) (auto simp: sample_lagging_def)

end
