(* ===== verification/State_Manager.thy ===== *)
theory State_Manager
  imports Replication
begin

text \<open>
  The state manager of the primary (\<open>internal/state/single.go\<close>,
  \<open>state_manager.go\<close>): the signed tree head it is committed to, the cosigned tree head
  it publishes, and the periodic rotation of both.  \<open>sign\<close> stands for
  \<open>th.Sign(sm.signer)\<close>, code outside of this repository that may fail.  The state of
  the process is the record \<open>StateManagerSingle\<close>; the disk (\<open>fsys\<close>) and the rest
  of the world (\<open>'w\<close>: primary tree, secondary, witnesses) are passed along.
\<close>

section \<open>State and operations\<close>

type_synonym sign_fun = "TreeHead \<Rightarrow> SignedTreeHead result"

record 'w StateManagerSingle =
  sm_public :: pubkey \<comment> \<open>public key of the signer\<close>
  sm_keyHash :: hash
  sm_sthFile :: sthFile \<comment> \<open>of the closure \<open>storeSth\<close>\<close>
  sm_replicationState :: "'w ReplicationState"
  sm_signedTreeHead :: SignedTreeHead
  sm_cosignedTreeHead :: CosignedTreeHead

definition new_manager ::
    "(bytes \<Rightarrow> hash) \<Rightarrow> pubkey \<Rightarrow> sthFile \<Rightarrow> 'w ReplicationState \<Rightarrow> SignedTreeHead \<Rightarrow> 'w StateManagerSingle" where
  \<comment> \<open>the struct literal; no cosignatures are available at startup\<close>
  "new_manager HashBytes pub f rs sth = \<lparr>
     sm_public = pub, sm_keyHash = HashBytes pub, sm_sthFile = f, sm_replicationState = rs,
     sm_signedTreeHead = sth,
     sm_cosignedTreeHead = \<lparr>cth_SignedTreeHead = sth, cth_Cosignatures = []\<rparr>\<rparr>"

definition NewStateManagerSingle ::
    "(bytes \<Rightarrow> hash) \<Rightarrow> sth_pkg \<Rightarrow> safefile \<Rightarrow> os_faults \<Rightarrow> sign_fun \<Rightarrow> pubkey \<Rightarrow> 'w ReplicationState \<Rightarrow> string
     \<Rightarrow> fsys \<Rightarrow> 'w \<Rightarrow> fsys \<times> 'w \<times> 'w StateManagerSingle result" where
  "NewStateManagerSingle HashBytes sp sf flt sign pub rs sthFileName fs w =
     (let f = \<lparr>sth_name = sthFileName\<rparr>; done = (\<lambda>sth. Ok (new_manager HashBytes pub f rs sth)) in
      case sthFile_Startup flt f fs of
        Err e \<Rightarrow> (fs, w, Err e)
      | Panic m \<Rightarrow> (fs, w, Panic m)
      | Ok StartupSaved \<Rightarrow> (fs, w, bind_result (sthFile_Load sp flt f pub fs) done)
      | Ok StartupEmpty \<Rightarrow>
          (case sign \<lparr>Size = 0, RootHash = HashBytes []\<rparr> of
             Err e \<Rightarrow> (fs, w, Err e)
           | Panic m \<Rightarrow> (fs, w, Panic m)
           | Ok sth \<Rightarrow>
               (case sthFile_Create sp sf flt f sth fs of
                  (fs', r) \<Rightarrow> (fs', w, bind_result r (\<lambda>_. done sth))))
      | Ok StartupLocalTree \<Rightarrow>
          (case pt_GetTreeHead (rs_primary rs) w of
             (w', Err e) \<Rightarrow> (fs, w', Err e)
           | (w', Panic m) \<Rightarrow> (fs, w', Panic m)
           | (w', Ok th) \<Rightarrow>
               (case sign th of
                  Err e \<Rightarrow> (fs, w', Err e)
                | Panic m \<Rightarrow> (fs, w', Panic m)
                | Ok sth \<Rightarrow>
                    (case sthFile_Create sp sf flt f sth fs of
                       (fs', r) \<Rightarrow> (fs', w', bind_result r (\<lambda>_. done sth))))))"

definition SignedTreeHead_of :: "'w StateManagerSingle \<Rightarrow> SignedTreeHead" where
  "SignedTreeHead_of sm = sm_signedTreeHead sm"

definition CosignedTreeHead_of :: "'w StateManagerSingle \<Rightarrow> CosignedTreeHead" where
  "CosignedTreeHead_of sm = sm_cosignedTreeHead sm"

definition signTreeHead ::
    "sth_pkg \<Rightarrow> safefile \<Rightarrow> sign_fun \<Rightarrow> TreeHead \<Rightarrow> 'w StateManagerSingle \<Rightarrow> fsys
     \<Rightarrow> 'w StateManagerSingle \<times> fsys \<times> SignedTreeHead result" where
  "signTreeHead sp sf sign nextTH sm fs =
     (case sign nextTH of
        Err e \<Rightarrow> (sm, fs, Err (Errorf ''sign tree head''))
      | Panic m \<Rightarrow> (sm, fs, Panic m)
      | Ok nextSTH \<Rightarrow>
          (case sthFile_Store sp sf (sm_sthFile sm) nextSTH fs of
             (fs', Err e) \<Rightarrow> (sm, fs', Err e)
           | (fs', Panic m) \<Rightarrow> (sm, fs', Panic m)
           | (fs', Ok _) \<Rightarrow>
               if sth_Size nextSTH < sth_Size (sm_signedTreeHead sm)
               then (sm, fs', Err (Errorf ''internal error, attempting to truncate signed tree head''))
               else (sm\<lparr>sm_signedTreeHead := nextSTH\<rparr>, fs', Ok nextSTH)))"

definition sm_rotate ::
    "sth_pkg \<Rightarrow> safefile \<Rightarrow> sign_fun \<Rightarrow> (SignedTreeHead \<Rightarrow> 'w \<Rightarrow> 'w \<times> Cosignature list)
     \<Rightarrow> TreeHead \<Rightarrow> 'w StateManagerSingle \<Rightarrow> fsys \<Rightarrow> 'w \<Rightarrow> 'w StateManagerSingle \<times> fsys \<times> 'w \<times> unit result" where
  "sm_rotate sp sf sign getCosignatures nextTH sm fs w =
     (case signTreeHead sp sf sign nextTH sm fs of
        (sm1, fs1, Err e) \<Rightarrow> (sm1, fs1, w, Err e)
      | (sm1, fs1, Panic m) \<Rightarrow> (sm1, fs1, w, Panic m)
      | (sm1, fs1, Ok nextSTH) \<Rightarrow>
          (case getCosignatures nextSTH w of
             (w1, cosignatures) \<Rightarrow>
               (sm1\<lparr>sm_cosignedTreeHead := \<lparr>cth_SignedTreeHead = nextSTH, cth_Cosignatures = cosignatures\<rparr>\<rparr>,
                fs1, w1, Ok ())))"

text \<open>
  One round of the loop in \<open>Run\<close>.  What can differ from round to round, and is not
  decided by the program, is in \<open>round_env\<close>: whether signing works, how the file system
  behaves, what the witnesses answer.
\<close>

record 'w round_env =
  re_sign :: sign_fun
  re_safefile :: safefile
  re_getCosignatures :: "SignedTreeHead \<Rightarrow> 'w \<Rightarrow> 'w \<times> Cosignature list"

definition next_tree_head ::
    "sth_pkg \<Rightarrow> proof_verifier \<Rightarrow> 'w StateManagerSingle \<Rightarrow> 'w \<Rightarrow> 'w \<times> TreeHead result" where
  "next_tree_head sp pv sm w =
     (let currentTH = sth_TreeHead (SignedTreeHead_of sm) in
      case ReplicatedTreeHead sp pv (sm_replicationState sm) (Size currentTH) w of
        (w', Ok th) \<Rightarrow> (w', Ok th)
      | (w', Err e) \<Rightarrow> (w', Ok currentTH)
      | (w', Panic m) \<Rightarrow> (w', Panic m))"

definition run_round ::
    "sth_pkg \<Rightarrow> proof_verifier \<Rightarrow> 'w round_env \<Rightarrow> 'w StateManagerSingle \<times> fsys \<times> 'w
     \<Rightarrow> ('w StateManagerSingle \<times> fsys \<times> 'w) result" where
  \<comment> \<open>errors of \<open>rotate\<close> are logged and the loop goes on; a panic ends the process\<close>
  "run_round sp pv env st =
     (case st of (sm, fs, w) \<Rightarrow>
      case next_tree_head sp pv sm w of
        (w1, Ok nextTH) \<Rightarrow>
          (case sm_rotate sp (re_safefile env) (re_sign env) (re_getCosignatures env) nextTH sm fs w1 of
             (sm', fs', w', Panic m) \<Rightarrow> Panic m
           | (sm', fs', w', _) \<Rightarrow> Ok (sm', fs', w'))
      | (w1, Panic m) \<Rightarrow> Panic m
      | (w1, Err e) \<Rightarrow> Err e)"

fun Run ::
    "sth_pkg \<Rightarrow> proof_verifier \<Rightarrow> 'w round_env list \<Rightarrow> 'w StateManagerSingle \<times> fsys \<times> 'w
     \<Rightarrow> ('w StateManagerSingle \<times> fsys \<times> 'w) result" where
  \<comment> \<open>one round per environment, until the context is cancelled\<close>
  "Run sp pv [] st = Ok st"
| "Run sp pv (env # envs) st = bind_result (run_round sp pv env st) (Run sp pv envs)"

section \<open>Invariant\<close>

definition sign_ok :: "sth_pkg \<Rightarrow> pubkey \<Rightarrow> sign_fun \<Rightarrow> bool" where
  \<comment> \<open>signing either fails or gives the tree head with a signature that verifies\<close>
  "sign_ok sp pub sign \<longleftrightarrow>
     (\<forall>th sth. sign th = Ok sth \<longrightarrow> sth_TreeHead sth = th \<and> sth_Verify sp pub sth
        \<and> length (sth_Signature sth) = SignatureSize)
   \<and> (\<forall>th. \<not> is_panic (sign th))"

definition replication_ok :: "'w ReplicationState \<Rightarrow> bool" where
  \<comment> \<open>tree heads have the lengths of their types and sizes below \<open>2^63\<close>; no call panics\<close>
  "replication_ok rs \<longleftrightarrow>
     (\<forall>w w' th. pt_GetTreeHead (rs_primary rs) w = (w', Ok th) \<longrightarrow> th_wf th)
   \<and> (\<forall>sec w w' sth. rs_secondary rs = Some sec \<longrightarrow> sec w = (w', Ok sth) \<longrightarrow>
        length (RootHash (sth_TreeHead sth)) = HashSize)
   \<and> (\<forall>w. \<not> is_panic (snd (pt_GetTreeHead (rs_primary rs) w)))
   \<and> (\<forall>req w. \<not> is_panic (snd (pt_GetConsistencyProof (rs_primary rs) req w)))
   \<and> (\<forall>sec w. rs_secondary rs = Some sec \<longrightarrow> \<not> is_panic (snd (sec w)))"

definition env_ok :: "sth_pkg \<Rightarrow> pubkey \<Rightarrow> 'w round_env \<Rightarrow> bool" where
  "env_ok sp pub env \<longleftrightarrow> sign_ok sp pub (re_sign env) \<and> safefile_ok (re_safefile env)"

definition stored_sth :: "sth_pkg \<Rightarrow> sthFile \<Rightarrow> fsys \<Rightarrow> SignedTreeHead \<Rightarrow> bool" where
  "stored_sth sp f fs sth \<longleftrightarrow>
     (\<exists>data. fs (sth_name f) = Some data \<and> sth_FromASCII sp data = Ok sth) \<and> fs (startupFileName f) = None"

definition sm_inv :: "sth_pkg \<Rightarrow> 'w StateManagerSingle \<Rightarrow> fsys \<Rightarrow> bool" where
  \<comment> \<open>between two rounds: the signed tree head is the one on disk, it carries the log's
     signature, and nothing larger has been published\<close>
  "sm_inv sp sm fs \<longleftrightarrow> stored_sth sp (sm_sthFile sm) fs (sm_signedTreeHead sm)
     \<and> sth_wf (sm_signedTreeHead sm)
     \<and> (sth_Verify sp (sm_public sm) (sm_signedTreeHead sm) \<or> sth_VerifyVersion0 sp (sm_public sm) (sm_signedTreeHead sm))
     \<and> cth_Size (sm_cosignedTreeHead sm) \<le> sth_Size (sm_signedTreeHead sm)"

lemma replication_okD:
  assumes "replication_ok rs"
  shows "pt_GetTreeHead (rs_primary rs) w = (w', Ok th) \<Longrightarrow> th_wf th"
    and "\<not> is_panic (snd (ReplicatedTreeHead sp pv rs n w))"
    and "ReplicatedTreeHead sp pv rs n w = (w', Ok th') \<Longrightarrow> th_wf th' \<and> n \<le> Size th'"
proof -
  have wf: "th_wf th" if "pt_GetTreeHead (rs_primary rs) w = (w', Ok th)" for w w' th
    using assms that unfolding replication_ok_def by meson
  then show "pt_GetTreeHead (rs_primary rs) w = (w', Ok th) \<Longrightarrow> th_wf th" .
  show "\<not> is_panic (snd (ReplicatedTreeHead sp pv rs n w))"
    using assms unfolding replication_ok_def by (intro ReplicatedTreeHead_not_panic) meson+
  show "th_wf th' \<and> n \<le> Size th'" if "ReplicatedTreeHead sp pv rs n w = (w', Ok th')"
    using that
  proof (cases rule: ReplicatedTreeHead_OkE)
    case (secondary sec w1 w2 p sth pf)
    have "length (RootHash th') = HashSize"
      using assms secondary unfolding replication_ok_def by metis
    then show ?thesis using wf [OF secondary(1)] secondary(7,8) by (auto simp: word_le_nat_alt)
  qed (use wf in blast)
qed

lemma signTreeHead_cases:
  assumes "safefile_ok sf" and "sign_ok sp pub sign" and "sth_Size (sm_signedTreeHead sm) \<le> Size th"
    and "signTreeHead sp sf sign th sm fs = (sm1, fs1, r)"
  obtains (failed) e where "r = Err e" "sm1 = sm" "fs1 = fs"
  | (signed) sth where "r = Ok sth" "sm1 = sm\<lparr>sm_signedTreeHead := sth\<rparr>"
      "fs1 = fs(sth_name (sm_sthFile sm) \<mapsto> sth_ToASCII sp sth)" "sth_TreeHead sth = th"
      "sth_Verify sp pub sth" "length (sth_Signature sth) = SignatureSize"
proof (cases "sign th")
  case (Ok sth)
  then have sth: "sth_TreeHead sth = th" "sth_Verify sp pub sth" "length (sth_Signature sth) = SignatureSize"
    using assms(2) by (auto simp: sign_ok_def)
  obtain fs' r' where st: "sthFile_Store sp sf (sm_sthFile sm) sth fs = (fs', r')" by fastforce
  from sthFile_Store_cases [OF assms(1) st] show ?thesis
  proof
    assume *: "r' = Ok () \<and> fs' = fs(sth_name (sm_sthFile sm) \<mapsto> sth_ToASCII sp sth)"
    then have "r = Ok sth" "sm1 = sm\<lparr>sm_signedTreeHead := sth\<rparr>" "fs1 = fs'"
      using assms(3,4) Ok st sth(1) by (auto simp: signTreeHead_def not_less split: if_splits)
    then show ?thesis using signed * sth by blast
  next
    assume "(\<exists>e. r' = Err e) \<and> fs' = fs"
    then show ?thesis using failed assms(4) Ok st by (auto simp: signTreeHead_def)
  qed
next
  case (Panic m)
  moreover have "\<not> is_panic (sign th)" using assms(2) by (simp add: sign_ok_def)
  ultimately show ?thesis by simp
qed (use assms(4) failed in \<open>auto simp: signTreeHead_def\<close>)

section \<open>Rounds\<close>

text \<open>
  The states of memory and disk that a reader, or a crash, can see during one round: before it,
  after the new head is stored but not yet in memory, after it is in memory but not yet cosigned,
  and after the round.
\<close>

definition round_states ::
    "sth_pkg \<Rightarrow> proof_verifier \<Rightarrow> 'w round_env \<Rightarrow> 'w StateManagerSingle \<times> fsys \<times> 'w
     \<Rightarrow> ('w StateManagerSingle \<times> fsys) list" where
  "round_states sp pv env st =
     (case st of (sm, fs, w) \<Rightarrow>
      case next_tree_head sp pv sm w of
        (w1, Ok nextTH) \<Rightarrow>
          (case signTreeHead sp (re_safefile env) (re_sign env) nextTH sm fs of
             (sm1, fs1, _) \<Rightarrow>
               (case sm_rotate sp (re_safefile env) (re_sign env) (re_getCosignatures env) nextTH sm fs w1 of
                  (sm2, fs2, _) \<Rightarrow> [(sm, fs), (sm, fs1), (sm1, fs1), (sm2, fs2)]))
      | _ \<Rightarrow> [(sm, fs)])"

lemma next_tree_head_ok:
  assumes "replication_ok (sm_replicationState sm)" and "sth_wf (sm_signedTreeHead sm)"
  obtains w1 th where "next_tree_head sp pv sm w = (w1, Ok th)" "th_wf th"
    "sth_Size (sm_signedTreeHead sm) \<le> Size th"
proof -
  obtain w1 r where r: "ReplicatedTreeHead sp pv (sm_replicationState sm) (sth_Size (sm_signedTreeHead sm)) w = (w1, r)"
    by fastforce
  show ?thesis
  proof (cases r)
    case (Ok th)
    then show ?thesis
      using replication_okD(3) [OF assms(1)] r that
      by (auto simp: next_tree_head_def SignedTreeHead_of_def Let_def)
  next
    case (Err e)
    then show ?thesis
      using that [of w1 "sth_TreeHead (sm_signedTreeHead sm)"] r assms(2)
      by (auto simp: next_tree_head_def SignedTreeHead_of_def Let_def sth_wf_def)
  next
    case (Panic m)
    then show ?thesis using replication_okD(2) [OF assms(1)] r by (metis is_panic.simps(1) snd_conv)
  qed
qed

lemma rotate_after_sign:
  assumes "signTreeHead sp sf sign th sm fs = (sm1, fs1, r)"
  shows "sm_rotate sp sf sign gc th sm fs w = (case r of
      Err e \<Rightarrow> (sm1, fs1, w, Err e)
    | Panic m \<Rightarrow> (sm1, fs1, w, Panic m)
    | Ok sth \<Rightarrow> (sm1\<lparr>sm_cosignedTreeHead := \<lparr>cth_SignedTreeHead = sth, cth_Cosignatures = snd (gc sth w)\<rparr>\<rparr>,
        fs1, fst (gc sth w), Ok ()))"
  using assms by (auto simp: sm_rotate_def split: result.splits prod.splits)

definition same_manager :: "'w StateManagerSingle \<Rightarrow> 'w StateManagerSingle \<Rightarrow> bool" where
  "same_manager sm sm' \<longleftrightarrow> sm_public sm' = sm_public sm \<and> sm_sthFile sm' = sm_sthFile sm
     \<and> sm_replicationState sm' = sm_replicationState sm"

lemma stored_sth_update:
  "sth_codec_ok sp \<Longrightarrow> sth_wf sth \<Longrightarrow> fs (startupFileName f) = None \<Longrightarrow>
   stored_sth sp f (fs(sth_name f \<mapsto> sth_ToASCII sp sth)) sth"
  by (simp add: stored_sth_def sth_codec_ok_def)

definition snapshot_ok ::
    "sth_pkg \<Rightarrow> 'w StateManagerSingle \<Rightarrow> 'w StateManagerSingle \<Rightarrow> fsys \<Rightarrow> bool" where
  \<comment> \<open>the disk holds an authentic tree head that covers what is in memory\<close>
  "snapshot_ok sp sm smx fsx \<longleftrightarrow>
     (\<exists>sth. stored_sth sp (sm_sthFile sm) fsx sth \<and> sth_wf sth
        \<and> (sth_Verify sp (sm_public sm) sth \<or> sth_VerifyVersion0 sp (sm_public sm) sth)
        \<and> sth_Size (sm_signedTreeHead smx) \<le> sth_Size sth)
     \<and> cth_Size (sm_cosignedTreeHead smx) \<le> sth_Size (sm_signedTreeHead smx)"

lemma run_round_inv:
  assumes codec: "sth_codec_ok sp" and env: "env_ok sp (sm_public sm) env"
    and rep: "replication_ok (sm_replicationState sm)" and inv: "sm_inv sp sm fs"
  obtains sm' fs' w' where "run_round sp pv env (sm, fs, w) = Ok (sm', fs', w')"
    "sm_inv sp sm' fs'" "same_manager sm sm'"
    "sth_Size (sm_signedTreeHead sm) \<le> sth_Size (sm_signedTreeHead sm')"
    "cth_Size (sm_cosignedTreeHead sm) \<le> cth_Size (sm_cosignedTreeHead sm')"
    "\<And>smx fsx. (smx, fsx) \<in> set (round_states sp pv env (sm, fs, w)) \<Longrightarrow> snapshot_ok sp sm smx fsx"
proof -
  have wf: "sth_wf (sm_signedTreeHead sm)" using inv by (simp add: sm_inv_def)
  obtain w1 th where th: "next_tree_head sp pv sm w = (w1, Ok th)" "th_wf th"
      "sth_Size (sm_signedTreeHead sm) \<le> Size th"
    using next_tree_head_ok [OF rep wf] by metis
  have ok: "safefile_ok (re_safefile env)" "sign_ok sp (sm_public sm) (re_sign env)"
    using env by (simp_all add: env_ok_def)
  obtain sm1 fs1 r where sg: "signTreeHead sp (re_safefile env) (re_sign env) th sm fs = (sm1, fs1, r)"
    by (metis prod_cases3)
  note rot = rotate_after_sign [OF sg]
  from ok th(3) sg show ?thesis
  proof (cases rule: signTreeHead_cases)
    case (failed e)
    have "run_round sp pv env (sm, fs, w) = Ok (sm, fs, w1)"
      using th(1) rot failed by (simp add: run_round_def)
    moreover have "set (round_states sp pv env (sm, fs, w)) = {(sm, fs)}"
      using th(1) rot sg failed by (simp add: round_states_def)
    ultimately show ?thesis
      using inv by (intro that [of sm fs w1]) (auto simp: same_manager_def sm_inv_def snapshot_ok_def)
  next
    case (signed sth)
    let ?sm2 = "sm1\<lparr>sm_cosignedTreeHead := \<lparr>cth_SignedTreeHead = sth, cth_Cosignatures = snd (re_getCosignatures env sth w1)\<rparr>\<rparr>"
    have sth: "sth_wf sth" using signed th(2) by (simp add: sth_wf_def)
    have st: "stored_sth sp (sm_sthFile sm) fs1 sth"
      using stored_sth_update [OF codec sth] inv signed(3) by (simp add: sm_inv_def stored_sth_def)
    have run: "run_round sp pv env (sm, fs, w) = Ok (?sm2, fs1, fst (re_getCosignatures env sth w1))"
      using th(1) rot signed(1) by (simp add: run_round_def)
    have states: "set (round_states sp pv env (sm, fs, w)) = {(sm, fs), (sm, fs1), (sm1, fs1), (?sm2, fs1)}"
      using th(1) rot sg signed(1) by (auto simp: round_states_def)
    have le: "cth_Size (sm_cosignedTreeHead sm) \<le> sth_Size sth"
      using inv signed(4) th(3) by (auto simp: sm_inv_def intro: order_trans)
    have inv2: "sm_inv sp ?sm2 fs1"
      using st sth signed(2,5) by (simp add: sm_inv_def)
    show ?thesis
    proof (rule that [OF run inv2])
      show "same_manager sm ?sm2" using signed(2) by (simp add: same_manager_def)
      show "sth_Size (sm_signedTreeHead sm) \<le> sth_Size (sm_signedTreeHead ?sm2)"
        using signed(2,4) th(3) by simp
      show "cth_Size (sm_cosignedTreeHead sm) \<le> cth_Size (sm_cosignedTreeHead ?sm2)"
        using le by simp
      show "snapshot_ok sp sm smx fsx" if "(smx, fsx) \<in> set (round_states sp pv env (sm, fs, w))" for smx fsx
        using that unfolding states using inv st sth signed(2,4,5) th(3) le
        by (auto simp: sm_inv_def snapshot_ok_def)
    qed
  qed
qed

lemma Run_inv:
  assumes "sth_codec_ok sp" and "list_all (env_ok sp (sm_public sm)) envs"
    and "replication_ok (sm_replicationState sm)" and "sm_inv sp sm fs"
  obtains sm' fs' w' where "Run sp pv envs (sm, fs, w) = Ok (sm', fs', w')"
    "sm_inv sp sm' fs'" "same_manager sm sm'"
    "sth_Size (sm_signedTreeHead sm) \<le> sth_Size (sm_signedTreeHead sm')"
    "cth_Size (sm_cosignedTreeHead sm) \<le> cth_Size (sm_cosignedTreeHead sm')"
  using assms
proof (induction envs arbitrary: thesis sm fs w)
  case Nil
  then show ?case by (auto simp: same_manager_def)
next
  case (Cons env envs)
  have e: "env_ok sp (sm_public sm) env" using Cons.prems(3) by simp
  obtain sm1 fs1 w1 where 1: "run_round sp pv env (sm, fs, w) = Ok (sm1, fs1, w1)"
    "sm_inv sp sm1 fs1" "same_manager sm sm1"
    "sth_Size (sm_signedTreeHead sm) \<le> sth_Size (sm_signedTreeHead sm1)"
    "cth_Size (sm_cosignedTreeHead sm) \<le> cth_Size (sm_cosignedTreeHead sm1)"
    using run_round_inv [OF Cons.prems(2) e Cons.prems(4,5), of pv w] by metis
  have pre: "list_all (env_ok sp (sm_public sm1)) envs" "replication_ok (sm_replicationState sm1)"
    using Cons.prems(3,4) 1(3) by (simp_all add: same_manager_def)
  obtain sm2 fs2 w2 where 2: "Run sp pv envs (sm1, fs1, w1) = Ok (sm2, fs2, w2)"
    "sm_inv sp sm2 fs2" "same_manager sm1 sm2"
    "sth_Size (sm_signedTreeHead sm1) \<le> sth_Size (sm_signedTreeHead sm2)"
    "cth_Size (sm_cosignedTreeHead sm1) \<le> cth_Size (sm_cosignedTreeHead sm2)"
    using Cons.IH [OF _ Cons.prems(2) pre 1(2), of w1] by metis
  have "Run sp pv (env # envs) (sm, fs, w) = Ok (sm2, fs2, w2)" using 1(1) 2(1) by simp
  then show ?case
    using Cons.prems(1) 2 1(3,4,5) order_trans by (fastforce simp: same_manager_def)
qed

lemma NewStateManagerSingle_saved:
  assumes "flt_open flt (sthFileName @ StartupFileSuffix) = None" and "flt_open flt sthFileName = None"
    and "stored_sth sp \<lparr>sth_name = sthFileName\<rparr> fs sth" and "sth_wf sth"
    and "sth_Verify sp pub sth \<or> sth_VerifyVersion0 sp pub sth"
  shows "NewStateManagerSingle H sp sf flt sign pub rs sthFileName fs w
    = (fs, w, Ok (new_manager H pub \<lparr>sth_name = sthFileName\<rparr> rs sth))"
    and "sm_inv sp (new_manager H pub \<lparr>sth_name = sthFileName\<rparr> rs sth) fs"
proof -
  have "sthFile_Startup flt \<lparr>sth_name = sthFileName\<rparr> fs = Ok StartupSaved"
    using assms by (simp add: sthFile_Startup_def os_Open_def startupFileName_def stored_sth_def)
  moreover have "sthFile_Load sp flt \<lparr>sth_name = sthFileName\<rparr> pub fs = Ok sth"
    using assms by (auto simp: sthFile_Load_def os_Open_def stored_sth_def)
  ultimately show "NewStateManagerSingle H sp sf flt sign pub rs sthFileName fs w
    = (fs, w, Ok (new_manager H pub \<lparr>sth_name = sthFileName\<rparr> rs sth))"
    by (simp add: NewStateManagerSingle_def Let_def)
  show "sm_inv sp (new_manager H pub \<lparr>sth_name = sthFileName\<rparr> rs sth) fs"
    using assms by (simp add: sm_inv_def new_manager_def)
qed

lemma new_manager_sizes [simp]:
  "sm_signedTreeHead (new_manager H pub f rs sth) = sth"
  "sm_cosignedTreeHead (new_manager H pub f rs sth) = \<lparr>cth_SignedTreeHead = sth, cth_Cosignatures = []\<rparr>"
  by (simp_all add: new_manager_def)

lemma NewStateManagerSingle_manager:
  assumes "NewStateManagerSingle H sp sf flt sign pub rs name fs w = (fs', w', Ok sm)"
  shows "\<exists>sth. sm = new_manager H pub \<lparr>sth_name = name\<rparr> rs sth"
  using assms unfolding NewStateManagerSingle_def Let_def
  by (auto simp: bind_result_Ok_iff split: result.splits StartupMode.splits prod.splits)

section \<open>A concrete configuration\<close>

text \<open>A primary tree of size 5 without secondary, a signer and a disk that work, used for concrete inputs.\<close>

definition sample_sign :: "pubkey \<Rightarrow> sign_fun" where
  "sample_sign pub th = Ok \<lparr>sth_TreeHead = th, sth_Signature = copy_array 64 pub\<rparr>"

definition sample_replication :: "unit ReplicationState" where
  "sample_replication = \<lparr>
     rs_primary = \<lparr>pt_GetTreeHead = \<lambda>w. (w, Ok (sample_head 5)),
                   pt_GetConsistencyProof = \<lambda>req w. (w, Ok \<lparr>cp_Path = []\<rparr>)\<rparr>,
     rs_secondaryPub = [], rs_secondary = None\<rparr>"

definition sample_env :: "unit round_env" where
  "sample_env = \<lparr>re_sign = sample_sign ''key'', re_safefile = sample_safefile, re_getCosignatures = \<lambda>sth w. (w, [])\<rparr>"

definition sample_disk :: fsys where
  "sample_disk = [''sth'' \<mapsto> sth_ToASCII sample_sth_pkg (sample_sth 2)]"

definition sample_manager :: "unit StateManagerSingle" where
  "sample_manager = new_manager (copy_array 32) ''key'' \<lparr>sth_name = ''sth''\<rparr> sample_replication (sample_sth 2)"

lemma sample_sth_wf [simp]: "n < 100 \<Longrightarrow> sth_wf (sample_sth n)"
  by (simp add: sth_wf_def sample_sth_def sample_head_def capacity_def)

lemma sample_ok [simp]:
  "sign_ok sample_sth_pkg ''key'' (sample_sign ''key'')"
  "replication_ok sample_replication"
  "env_ok sample_sth_pkg ''key'' sample_env"
  by (simp_all add: sign_ok_def sample_sign_def sample_sth_pkg_def replication_ok_def sample_replication_def
      sample_head_def capacity_def env_ok_def sample_env_def)

lemma sample_manager_simps [simp]:
  "sm_public sample_manager = ''key''" "sm_sthFile sample_manager = \<lparr>sth_name = ''sth''\<rparr>"
  "sm_replicationState sample_manager = sample_replication" "sm_signedTreeHead sample_manager = sample_sth 2"
  by (simp_all add: sample_manager_def new_manager_def)

lemma sample_stored: "stored_sth sample_sth_pkg \<lparr>sth_name = ''sth''\<rparr> sample_disk (sample_sth 2)"
proof -
  have "sth_FromASCII sample_sth_pkg (sth_ToASCII sample_sth_pkg (sample_sth 2)) = Ok (sample_sth 2)"
    using sth_codec_ok_sample unfolding sth_codec_ok_def by simp
  then show ?thesis by (simp add: stored_sth_def sample_disk_def startupFileName_def StartupFileSuffix_def)
qed

lemma sample_verify: "sth_Verify sample_sth_pkg ''key'' (sample_sth n)"
  by (simp add: sample_sth_def sample_sth_pkg_def)

lemma sample_sm_inv: "sm_inv sample_sth_pkg sample_manager sample_disk"
  using sample_stored sample_verify by (simp add: sm_inv_def) (simp add: sample_manager_def)

section \<open>Properties\<close>

text \<open>
  C3: The rotation never takes back a published tree head.  Whatever the replication state,
  signer, disk and witnesses do in each of the rounds (including failing), \<open>Run\<close> does
  not panic; afterwards the signed tree head is the one on disk, signed by the log; the cosigned
  head is not larger than the signed one; and neither the signed nor the cosigned head has
  become smaller.
\<close>

theorem Run_monotone:
  assumes "sth_codec_ok sp" and "list_all (env_ok sp (sm_public sm)) envs"
    and "replication_ok (sm_replicationState sm)" and "sm_inv sp sm fs"
  shows "\<exists>sm' fs' w'. Run sp pv envs (sm, fs, w) = Ok (sm', fs', w') \<and> sm_inv sp sm' fs'
    \<and> sth_Size (SignedTreeHead_of sm) \<le> sth_Size (SignedTreeHead_of sm')
    \<and> cth_Size (CosignedTreeHead_of sm) \<le> cth_Size (CosignedTreeHead_of sm')
    \<and> cth_Size (CosignedTreeHead_of sm') \<le> sth_Size (SignedTreeHead_of sm')"
proof -
  obtain sm' fs' w' where *: "Run sp pv envs (sm, fs, w) = Ok (sm', fs', w')" "sm_inv sp sm' fs'"
    "sth_Size (sm_signedTreeHead sm) \<le> sth_Size (sm_signedTreeHead sm')"
    "cth_Size (sm_cosignedTreeHead sm) \<le> cth_Size (sm_cosignedTreeHead sm')"
    using Run_inv [OF assms] by metis
  moreover have "cth_Size (sm_cosignedTreeHead sm') \<le> sth_Size (sm_signedTreeHead sm')"
    using *(2) by (simp add: sm_inv_def)
  ultimately show ?thesis by (auto simp: SignedTreeHead_of_def CosignedTreeHead_of_def)
qed

theorem Run_monotone_witness:
  "\<exists>sm' fs' w'. Run sample_sth_pkg (\<lambda>_ _ _. None) [sample_env, sample_env] (sample_manager, sample_disk, ()) = Ok (sm', fs', w')
    \<and> 2 \<le> sth_Size (SignedTreeHead_of sm')"
  using Run_monotone [OF sth_codec_ok_sample _ _ sample_sm_inv, of "[sample_env, sample_env]" "\<lambda>_ _ _. None" "()"]
  by (auto simp: SignedTreeHead_of_def sample_sth_def sample_head_def)

text \<open>
  C4: Crash recovery.  Let the server crash at any point of any round (in particular between
  storing the new head and publishing it, or while waiting for witnesses) and start it again on
  the disk as it was: it starts, without changing the disk, with a signed tree head that is at
  least as large as every signed and cosigned tree head that anybody could have read before the
  crash, and in a state from which the rotation is safe again.
\<close>

theorem restart_never_rolls_back:
  assumes "sth_codec_ok sp" and "list_all (env_ok sp (sm_public sm)) (envs @ [env])"
    and "replication_ok (sm_replicationState sm)" and "sm_inv sp sm fs"
    and "Run sp pv envs (sm, fs, w) = Ok (sm1, fs1, w1)"
    and "(smx, fsx) \<in> set (round_states sp pv env (sm1, fs1, w1))"
    and "flt_open flt (sth_name (sm_sthFile sm)) = None" and "flt_open flt (startupFileName (sm_sthFile sm)) = None"
  shows "\<exists>sm2. NewStateManagerSingle H sp sf flt sign (sm_public sm) rs (sth_name (sm_sthFile sm)) fsx w2
      = (fsx, w2, Ok sm2)
    \<and> sth_Size (SignedTreeHead_of smx) \<le> sth_Size (SignedTreeHead_of sm2)
    \<and> cth_Size (CosignedTreeHead_of smx) \<le> sth_Size (SignedTreeHead_of sm2)
    \<and> sm_inv sp sm2 fsx"
proof -
  have envs: "list_all (env_ok sp (sm_public sm)) envs" "env_ok sp (sm_public sm) env" using assms(2) by simp_all
  have 1: "sm_inv sp sm1 fs1" "same_manager sm sm1"
    using Run_inv [OF assms(1) envs(1) assms(3,4), of pv w] assms(5) by auto
  have cfg: "env_ok sp (sm_public sm1) env" "replication_ok (sm_replicationState sm1)"
      "sm_sthFile sm1 = sm_sthFile sm" "sm_public sm1 = sm_public sm"
    using 1(2) envs(2) assms(3) by (simp_all add: same_manager_def)
  have snap: "snapshot_ok sp sm1 smx fsx"
    using run_round_inv [OF assms(1) cfg(1,2) 1(1), of pv w1] assms(6) by metis
  obtain sth where sth: "stored_sth sp (sm_sthFile sm) fsx sth" "sth_wf sth"
      "sth_Verify sp (sm_public sm) sth \<or> sth_VerifyVersion0 sp (sm_public sm) sth"
      "sth_Size (sm_signedTreeHead smx) \<le> sth_Size sth"
      "cth_Size (sm_cosignedTreeHead smx) \<le> sth_Size (sm_signedTreeHead smx)"
    using snap cfg(3,4) by (auto simp: snapshot_ok_def)
  let ?name = "sth_name (sm_sthFile sm)"
  have st: "stored_sth sp \<lparr>sth_name = ?name\<rparr> fsx sth"
    using sth(1) by (simp add: stored_sth_def startupFileName_def)
  have flt: "flt_open flt (?name @ StartupFileSuffix) = None" using assms(8) by (simp add: startupFileName_def)
  show ?thesis
    using NewStateManagerSingle_saved(1) [OF flt assms(7) st sth(2,3), where H = H and sf = sf and sign = sign and rs = rs and w = w2]
      NewStateManagerSingle_saved(2) [OF flt assms(7) st sth(2,3), of H rs] sth(4,5)
    by (auto simp: SignedTreeHead_of_def CosignedTreeHead_of_def)
qed

theorem restart_never_rolls_back_witness:
  "\<exists>smx fsx sm2.
     (smx, fsx) \<in> set (round_states sample_sth_pkg (\<lambda>_ _ _. None) sample_env (sample_manager, sample_disk, ()))
   \<and> sth_Size (SignedTreeHead_of smx) = 5
   \<and> NewStateManagerSingle (copy_array 32) sample_sth_pkg sample_safefile no_faults (sample_sign ''key'') ''key''
       sample_replication ''sth'' fsx () = (fsx, (), Ok sm2) \<and> 5 \<le> sth_Size (SignedTreeHead_of sm2)"
proof -
  let ?pv = "\<lambda>_ _ _. None"
  let ?st = "(sample_manager, sample_disk, ())"
  let ?fs = "sample_disk(''sth'' \<mapsto> sth_ToASCII sample_sth_pkg (sample_sth 5))"
  let ?sm = "sample_manager\<lparr>sm_signedTreeHead := sample_sth 5\<rparr>"
  have "next_tree_head sample_sth_pkg ?pv sample_manager () = ((), Ok (sample_head 5))"
    by (simp add: next_tree_head_def ReplicatedTreeHead_def getPrimaryTreeHead_def sample_replication_def
        SignedTreeHead_of_def sample_sth_def sample_head_def)
  moreover have "signTreeHead sample_sth_pkg sample_safefile (sample_sign ''key'') (sample_head 5) sample_manager sample_disk
      = (?sm, ?fs, Ok (sample_sth 5))"
    by (simp add: signTreeHead_def sample_sign_def sthFile_Store_def sample_safefile_def sample_sth_def sample_head_def)
  ultimately have mem: "(?sm, ?fs) \<in> set (round_states sample_sth_pkg ?pv sample_env ?st)"
    by (simp add: round_states_def sample_env_def rotate_after_sign)
  have size: "sth_Size (SignedTreeHead_of ?sm) = 5"
    by (simp add: SignedTreeHead_of_def sample_sth_def sample_head_def)
  have flt: "flt_open no_faults n = None" for n by (simp add: no_faults_def)
  obtain sm2 where "NewStateManagerSingle (copy_array 32) sample_sth_pkg sample_safefile no_faults
      (sample_sign ''key'') ''key'' sample_replication ''sth'' ?fs () = (?fs, (), Ok sm2)"
      "5 \<le> sth_Size (SignedTreeHead_of sm2)"
    using restart_never_rolls_back [of sample_sth_pkg sample_manager "[]" sample_env sample_disk ?pv "()"
        sample_manager sample_disk "()" ?sm ?fs no_faults "copy_array 32" sample_safefile "sample_sign ''key''"
        sample_replication "()"] sample_sm_inv mem size flt by auto
  with mem size show ?thesis by blast
qed

text \<open>Where a start changes the disk, on every outcome.\<close>

lemma startup_file_exists:
  assumes "faults_ok flt" and "sthFile_Startup flt \<lparr>sth_name = name\<rparr> fs = Ok mode"
  shows "fs (name @ StartupFileSuffix) = None \<longleftrightarrow> mode = StartupSaved"
  using assms by (auto simp: sthFile_Startup_def os_Open_def parseStartupFile_def faults_ok_def startupFileName_def
      split: option.splits list.splits if_splits)

lemma Create_disk:
  assumes "safefile_ok sf" and "faults_ok flt"
    and "sthFile_Create sp sf flt \<lparr>sth_name = name\<rparr> sth fs = (fs', rc)" and "r = bind_result rc (\<lambda>_. Ok sm)"
  shows "fs' = fs \<and> \<not> is_ok r \<or> fs' = fs(name @ StartupFileSuffix := None) \<and> \<not> is_ok r
    \<or> is_ok r \<and> fs name = None \<and> (\<exists>b. fs' = (fs(name @ StartupFileSuffix := None))(name \<mapsto> b))"
  using sthFile_Create_cases [OF assms(1,2,3)] assms(4) by (auto simp: startupFileName_def)

lemma NewStateManagerSingle_disk:
  assumes "safefile_ok sf" and "faults_ok flt"
    and "NewStateManagerSingle H sp sf flt sign pub rs name fs w = (fs', w', r)"
  shows "fs' = fs \<and> (is_ok r \<longrightarrow> fs (name @ StartupFileSuffix) = None)
    \<or> fs (name @ StartupFileSuffix) \<noteq> None \<and> (fs' = fs(name @ StartupFileSuffix := None) \<and> \<not> is_ok r
        \<or> is_ok r \<and> fs name = None \<and> (\<exists>b. fs' = (fs(name @ StartupFileSuffix := None))(name \<mapsto> b)))"
proof (cases "sthFile_Startup flt \<lparr>sth_name = name\<rparr> fs")
  case (Ok mode)
  note found = startup_file_exists [OF assms(2) Ok]
  have created: ?thesis
    if c: "sthFile_Create sp sf flt \<lparr>sth_name = name\<rparr> sth fs = (fs', rc)" "r = bind_result rc (\<lambda>_. Ok sm)"
      and "mode \<noteq> StartupSaved" for sth rc sm
  proof -
    have "fs (name @ StartupFileSuffix) \<noteq> None" using found that(3) by simp
    with Create_disk [OF assms(1,2) c] show ?thesis by argo
  qed
  show ?thesis
  proof (cases mode)
    case StartupSaved
    then show ?thesis using assms(3) Ok found by (auto simp: NewStateManagerSingle_def Let_def)
  next
    case StartupEmpty
    then have "fs' = fs \<and> \<not> is_ok r
        \<or> (\<exists>sth rc sm. sthFile_Create sp sf flt \<lparr>sth_name = name\<rparr> sth fs = (fs', rc) \<and> r = bind_result rc (\<lambda>_. Ok sm))"
      using assms(3) Ok
      by (cases "sign \<lparr>Size = 0, RootHash = H []\<rparr>") (auto simp: NewStateManagerSingle_def Let_def split: prod.splits)
    then show ?thesis using created StartupEmpty by blast
  next
    case StartupLocalTree
    then have "fs' = fs \<and> \<not> is_ok r
        \<or> (\<exists>sth rc sm. sthFile_Create sp sf flt \<lparr>sth_name = name\<rparr> sth fs = (fs', rc) \<and> r = bind_result rc (\<lambda>_. Ok sm))"
      using assms(3) Ok
      by (auto simp: NewStateManagerSingle_def Let_def split: prod.splits result.splits)
    then show ?thesis using created StartupLocalTree by blast
  qed
qed (use assms(3) in \<open>auto simp: NewStateManagerSingle_def Let_def\<close>)

lemma NewStateManagerSingle_started:
  assumes "sth_codec_ok sp" and "safefile_ok sf" and "faults_ok flt" and "sign_ok sp pub sign"
    and "replication_ok rs" and "\<And>b. length (H b) = HashSize"
    and "NewStateManagerSingle H sp sf flt sign pub rs name fs w = (fs', w', Ok sm)"
  shows "sm_inv sp sm fs'
    \<and> cth_Cosignatures (CosignedTreeHead_of sm) = [] \<and> cth_SignedTreeHead (CosignedTreeHead_of sm) = SignedTreeHead_of sm
    \<and> (fs (name @ StartupFileSuffix) = None \<longrightarrow> fs' = fs)
    \<and> (fs name \<noteq> None \<longrightarrow> fs' name = fs name)
    \<and> (fs name = None \<longrightarrow> sth_TreeHead (SignedTreeHead_of sm) = \<lparr>Size = 0, RootHash = H []\<rparr>
         \<or> pt_GetTreeHead (rs_primary rs) w = (w', Ok (sth_TreeHead (SignedTreeHead_of sm))))"
proof -
  let ?f = "\<lparr>sth_name = name\<rparr>"
  have fresh: "sm_inv sp (new_manager H pub ?f rs sth) fs1 \<and> fs name = None \<and> fs1 = (fs(name @ StartupFileSuffix := None))(name \<mapsto> sth_ToASCII sp sth)
      \<and> sth_TreeHead sth = th"
    if "sign th = Ok sth" "th_wf th" "sthFile_Create sp sf flt ?f sth fs = (fs1, Ok ())" for th sth fs1
  proof -
    have sth: "sth_TreeHead sth = th" "sth_Verify sp pub sth" "sth_wf sth"
      using assms(4) that(1,2) by (auto simp: sign_ok_def sth_wf_def)
    have fs1: "fs name = None" "fs1 = (fs(name @ StartupFileSuffix := None))(name \<mapsto> sth_ToASCII sp sth)"
      using sthFile_Create_cases [OF assms(2,3) that(3)] by (auto simp: startupFileName_def)
    have "stored_sth sp ?f fs1 sth"
      using stored_sth_update [OF assms(1) sth(3), of "fs(name @ StartupFileSuffix := None)" ?f] fs1(2)
      by (simp add: startupFileName_def)
    then show ?thesis using sth fs1 by (simp add: sm_inv_def new_manager_def)
  qed
  have "is_ok (sthFile_Startup flt ?f fs)"
  proof (cases "sthFile_Startup flt ?f fs")
    case (Err e)
    then show ?thesis using assms(7) by (simp add: NewStateManagerSingle_def Let_def)
  next
    case (Panic m)
    then show ?thesis using assms(7) by (simp add: NewStateManagerSingle_def Let_def)
  qed simp
  then obtain mode where mode: "sthFile_Startup flt ?f fs = Ok mode" by (auto simp: is_ok_iff)
  show ?thesis
  proof (cases mode)
    case StartupSaved
    have "fs' = fs \<and> bind_result (sthFile_Load sp flt ?f pub fs) (\<lambda>sth. Ok (new_manager H pub ?f rs sth)) = Ok sm"
      using assms(7) unfolding NewStateManagerSingle_def Let_def mode StartupSaved by auto
    then obtain sth where sth: "sthFile_Load sp flt ?f pub fs = Ok sth" "sm = new_manager H pub ?f rs sth" "fs' = fs"
      unfolding bind_result_Ok_iff by auto
    obtain data where data: "fs name = Some data" "sth_FromASCII sp data = Ok sth"
        "sth_Verify sp pub sth \<or> sth_VerifyVersion0 sp pub sth"
      using sth(1) by (auto simp: sthFile_Load_def os_Open_def outcome_simps split: option.splits if_splits)
    have "sth_wf sth" using assms(1) data(2) by (auto simp: sth_codec_ok_def)
    moreover have "fs (startupFileName ?f) = None"
      using mode StartupSaved assms(3)
      by (auto simp: sthFile_Startup_def os_Open_def parseStartupFile_def faults_ok_def
          split: option.splits list.splits if_splits)
    ultimately have "sm_inv sp sm fs" using data sth(2) by (simp add: sm_inv_def stored_sth_def new_manager_def)
    then show ?thesis using sth data by (simp add: CosignedTreeHead_of_def SignedTreeHead_of_def)
  next
    case StartupEmpty
    let ?th = "\<lparr>Size = 0, RootHash = H []\<rparr>"
    obtain sth where sth: "sign ?th = Ok sth" "sthFile_Create sp sf flt ?f sth fs = (fs', Ok ())"
        "sm = new_manager H pub ?f rs sth"
      using assms(7) unfolding NewStateManagerSingle_def Let_def mode StartupEmpty
      by (auto simp: bind_result_Ok_iff split: result.splits prod.splits)
    have "fs (name @ StartupFileSuffix) \<noteq> None"
      using mode StartupEmpty by (auto simp: sthFile_Startup_def os_Open_def startupFileName_def
          split: option.splits if_splits)
    then show ?thesis
      using fresh [OF sth(1) _ sth(2)] sth(3) assms(6) by (auto simp: CosignedTreeHead_of_def SignedTreeHead_of_def capacity_def)
  next
    case StartupLocalTree
    obtain th sth where sth: "pt_GetTreeHead (rs_primary rs) w = (w', Ok th)" "sign th = Ok sth"
        "sthFile_Create sp sf flt ?f sth fs = (fs', Ok ())" "sm = new_manager H pub ?f rs sth"
      using assms(7) unfolding NewStateManagerSingle_def Let_def mode StartupLocalTree
      by (auto simp: bind_result_Ok_iff split: result.splits prod.splits)
    have "fs (name @ StartupFileSuffix) \<noteq> None"
      using mode StartupLocalTree by (auto simp: sthFile_Startup_def os_Open_def startupFileName_def
          split: option.splits if_splits)
    then show ?thesis
      using fresh [OF sth(2) replication_okD(1) [OF assms(5) sth(1)] sth(3)] sth
      by (auto simp: CosignedTreeHead_of_def SignedTreeHead_of_def)
  qed
qed

text \<open>
  C24: Starting the state manager.  Whether the start succeeds or fails, a tree head file that is already there is left
  as it is, no file but the tree head file and its startup file changes, and without a startup file nothing on disk
  changes at all.  A start that fails creates no tree head file, and a start that finds both files always fails.  A start
  that succeeds does so with a tree head that carries the log's signature and is what the file holds, with the startup
  file gone and no cosignatures; if there was no tree head file before, that head is the one of the empty tree or the
  primary's current one.
\<close>

theorem NewStateManagerSingle_safe:
  assumes "sth_codec_ok sp" and "safefile_ok sf" and "faults_ok flt" and "sign_ok sp pub sign"
    and "replication_ok rs" and "\<And>b. length (H b) = HashSize"
    and "NewStateManagerSingle H sp sf flt sign pub rs name fs w = (fs', w', r)"
  shows "(fs name \<noteq> None \<or> \<not> is_ok r \<longrightarrow> fs' name = fs name)
    \<and> (\<forall>n. n \<noteq> name \<and> n \<noteq> name @ StartupFileSuffix \<longrightarrow> fs' n = fs n)
    \<and> (fs (name @ StartupFileSuffix) = None \<longrightarrow> fs' = fs)
    \<and> (fs name \<noteq> None \<and> fs (name @ StartupFileSuffix) \<noteq> None \<longrightarrow> \<not> is_ok r)
    \<and> (\<forall>sm. r = Ok sm \<longrightarrow> sm_inv sp sm fs' \<and> fs' (name @ StartupFileSuffix) = None
         \<and> cth_Cosignatures (CosignedTreeHead_of sm) = [] \<and> cth_SignedTreeHead (CosignedTreeHead_of sm) = SignedTreeHead_of sm
         \<and> (fs name = None \<longrightarrow> sth_TreeHead (SignedTreeHead_of sm) = \<lparr>Size = 0, RootHash = H []\<rparr>
              \<or> pt_GetTreeHead (rs_primary rs) w = (w', Ok (sth_TreeHead (SignedTreeHead_of sm)))))"
proof -
  have [simp]: "StartupFileSuffix \<noteq> []" by (simp add: StartupFileSuffix_def)
  note disk = NewStateManagerSingle_disk [OF assms(2,3,7)]
  have "sm_inv sp sm fs' \<and> fs' (name @ StartupFileSuffix) = None
      \<and> cth_Cosignatures (CosignedTreeHead_of sm) = [] \<and> cth_SignedTreeHead (CosignedTreeHead_of sm) = SignedTreeHead_of sm
      \<and> (fs name = None \<longrightarrow> sth_TreeHead (SignedTreeHead_of sm) = \<lparr>Size = 0, RootHash = H []\<rparr>
           \<or> pt_GetTreeHead (rs_primary rs) w = (w', Ok (sth_TreeHead (SignedTreeHead_of sm))))" if "r = Ok sm" for sm
  proof -
    have "fs' (name @ StartupFileSuffix) = None" using disk that by auto
    then show ?thesis using NewStateManagerSingle_started [OF assms(1-6) assms(7) [unfolded that]] by blast
  qed
  moreover have "fs name \<noteq> None \<or> \<not> is_ok r \<longrightarrow> fs' name = fs name" using disk by auto
  moreover have "\<forall>n. n \<noteq> name \<and> n \<noteq> name @ StartupFileSuffix \<longrightarrow> fs' n = fs n" using disk by auto
  moreover have "fs (name @ StartupFileSuffix) = None \<longrightarrow> fs' = fs" using disk by auto
  moreover have "fs name \<noteq> None \<and> fs (name @ StartupFileSuffix) \<noteq> None \<longrightarrow> \<not> is_ok r" using disk by auto
  ultimately show ?thesis by blast
qed

theorem NewStateManagerSingle_safe_witness:
  "\<exists>fs' sm. NewStateManagerSingle (copy_array 32) sample_sth_pkg sample_safefile no_faults (sample_sign ''key'') ''key''
      sample_replication ''sth'' [''sth.startup'' \<mapsto> ''startup=local-tree''] () = (fs', (), Ok sm)
    \<and> sm_inv sample_sth_pkg sm fs'"
proof -
  let ?fs = "[''sth.startup'' \<mapsto> ''startup=local-tree'']"
  have "sthFile_Startup no_faults \<lparr>sth_name = ''sth''\<rparr> ?fs = Ok StartupLocalTree"
    by (simp add: sthFile_Startup_def os_Open_def no_faults_def startupFileName_def StartupFileSuffix_def
        parseStartupFile_modes)
  moreover have "sthFile_Create sample_sth_pkg sample_safefile no_faults \<lparr>sth_name = ''sth''\<rparr> (sample_sth 5) ?fs
      = ([''sth'' \<mapsto> sth_ToASCII sample_sth_pkg (sample_sth 5)], Ok ())"
    by (simp add: sthFile_Create_def sample_safefile_def os_Remove_def no_faults_def startupFileName_def StartupFileSuffix_def)
  moreover have "pt_GetTreeHead (rs_primary sample_replication) () = ((), Ok (sample_head 5))"
    "sample_sign ''key'' (sample_head 5) = Ok (sample_sth 5)"
    by (simp_all add: sample_replication_def sample_sign_def sample_sth_def)
  ultimately have "NewStateManagerSingle (copy_array 32) sample_sth_pkg sample_safefile no_faults
      (sample_sign ''key'') ''key'' sample_replication ''sth'' ?fs ()
      = ([''sth'' \<mapsto> sth_ToASCII sample_sth_pkg (sample_sth 5)], (),
         Ok (new_manager (copy_array 32) ''key'' \<lparr>sth_name = ''sth''\<rparr> sample_replication (sample_sth 5)))"
    by (simp add: NewStateManagerSingle_def Let_def)
  moreover from this have "sm_inv sample_sth_pkg (new_manager (copy_array 32) ''key'' \<lparr>sth_name = ''sth''\<rparr> sample_replication
      (sample_sth 5)) [''sth'' \<mapsto> sth_ToASCII sample_sth_pkg (sample_sth 5)]"
    using NewStateManagerSingle_safe [OF sth_codec_ok_sample safefile_ok_sample faults_ok_none sample_ok(1,2)
        length_copy_array] by fastforce
  ultimately show ?thesis by blast
qed

text \<open>
  A smaller tree head is refused, but only after it has been stored.  When
  \<open>signTreeHead\<close> is called with a head that signs and stores fine but is smaller than the
  current one, it returns the internal error and keeps the signed head in memory; the file on
  disk, however, has already been replaced by the smaller head.
\<close>

theorem signTreeHead_truncation_order:
  assumes "safefile_ok sf" and "sign th = Ok sth" and "sth_Size sth < sth_Size (sm_signedTreeHead sm)"
    and "sthFile_Store sp sf (sm_sthFile sm) sth fs = (fs', Ok ())"
  shows "signTreeHead sp sf sign th sm fs =
      (sm, fs', Err (Errorf ''internal error, attempting to truncate signed tree head''))
    \<and> fs' (sth_name (sm_sthFile sm)) = Some (sth_ToASCII sp sth)"
  using assms sthFile_Store_cases [OF assms(1,4)] by (auto simp: signTreeHead_def)

theorem signTreeHead_truncation_order_witness:
  "snd (snd (signTreeHead sample_sth_pkg sample_safefile (sample_sign ''key'') (sample_head 1) sample_manager sample_disk))
    = Err (Errorf ''internal error, attempting to truncate signed tree head'')"
  using signTreeHead_truncation_order [OF safefile_ok_sample, of "sample_sign ''key''" "sample_head 1" "sample_sth 1"
      sample_manager sample_sth_pkg sample_disk]
  by (simp add: sample_sign_def sample_sth_def sample_head_def sthFile_Store_def sample_safefile_def word_less_nat_alt)

end
