(* ===== verification/Witness.thy ===== *)
theory Witness
  imports Api_Types "HOL-Library.Multiset"
begin

text \<open>
  Collecting cosignatures (\<open>internal/witness/witness.go\<close>).  The client of one witness
  loops until it gets a cosignature or an error that is not a conflict; a loop that never ends is
  the value \<open>None\<close>.  The collector runs one goroutine per witness and gathers the results
  over an unbuffered channel: a step relation over the states of the goroutines and the channel.
  The HTTP client of a witness, the verification of a cosignature and
  \<open>errors.Is(api.ErrConflict, _)\<close> are parameters.
\<close>

section \<open>One witness\<close>

record AddTreeHeadRequest =
  at_KeyHash :: hash
  at_TreeHead :: SignedTreeHead
  at_OldSize :: u64
  at_Proof :: ConsistencyProof

record 'w witness_client =
  wc_AddTreeHead :: "AddTreeHeadRequest \<Rightarrow> 'w \<Rightarrow> 'w \<times> Cosignature result"
  wc_GetTreeSize :: "hash \<Rightarrow> 'w \<Rightarrow> 'w \<times> u64 result"

type_synonym 'w GetConsistencyProofFunc = "ConsistencyRequest \<Rightarrow> 'w \<Rightarrow> 'w \<times> ConsistencyProof result"

record 'w witness =
  wit_client :: "'w witness_client"
  wit_logKeyHash :: hash
  wit_pubKey :: pubkey
  wit_prevSize :: u64
  wit_getConsistencyProof :: "'w GetConsistencyProofFunc"

record witness_pkg =
  cs_Verify :: "Cosignature \<Rightarrow> pubkey \<Rightarrow> hash \<Rightarrow> TreeHead \<Rightarrow> bool"
  is_Conflict :: "go_error \<Rightarrow> bool"

record Entity =
  ent_URL :: string
  ent_PublicKey :: pubkey

definition newWitness ::
    "(string \<Rightarrow> 'w witness_client) \<Rightarrow> Entity \<Rightarrow> hash \<Rightarrow> 'w GetConsistencyProofFunc \<Rightarrow> 'w witness" where
  "newWitness client_New w logKeyHash getConsistencyProof = \<lparr>
     wit_client = client_New (ent_URL w), wit_logKeyHash = logKeyHash, wit_pubKey = ent_PublicKey w,
     wit_prevSize = 0, wit_getConsistencyProof = getConsistencyProof\<rparr>"

datatype 'a step = Return 'a | Again

definition cosignature_round ::
    "witness_pkg \<Rightarrow> SignedTreeHead \<Rightarrow> 'w witness \<Rightarrow> 'w \<Rightarrow> 'w witness \<times> 'w \<times> Cosignature result step" where
  \<comment> \<open>the body of the loop\<close>
  "cosignature_round wp sth wit w =
     (case wit_getConsistencyProof wit \<lparr>OldSize = wit_prevSize wit, NewSize = sth_Size sth\<rparr> w of
        (w1, Err e) \<Rightarrow> (wit, w1, Return (Err e))
      | (w1, Panic m) \<Rightarrow> (wit, w1, Return (Panic m))
      | (w1, Ok proof) \<Rightarrow>
     (case wc_AddTreeHead (wit_client wit) \<lparr>at_KeyHash = wit_logKeyHash wit, at_TreeHead = sth,
              at_OldSize = wit_prevSize wit, at_Proof = proof\<rparr> w1 of
        (w2, Ok cs) \<Rightarrow>
          if \<not> cs_Verify wp cs (wit_pubKey wit) (wit_logKeyHash wit) (sth_TreeHead sth)
          then (wit, w2, Return (Err (Errorf ''invalid cosignature'')))
          else (wit\<lparr>wit_prevSize := sth_Size sth\<rparr>, w2, Return (Ok cs))
      | (w2, Panic m) \<Rightarrow> (wit, w2, Return (Panic m))
      | (w2, Err e) \<Rightarrow>
          if \<not> is_Conflict wp e then (wit, w2, Return (Err e))
          else case wc_GetTreeSize (wit_client wit) (wit_logKeyHash wit) w2 of
                 (w3, Err e) \<Rightarrow> (wit, w3, Return (Err e))
               | (w3, Panic m) \<Rightarrow> (wit, w3, Return (Panic m))
               | (w3, Ok sz) \<Rightarrow> (wit\<lparr>wit_prevSize := sz\<rparr>, w3, Again)))"

partial_function (option) getCosignature ::
    "witness_pkg \<Rightarrow> SignedTreeHead \<Rightarrow> 'w witness \<Rightarrow> 'w \<Rightarrow> ('w witness \<times> 'w \<times> Cosignature result) option" where
  "getCosignature wp sth wit w =
     (case cosignature_round wp sth wit w of
        (wit', w', Return r) \<Rightarrow> Some (wit', w', r)
      | (wit', w', Again) \<Rightarrow> getCosignature wp sth wit' w')"

section \<open>The collector\<close>

record 'w CosignatureCollector =
  col_witnesses :: "'w witness list"

definition NewCosignatureCollector ::
    "(string \<Rightarrow> 'w witness_client) \<Rightarrow> hash \<Rightarrow> Entity list \<Rightarrow> 'w GetConsistencyProofFunc \<Rightarrow> 'w CosignatureCollector" where
  "NewCosignatureCollector client_New logKeyHash witnesses getConsistencyProof =
     \<lparr>col_witnesses = map (\<lambda>w. newWitness client_New w logKeyHash getConsistencyProof) witnesses\<rparr>"

text \<open>
  A goroutine of \<open>GetCosignatures\<close> is querying its witness, blocked on sending a
  cosignature, or done (after \<open>wg.Done\<close>).  The channel is open until the closing goroutine
  has seen the wait group at zero; the receiver returns when it finds the channel closed.
\<close>

datatype goroutine = Querying | Sending Cosignature | Finished

record collector_state =
  cl_routines :: "goroutine list"
  cl_wg :: nat \<comment> \<open>the counter of the wait group\<close>
  cl_closed :: bool
  cl_cosignatures :: "Cosignature list" \<comment> \<open>received so far\<close>
  cl_returned :: bool

definition collector_init :: "nat \<Rightarrow> collector_state" where
  \<comment> \<open>after the loop that starts the goroutines\<close>
  "collector_init n = \<lparr>cl_routines = replicate n Querying, cl_wg = n, cl_closed = False,
     cl_cosignatures = [], cl_returned = False\<rparr>"

text \<open>
  \<open>outs ! i\<close> is what \<open>getCosignature\<close> of witness \<open>i\<close> returns in this call.  A
  send on the unbuffered channel happens together with its receive.
\<close>

inductive collector_step :: "Cosignature result list \<Rightarrow> collector_state \<Rightarrow> collector_state \<Rightarrow> bool"
  for outs :: "Cosignature result list" where
  query_ok: "i < length (cl_routines s) \<Longrightarrow> cl_routines s ! i = Querying \<Longrightarrow> outs ! i = Ok cs \<Longrightarrow>
    collector_step outs s (s\<lparr>cl_routines := (cl_routines s)[i := Sending cs]\<rparr>)"
| query_failed: "i < length (cl_routines s) \<Longrightarrow> cl_routines s ! i = Querying \<Longrightarrow> outs ! i = Err e \<Longrightarrow>
    collector_step outs s (s\<lparr>cl_routines := (cl_routines s)[i := Finished], cl_wg := cl_wg s - 1\<rparr>)"
| send: "i < length (cl_routines s) \<Longrightarrow> cl_routines s ! i = Sending cs \<Longrightarrow> \<not> cl_closed s \<Longrightarrow> \<not> cl_returned s \<Longrightarrow>
    collector_step outs s (s\<lparr>cl_routines := (cl_routines s)[i := Finished], cl_wg := cl_wg s - 1,
      cl_cosignatures := cl_cosignatures s @ [cs]\<rparr>)"
| close: "cl_wg s = 0 \<Longrightarrow> \<not> cl_closed s \<Longrightarrow> collector_step outs s (s\<lparr>cl_closed := True\<rparr>)"
| return: "cl_closed s \<Longrightarrow> \<not> cl_returned s \<Longrightarrow> collector_step outs s (s\<lparr>cl_returned := True\<rparr>)"

inductive collector_reach :: "Cosignature result list \<Rightarrow> collector_state \<Rightarrow> bool"
  for outs :: "Cosignature result list" where
  reach_init: "collector_reach outs (collector_init (length outs))"
| reach_step: "collector_reach outs s \<Longrightarrow> collector_step outs s s' \<Longrightarrow> collector_reach outs s'"

inductive_cases collector_stepE: "collector_step outs s s'"

section \<open>Lemmas on the client loop\<close>

lemma cosignature_round_config:
  assumes "cosignature_round wp sth wit w = (wit', w', st)"
  shows "wit_client wit' = wit_client wit \<and> wit_logKeyHash wit' = wit_logKeyHash wit
    \<and> wit_pubKey wit' = wit_pubKey wit \<and> wit_getConsistencyProof wit' = wit_getConsistencyProof wit"
  using assms by (auto simp: cosignature_round_def split: prod.splits result.splits if_splits)

lemma cosignature_round_Ok:
  assumes "cosignature_round wp sth wit w = (wit', w', Return (Ok cs))"
  shows "cs_Verify wp cs (wit_pubKey wit) (wit_logKeyHash wit) (sth_TreeHead sth) \<and> wit_prevSize wit' = sth_Size sth"
  using assms by (auto simp: cosignature_round_def split: prod.splits result.splits if_splits)

lemma cosignature_round_AgainE:
  assumes "cosignature_round wp sth wit w = (wit', w', Again)"
  obtains w1 pf w2 e sz where
    "wit_getConsistencyProof wit \<lparr>OldSize = wit_prevSize wit, NewSize = sth_Size sth\<rparr> w = (w1, Ok pf)"
    "wc_AddTreeHead (wit_client wit) \<lparr>at_KeyHash = wit_logKeyHash wit, at_TreeHead = sth,
       at_OldSize = wit_prevSize wit, at_Proof = pf\<rparr> w1 = (w2, Err e)" "is_Conflict wp e"
    "wc_GetTreeSize (wit_client wit) (wit_logKeyHash wit) w2 = (w', Ok sz)" "wit' = wit\<lparr>wit_prevSize := sz\<rparr>"
  using assms that by (auto simp: cosignature_round_def split: prod.splits result.splits if_splits)

lemma getCosignature_Return:
  "cosignature_round wp sth wit w = (wit', w', Return r) \<Longrightarrow> getCosignature wp sth wit w = Some (wit', w', r)"
  by (subst getCosignature.simps) simp

lemma getCosignature_Again:
  "cosignature_round wp sth wit w = (wit', w', Again) \<Longrightarrow> getCosignature wp sth wit w = getCosignature wp sth wit' w'"
  by (subst getCosignature.simps) simp

lemma getCosignature_induct [consumes 1, case_names Return Again]:
  assumes "getCosignature wp sth wit w = Some res"
    and "\<And>wit w wit' w' r. cosignature_round wp sth wit w = (wit', w', Return r) \<Longrightarrow> P wit w (wit', w', r)"
    and "\<And>wit w wit' w' res. cosignature_round wp sth wit w = (wit', w', Again) \<Longrightarrow> P wit' w' res \<Longrightarrow> P wit w res"
  shows "P wit w res"
proof -
  have "wp = wp \<longrightarrow> sth = sth \<longrightarrow> P wit w res"
  proof (rule getCosignature.raw_induct [of "\<lambda>wp' sth' wit w res. wp' = wp \<longrightarrow> sth' = sth \<longrightarrow> P wit w res", OF _ assms(1)],
      intro impI)
    fix getC wp' sth' wit w res
    assume IH: "\<And>wp' sth' wit w res. getC wp' sth' wit w = Some res \<Longrightarrow> wp' = wp \<longrightarrow> sth' = sth \<longrightarrow> P wit w res"
      and eq: "wp' = wp" "sth' = sth"
      and body: "(case cosignature_round wp' sth' wit w of
         (wit', w', Return r) \<Rightarrow> Some (wit', w', r) | (wit', w', Again) \<Rightarrow> getC wp' sth' wit' w') = Some res"
    obtain wit1 w1 st where st: "cosignature_round wp sth wit w = (wit1, w1, st)" by (metis prod_cases3)
    show "P wit w res"
    proof (cases st)
      case (Return r)
      then show ?thesis using body st eq assms(2) by auto
    next
      case Again
      then have "getC wp sth wit1 w1 = Some res" using body st eq by simp
      then show ?thesis using IH assms(3) st Again by metis
    qed
  qed
  then show ?thesis by simp
qed

section \<open>Concrete witnesses\<close>

text \<open>
  A witness that keeps its tree size as its whole state and checks proofs, and one that answers \<open>Conflict\<close>
  until its time is up.
\<close>

definition sample_witness_pkg :: witness_pkg where
  "sample_witness_pkg = \<lparr>cs_Verify = (\<lambda>cs pub kh th. cs_KeyHash cs = pub), is_Conflict = (\<lambda>e. e = ApiErrConflict)\<rparr>"

definition sample_cs :: "pubkey \<Rightarrow> Cosignature" where
  "sample_cs pub = \<lparr>cs_KeyHash = pub, cs_Timestamp = 0, cs_Signature = []\<rparr>"

definition sample_accepts :: "u64 \<Rightarrow> SignedTreeHead \<Rightarrow> ConsistencyProof \<Rightarrow> bool" where
  \<comment> \<open>a proof is good when it has one node for each new leaf\<close>
  "sample_accepts n sth pf \<longleftrightarrow> length (cp_Path pf) = unat (sth_Size sth) - unat n"

definition sample_honest :: "u64 \<Rightarrow> u64 witness" where
  "sample_honest prev = \<lparr>
     wit_client = \<lparr>wc_AddTreeHead = (\<lambda>req n. if at_OldSize req \<noteq> n then (n, Err ApiErrConflict)
                     else if sample_accepts n (at_TreeHead req) (at_Proof req)
                     then (sth_Size (at_TreeHead req), Ok (sample_cs ''w''))
                     else (n, Err (ExtError ''bad proof''))),
                   wc_GetTreeSize = (\<lambda>kh n. (n, Ok n))\<rparr>,
     wit_logKeyHash = ''log'', wit_pubKey = ''w'', wit_prevSize = prev,
     wit_getConsistencyProof = (\<lambda>req n. (n, Ok \<lparr>cp_Path = replicate (unat (NewSize req) - unat (OldSize req)) ''node''\<rparr>))\<rparr>"

definition sample_stubborn :: "nat \<Rightarrow> nat witness" where
  \<comment> \<open>its world is the clock; it answers \<open>Conflict\<close> until the deadline\<close>
  "sample_stubborn deadline = \<lparr>
     wit_client = \<lparr>wc_AddTreeHead = (\<lambda>req n. if deadline \<le> n then (n, Err (ExtError ''deadline exceeded''))
                     else (n + 1, Err ApiErrConflict)),
                   wc_GetTreeSize = (\<lambda>kh n. if deadline \<le> n then (n, Err (ExtError ''deadline exceeded'')) else (n + 1, Ok 0))\<rparr>,
     wit_logKeyHash = ''log'', wit_pubKey = ''w'', wit_prevSize = 0,
     wit_getConsistencyProof = (\<lambda>req n. (n, Ok \<lparr>cp_Path = []\<rparr>))\<rparr>"

definition sample_signed :: "u64 \<Rightarrow> SignedTreeHead" where
  "sample_signed n = \<lparr>sth_TreeHead = \<lparr>Size = n, RootHash = replicate 32 CHR ''r''\<rparr>, sth_Signature = replicate 64 CHR ''s''\<rparr>"

lemma sample_honest_run:
  "getCosignature sample_witness_pkg (sample_signed 9) (sample_honest 0) 7
   = Some (sample_honest 9, 9, Ok (sample_cs ''w''))"
proof -
  have "cosignature_round sample_witness_pkg (sample_signed 9) (sample_honest 0) 7 = (sample_honest 7, 7, Again)"
    "cosignature_round sample_witness_pkg (sample_signed 9) (sample_honest 7) 7
      = (sample_honest 9, 9, Return (Ok (sample_cs ''w'')))"
    by (simp_all add: cosignature_round_def sample_honest_def sample_witness_pkg_def sample_signed_def sample_cs_def sample_accepts_def)
  then show ?thesis using getCosignature_Again getCosignature_Return by metis
qed

lemma getCosignature_Ok:
  assumes "getCosignature wp sth wit w = Some (wit', w', Ok cs)"
  shows "cs_Verify wp cs (wit_pubKey wit) (wit_logKeyHash wit) (sth_TreeHead sth)"
    and "wit_prevSize wit' = sth_Size sth"
proof -
  have "snd (snd res) = Ok cs \<longrightarrow> cs_Verify wp cs (wit_pubKey wit) (wit_logKeyHash wit) (sth_TreeHead sth)
      \<and> wit_prevSize (fst res) = sth_Size sth" if "getCosignature wp sth wit w = Some res" for res
    using that
  proof (induction rule: getCosignature_induct)
    case (Return wit w wit' w' r)
    then show ?case using cosignature_round_Ok by fastforce
  next
    case (Again wit w wit' w' res)
    then show ?case using cosignature_round_config by metis
  qed
  then show "cs_Verify wp cs (wit_pubKey wit) (wit_logKeyHash wit) (sth_TreeHead sth)"
    and "wit_prevSize wit' = sth_Size sth"
    using assms by fastforce+
qed

section \<open>Properties\<close>

text \<open>
  Whatever a witness does, the log never accepts a cosignature it has not verified: if
  \<open>getCosignature\<close> returns a cosignature, it verifies under the witness's configured key
  for exactly the submitted tree head of this log, and the size remembered for the next request
  is the size of that tree head.
\<close>

theorem getCosignature_verified:
  assumes "getCosignature wp sth wit w = Some (wit', w', Ok cs)"
  shows "cs_Verify wp cs (wit_pubKey wit) (wit_logKeyHash wit) (sth_TreeHead sth)
    \<and> wit_prevSize wit' = sth_Size sth"
  using getCosignature_Ok [OF assms] by simp

theorem getCosignature_verified_witness:
  "cs_Verify sample_witness_pkg (sample_cs ''w'') ''w'' ''log'' (sth_TreeHead (sample_signed 9))"
  using getCosignature_verified [OF sample_honest_run] by (simp add: sample_honest_def)

text \<open>
  The calls of the loop get the context of the rotation round, which has a deadline.  \<open>clock\<close> reads the
  time from the state of the world.
\<close>

definition within_deadline :: "('w \<Rightarrow> nat) \<Rightarrow> nat \<Rightarrow> ('w \<Rightarrow> 'w \<times> 'a result) \<Rightarrow> bool" where
  \<comment> \<open>time does not run backwards, and a call returns when the deadline of its context has come\<close>
  "within_deadline clock deadline call \<longleftrightarrow>
     (\<forall>w w' r. call w = (w', r) \<longrightarrow> clock w \<le> clock w' \<and> clock w' \<le> max deadline (clock w))"

definition remote_call :: "witness_pkg \<Rightarrow> ('w \<Rightarrow> nat) \<Rightarrow> nat \<Rightarrow> ('w \<Rightarrow> 'w \<times> 'a result) \<Rightarrow> bool" where
  \<comment> \<open>a request over the network takes time; with an expired context it fails at once, with the error of the context\<close>
  "remote_call wp clock deadline call \<longleftrightarrow> within_deadline clock deadline call
     \<and> (\<forall>w w' r. call w = (w', r) \<longrightarrow> (if clock w < deadline then clock w < clock w' else \<exists>e. r = Err e \<and> \<not> is_Conflict wp e))"

fun returns_after :: "witness_pkg \<Rightarrow> SignedTreeHead \<Rightarrow> nat \<Rightarrow> 'w witness \<Rightarrow> 'w \<Rightarrow> 'w witness \<times> 'w \<times> Cosignature result \<Rightarrow> bool" where
  \<comment> \<open>the loop returns the given result in exactly the given number of rounds\<close>
  "returns_after wp sth 0 wit w res \<longleftrightarrow> False"
| "returns_after wp sth (Suc n) wit w res \<longleftrightarrow>
     (case cosignature_round wp sth wit w of
        (wit', w', Return r) \<Rightarrow> n = 0 \<and> res = (wit', w', r)
      | (wit', w', Again) \<Rightarrow> returns_after wp sth n wit' w' res)"

lemma returns_after_result: "returns_after wp sth n wit w res \<Longrightarrow> getCosignature wp sth wit w = Some res"
proof (induction n arbitrary: wit w)
  case (Suc n)
  then show ?case
    by (subst getCosignature.simps) (auto split: prod.splits step.splits)
qed simp

lemma cosignature_round_clock:
  assumes "\<And>req. within_deadline clock deadline (wit_getConsistencyProof wit req)"
    and "\<And>req. remote_call wp clock deadline (wc_AddTreeHead (wit_client wit) req)"
    and "\<And>kh. remote_call wp clock deadline (wc_GetTreeSize (wit_client wit) kh)"
    and "cosignature_round wp sth wit w = (wit', w', st)"
  shows "clock w' \<le> max deadline (clock w)" and "st = Again \<Longrightarrow> clock w < clock w' \<and> clock w' \<le> deadline"
proof -
  let ?req = "\<lparr>OldSize = wit_prevSize wit, NewSize = sth_Size sth\<rparr>"
  obtain w1 r1 where 1: "wit_getConsistencyProof wit ?req w = (w1, r1)" by fastforce
  have c1: "clock w \<le> clock w1" "clock w1 \<le> max deadline (clock w)"
    using assms(1) 1 unfolding within_deadline_def by blast+
  define add where "add pf = wc_AddTreeHead (wit_client wit)
    \<lparr>at_KeyHash = wit_logKeyHash wit, at_TreeHead = sth, at_OldSize = wit_prevSize wit, at_Proof = pf\<rparr> w1" for pf
  have c2: "clock w1 \<le> clock w2 \<and> clock w2 \<le> max deadline (clock w1)
      \<and> (if clock w1 < deadline then clock w1 < clock w2 else \<exists>e. r2 = Err e \<and> \<not> is_Conflict wp e)"
    if "add pf = (w2, r2)" for pf w2 r2
    using assms(2) that unfolding add_def remote_call_def within_deadline_def by blast
  have c3: "clock w2 \<le> clock w3 \<and> clock w3 \<le> max deadline (clock w2)"
    if "wc_GetTreeSize (wit_client wit) (wit_logKeyHash wit) w2 = (w3, r3)" for w2 w3 r3
    using assms(3) that unfolding remote_call_def within_deadline_def by blast
  have "clock w' \<le> max deadline (clock w) \<and> (st = Again \<longrightarrow> clock w < clock w' \<and> clock w' \<le> deadline)"
  proof (cases r1)
    case (Ok pf)
    obtain w2 r2 where 2: "add pf = (w2, r2)" by fastforce
    obtain w3 r3 where 3: "wc_GetTreeSize (wit_client wit) (wit_logKeyHash wit) w2 = (w3, r3)" by fastforce
    have "w' = w2 \<and> st \<noteq> Again \<or> w' = w3 \<and> (\<exists>e. r2 = Err e \<and> is_Conflict wp e)"
      using assms(4) 1 2 3 Ok unfolding add_def
      by (auto simp: cosignature_round_def split: result.splits if_splits)
    then show ?thesis using c1 c2 [OF 2] c3 [OF 3] by (auto split: if_splits)
  qed (use assms(4) 1 c1 in \<open>auto simp: cosignature_round_def\<close>)
  then show "clock w' \<le> max deadline (clock w)" and "st = Again \<Longrightarrow> clock w < clock w' \<and> clock w' \<le> deadline" by auto
qed

text \<open>
  C22: The query loop ends in time.  Suppose its calls obey the context of the round: they return by its deadline,
  a request to the witness takes at least one tick of the clock, and requests with an expired context fail with an error
  that is not a conflict.  Then \<open>getCosignature\<close> returns whatever the witness answers: when the deadline comes,
  or at once if it has passed, and after no more rounds than there are ticks left, plus one.
\<close>

theorem getCosignature_terminates:
  fixes clock :: "'w \<Rightarrow> nat"
  assumes "\<And>req. within_deadline clock deadline (wit_getConsistencyProof wit req)"
    and "\<And>req. remote_call wp clock deadline (wc_AddTreeHead (wit_client wit) req)"
    and "\<And>kh. remote_call wp clock deadline (wc_GetTreeSize (wit_client wit) kh)"
  shows "\<exists>n wit' w' r. getCosignature wp sth wit w = Some (wit', w', r)
    \<and> returns_after wp sth n wit w (wit', w', r) \<and> n \<le> deadline - clock w + 1
    \<and> clock w' \<le> max deadline (clock w)"
proof -
  have "\<exists>n wit' w' r. returns_after wp sth n wit w (wit', w', r) \<and> n \<le> deadline - clock w + 1 \<and> clock w' \<le> max deadline (clock w)"
    using assms
  proof (induction "deadline - clock w" arbitrary: wit w rule: less_induct)
    case less
    obtain wit1 w1 st where st: "cosignature_round wp sth wit w = (wit1, w1, st)" by (metis prod_cases3)
    note clk = cosignature_round_clock [OF less.prems st]
    show ?case
    proof (cases st)
      case (Return r)
      then have "returns_after wp sth (Suc 0) wit w (wit1, w1, r)" using st by simp
      then show ?thesis using clk(1) by fastforce
    next
      case Again
      then have c: "clock w < clock w1" "clock w1 \<le> deadline" using clk(2) by auto
      have "wit_getConsistencyProof wit1 = wit_getConsistencyProof wit" "wit_client wit1 = wit_client wit"
        using cosignature_round_config [OF st] by auto
      then obtain n wit' w' r where n: "returns_after wp sth n wit1 w1 (wit', w', r)" "n \<le> deadline - clock w1 + 1"
          "clock w' \<le> max deadline (clock w1)"
        using less.hyps [of w1 wit1] less.prems c by (metis diff_less_mono2 order_less_le_trans)
      have "returns_after wp sth (Suc n) wit w (wit', w', r)" using n(1) st Again by simp
      moreover have "Suc n \<le> deadline - clock w + 1" "clock w' \<le> max deadline (clock w)" using n(2,3) c by auto
      ultimately show ?thesis by blast
    qed
  qed
  then obtain n wit' w' r where n: "returns_after wp sth n wit w (wit', w', r)" "n \<le> deadline - clock w + 1"
      "clock w' \<le> max deadline (clock w)" by blast
  show ?thesis using n returns_after_result [OF n(1)] by blast
qed

theorem getCosignature_terminates_witness:
  "\<exists>n wit' w' r. getCosignature sample_witness_pkg (sample_signed 9) (sample_stubborn 1000) 0 = Some (wit', w', r)
     \<and> returns_after sample_witness_pkg (sample_signed 9) n (sample_stubborn 1000) 0 (wit', w', r) \<and> n \<le> 1001 \<and> w' \<le> 1000"
  using getCosignature_terminates [of "\<lambda>n. n" 1000 "sample_stubborn 1000" sample_witness_pkg "sample_signed 9" 0]
  by (simp add: sample_stubborn_def sample_witness_pkg_def remote_call_def within_deadline_def)

text \<open>
  An honest witness with a tree of size \<open>wsize w\<close>: a request that names another size is a conflict; otherwise it
  cosigns if \<open>accepts\<close> holds of its size, the submitted tree head and the proof that came with it (the proof shows
  that the new tree extends its own), and refuses with an error that is not a conflict if it does not.
\<close>

definition honest_client ::
    "witness_pkg \<Rightarrow> (u64 \<Rightarrow> SignedTreeHead \<Rightarrow> ConsistencyProof \<Rightarrow> bool) \<Rightarrow> pubkey \<Rightarrow> ('w \<Rightarrow> u64) \<Rightarrow> 'w witness_client \<Rightarrow> bool" where
  "honest_client wp accepts pub wsize cl \<longleftrightarrow> (\<forall>kh w. wc_GetTreeSize cl kh w = (w, Ok (wsize w)))
   \<and> (\<forall>req w. if at_OldSize req \<noteq> wsize w then \<exists>e. wc_AddTreeHead cl req w = (w, Err e) \<and> is_Conflict wp e
        else if accepts (wsize w) (at_TreeHead req) (at_Proof req)
        then \<exists>w' cs. wc_AddTreeHead cl req w = (w', Ok cs) \<and> wsize w' = sth_Size (at_TreeHead req)
               \<and> cs_Verify wp cs pub (at_KeyHash req) (sth_TreeHead (at_TreeHead req))
        else \<exists>e. wc_AddTreeHead cl req w = (w, Err e) \<and> \<not> is_Conflict wp e)"

lemma honest_clientD:
  assumes "honest_client wp accepts pub wsize cl"
  shows "wc_GetTreeSize cl kh w = (w, Ok (wsize w))"
    and "at_OldSize req \<noteq> wsize w \<Longrightarrow> \<exists>e. wc_AddTreeHead cl req w = (w, Err e) \<and> is_Conflict wp e"
    and "at_OldSize req = wsize w \<Longrightarrow> accepts (wsize w) (at_TreeHead req) (at_Proof req) \<Longrightarrow>
      \<exists>w' cs. wc_AddTreeHead cl req w = (w', Ok cs) \<and> wsize w' = sth_Size (at_TreeHead req)
        \<and> cs_Verify wp cs pub (at_KeyHash req) (sth_TreeHead (at_TreeHead req))"
  using assms unfolding honest_client_def by metis+

text \<open>
  C23: An honest witness cosigns.  Let the witness have a tree not larger than the submitted tree head, and let the log's
  own proofs between a size up to that of the tree head and the tree head be acceptable to it.  Then, even if the log's
  idea of the witness's size is wrong (after a restart it is 0), \<open>getCosignature\<close> asks for the proof from the
  right size, sends it along, and returns a cosignature for the tree head within two rounds; the witness has then moved
  to the new tree head, and the log remembers its size.
\<close>

theorem getCosignature_honest:
  fixes wsize :: "'w \<Rightarrow> u64"
  assumes wit: "honest_client wp accepts (wit_pubKey wit) wsize (wit_client wit)"
    and log: "\<And>n w. n \<le> sth_Size sth \<Longrightarrow> \<exists>pf. wit_getConsistencyProof wit \<lparr>OldSize = n, NewSize = sth_Size sth\<rparr> w = (w, Ok pf)
        \<and> accepts n sth pf"
    and size: "wit_prevSize wit \<le> sth_Size sth" "wsize w \<le> sth_Size sth"
  shows "\<exists>n \<le> 2. \<exists>w' cs. returns_after wp sth n wit w (wit\<lparr>wit_prevSize := sth_Size sth\<rparr>, w', Ok cs)
    \<and> getCosignature wp sth wit w = Some (wit\<lparr>wit_prevSize := sth_Size sth\<rparr>, w', Ok cs)
    \<and> cs_Verify wp cs (wit_pubKey wit) (wit_logKeyHash wit) (sth_TreeHead sth) \<and> wsize w' = sth_Size sth"
proof -
  obtain pf where pf: "wit_getConsistencyProof wit \<lparr>OldSize = wsize w, NewSize = sth_Size sth\<rparr> w = (w, Ok pf)" "accepts (wsize w) sth pf"
    using log size(2) by blast
  let ?req = "\<lparr>at_KeyHash = wit_logKeyHash wit, at_TreeHead = sth, at_OldSize = wsize w, at_Proof = pf\<rparr>"
  obtain w' cs where ok: "wc_AddTreeHead (wit_client wit) ?req w = (w', Ok cs)" "wsize w' = sth_Size sth"
      "cs_Verify wp cs (wit_pubKey wit) (wit_logKeyHash wit) (sth_TreeHead sth)"
    using honest_clientD(3) [OF wit, of ?req w] pf(2) by auto
  have direct: "cosignature_round wp sth (wit\<lparr>wit_prevSize := wsize w\<rparr>) w = (wit\<lparr>wit_prevSize := sth_Size sth\<rparr>, w', Return (Ok cs))"
    using pf(1) ok by (simp add: cosignature_round_def)
  have "\<exists>n \<le> 2. returns_after wp sth n wit w (wit\<lparr>wit_prevSize := sth_Size sth\<rparr>, w', Ok cs)"
  proof (cases "wit_prevSize wit = wsize w")
    case True
    then have "wit\<lparr>wit_prevSize := wsize w\<rparr> = wit" by (cases wit) simp
    then show ?thesis using direct by (intro exI [of _ 1]) simp
  next
    case False
    obtain p where p: "wit_getConsistencyProof wit \<lparr>OldSize = wit_prevSize wit, NewSize = sth_Size sth\<rparr> w = (w, Ok p)"
      using log size(1) by blast
    let ?req1 = "\<lparr>at_KeyHash = wit_logKeyHash wit, at_TreeHead = sth, at_OldSize = wit_prevSize wit, at_Proof = p\<rparr>"
    obtain e where "wc_AddTreeHead (wit_client wit) ?req1 w = (w, Err e)" "is_Conflict wp e"
      using honest_clientD(2) [OF wit, of ?req1 w] False by auto
    then have "cosignature_round wp sth wit w = (wit\<lparr>wit_prevSize := wsize w\<rparr>, w, Again)"
      using p honest_clientD(1) [OF wit] by (simp add: cosignature_round_def)
    then show ?thesis using direct by (intro exI [of _ 2]) (simp add: numeral_2_eq_2)
  qed
  then obtain n where n: "n \<le> 2" "returns_after wp sth n wit w (wit\<lparr>wit_prevSize := sth_Size sth\<rparr>, w', Ok cs)" by blast
  show ?thesis using n returns_after_result [OF n(2)] ok(2,3) by blast
qed

theorem getCosignature_honest_witness:
  "\<exists>n \<le> 2. \<exists>cs. returns_after sample_witness_pkg (sample_signed 9) n (sample_honest 0) 7 (sample_honest 9, 9, Ok cs)
     \<and> getCosignature sample_witness_pkg (sample_signed 9) (sample_honest 0) 7 = Some (sample_honest 9, 9, Ok cs)"
proof -
  have "honest_client sample_witness_pkg sample_accepts (wit_pubKey (sample_honest 0)) (\<lambda>n. n) (wit_client (sample_honest 0))"
    by (simp add: honest_client_def sample_honest_def sample_witness_pkg_def sample_cs_def)
  moreover have "\<exists>pf. wit_getConsistencyProof (sample_honest 0) \<lparr>OldSize = n, NewSize = sth_Size (sample_signed 9)\<rparr> w = (w, Ok pf)
      \<and> sample_accepts n (sample_signed 9) pf" for n w
    by (simp add: sample_honest_def sample_accepts_def)
  moreover have "wit_prevSize (sample_honest 0) \<le> sth_Size (sample_signed 9)" "7 \<le> sth_Size (sample_signed 9)"
      "(sample_honest 0)\<lparr>wit_prevSize := sth_Size (sample_signed 9)\<rparr> = sample_honest 9" "sth_Size (sample_signed 9) = 9"
    by (simp_all add: sample_honest_def sample_signed_def word_le_nat_alt)
  ultimately show ?thesis
    using getCosignature_honest [of sample_witness_pkg sample_accepts "sample_honest 0" "\<lambda>n. n" "sample_signed 9" 7] by metis
qed

section \<open>Collecting in parallel\<close>

fun cs_of :: "Cosignature result \<Rightarrow> Cosignature list" where
  "cs_of (Ok cs) = [cs]"
| "cs_of (Err e) = []"
| "cs_of (Panic m) = []"

definition pending :: "Cosignature result list \<Rightarrow> goroutine list \<Rightarrow> Cosignature multiset" where
  "pending outs gs = (\<Sum>i < length outs. if gs ! i = Finished then {#} else mset (cs_of (outs ! i)))"

definition active :: "goroutine list \<Rightarrow> nat set" where
  "active gs = {i. i < length gs \<and> gs ! i \<noteq> Finished}"

definition collector_inv :: "Cosignature result list \<Rightarrow> collector_state \<Rightarrow> bool" where
  "collector_inv outs s \<longleftrightarrow> length (cl_routines s) = length outs
     \<and> cl_wg s = card (active (cl_routines s))
     \<and> (\<forall>i < length outs. \<forall>cs. cl_routines s ! i = Sending cs \<longrightarrow> outs ! i = Ok cs)
     \<and> (cl_closed s \<longrightarrow> active (cl_routines s) = {}) \<and> (cl_returned s \<longrightarrow> cl_closed s)
     \<and> mset (cl_cosignatures s) + pending outs (cl_routines s) = (\<Sum>i < length outs. mset (cs_of (outs ! i)))"

fun routine_work :: "goroutine \<Rightarrow> nat" where
  "routine_work Querying = 2"
| "routine_work (Sending cs) = 1"
| "routine_work Finished = 0"

definition collector_work :: "collector_state \<Rightarrow> nat" where
  \<comment> \<open>steps that are left: two per query, one per send, closing and returning\<close>
  "collector_work s = sum_list (map routine_work (cl_routines s))
     + (if cl_closed s then 0 else 1) + (if cl_returned s then 0 else 1)"

lemma pending_update:
  assumes "i < length outs" and "length gs = length outs" and "gs ! i \<noteq> Finished"
  shows "pending outs (gs[i := Finished]) + mset (cs_of (outs ! i)) = pending outs gs"
    and "g \<noteq> Finished \<Longrightarrow> pending outs (gs[i := g]) = pending outs gs"
proof -
  have fin: "finite {..<length outs}" "i \<in> {..<length outs}" using assms(1) by auto
  show "pending outs (gs[i := Finished]) + mset (cs_of (outs ! i)) = pending outs gs"
    unfolding pending_def sum.remove [OF fin] using assms
    by (auto simp: nth_list_update intro!: sum.cong)
  show "g \<noteq> Finished \<Longrightarrow> pending outs (gs[i := g]) = pending outs gs"
    unfolding pending_def using assms by (auto simp: nth_list_update intro!: sum.cong)
qed

lemma active_update:
  assumes "i < length gs" and "gs ! i \<noteq> Finished"
  shows "card (active (gs[i := Finished])) = card (active gs) - 1"
    and "g \<noteq> Finished \<Longrightarrow> active (gs[i := g]) = active gs"
    and "active (gs[i := Finished]) \<subseteq> active gs"
proof -
  have "active (gs[i := Finished]) = active gs - {i}" using assms by (auto simp: active_def nth_list_update split: if_splits)
  moreover have "i \<in> active gs" "finite (active gs)" using assms by (auto simp: active_def)
  ultimately show "card (active (gs[i := Finished])) = card (active gs) - 1"
    and "active (gs[i := Finished]) \<subseteq> active gs" by auto
  show "g \<noteq> Finished \<Longrightarrow> active (gs[i := g]) = active gs"
    using assms by (auto simp: active_def nth_list_update split: if_splits)
qed

lemma collector_inv_init: "collector_inv outs (collector_init (length outs))"
proof -
  have "active (replicate (length outs) Querying) = {..<length outs}" by (auto simp: active_def)
  then show ?thesis
    by (auto simp: collector_inv_def collector_init_def pending_def intro!: sum.cong)
qed

lemma collector_inv_step:
  assumes "collector_step outs s s'" and "collector_inv outs s"
  shows "collector_inv outs s'"
  using assms
proof (cases rule: collector_step.cases)
  case (query_ok i cs)
  then show ?thesis
    using assms(2) pending_update(2) [of i outs "cl_routines s" "Sending cs"] active_update(2) [of i "cl_routines s" "Sending cs"]
    by (auto simp: collector_inv_def nth_list_update)
next
  case (query_failed i e)
  then show ?thesis
    using assms(2) pending_update(1) [of i outs "cl_routines s"] active_update(1,3) [of i "cl_routines s"]
    by (auto simp: collector_inv_def nth_list_update)
next
  case (send i cs)
  then have o: "outs ! i = Ok cs" "i < length outs" using assms(2) by (auto simp: collector_inv_def)
  have "pending outs (cl_routines s) = pending outs ((cl_routines s)[i := Finished]) + {#cs#}"
    using pending_update(1) [of i outs "cl_routines s"] o send assms(2) by (auto simp: collector_inv_def)
  then show ?thesis
    using assms(2) send active_update(1,3) [of i "cl_routines s"]
    by (auto simp: collector_inv_def nth_list_update)
next
  case close
  have "finite (active (cl_routines s))" by (simp add: active_def)
  then show ?thesis using close assms(2) by (auto simp: collector_inv_def)
next
  case return
  then show ?thesis using assms(2) by (auto simp: collector_inv_def)
qed

lemma collector_inv_reach: "collector_reach outs s \<Longrightarrow> collector_inv outs s"
  by (induction rule: collector_reach.induct) (auto intro: collector_inv_init collector_inv_step)

lemma work_update:
  "i < length gs \<Longrightarrow> sum_list (map routine_work (gs[i := h])) + routine_work (gs ! i)
    = sum_list (map routine_work gs) + routine_work h"
  by (induction gs arbitrary: i) (auto split: nat.splits simp: nth_Cons)

lemma collector_step_work:
  assumes "collector_step outs s s'"
  shows "collector_work s' < collector_work s"
  using assms
proof (cases rule: collector_step.cases)
  case (query_ok i cs)
  then show ?thesis using work_update [of i "cl_routines s" "Sending cs"] by (simp add: collector_work_def)
next
  case (query_failed i e)
  then show ?thesis using work_update [of i "cl_routines s" Finished] by (simp add: collector_work_def)
next
  case (send i cs)
  then show ?thesis using work_update [of i "cl_routines s" Finished] by (simp add: collector_work_def)
qed (auto simp: collector_work_def)

lemma collector_progress:
  assumes "collector_inv outs s" and "list_all (\<lambda>r. \<not> is_panic r) outs" and "\<not> cl_returned s"
  shows "\<exists>s'. collector_step outs s s'"
proof (cases "cl_closed s")
  case True
  then show ?thesis using assms(3) collector_step.return by blast
next
  case opened: False
  show ?thesis
  proof (cases "active (cl_routines s) = {}")
    case True
    then have "cl_wg s = 0" using assms(1) by (simp add: collector_inv_def)
    then show ?thesis using opened collector_step.close by blast
  next
    case False
    then obtain i where i: "i < length (cl_routines s)" "cl_routines s ! i \<noteq> Finished" by (auto simp: active_def)
    show ?thesis
    proof (cases "cl_routines s ! i")
      case (Sending cs)
      then show ?thesis using collector_step.send i(1) opened assms(3) by blast
    next
      case Querying
      have "\<not> is_panic (outs ! i)" using assms(1,2) i(1) by (auto simp: collector_inv_def list_all_length)
      then consider cs where "outs ! i = Ok cs" | e where "outs ! i = Err e" by (cases "outs ! i") auto
      then show ?thesis
        using collector_step.query_ok [OF i(1) Querying] collector_step.query_failed [OF i(1) Querying]
        by cases blast+
    qed (use i in simp)
  qed
qed

lemma sum_mset_successes: "(\<Sum>i < length outs. mset (cs_of (outs ! i))) = mset (concat (map cs_of outs))"
proof (induction outs)
  case (Cons a outs)
  have "(\<Sum>i < length (a # outs). mset (cs_of ((a # outs) ! i)))
      = mset (cs_of a) + (\<Sum>i < length outs. mset (cs_of (outs ! i)))"
    unfolding length_Cons sum.lessThan_Suc_shift by simp
  with Cons show ?case by simp
qed simp

lemma collector_result:
  assumes "collector_inv outs s" and "cl_returned s"
  shows "mset (cl_cosignatures s) = mset (concat (map cs_of outs))"
proof -
  have "\<forall>g \<in> set (cl_routines s). g = Finished"
    using assms by (auto simp: collector_inv_def active_def in_set_conv_nth)
  then have "pending outs (cl_routines s) = {#}"
    using assms(1) by (auto simp: pending_def collector_inv_def)
  then show ?thesis using assms(1) by (simp add: collector_inv_def sum_mset_successes)
qed

text \<open>
  C21: Collecting cosignatures in parallel.  In every reachable state of the goroutines and the
  channel: when \<open>GetCosignatures\<close> returns, its result is exactly the cosignatures of the
  witnesses that answered, each once, in some order; until then some step is possible (no
  deadlock between the senders, the closing goroutine and the receiver); each step decreases the
  remaining work, which starts at \<open>2n + 2\<close>, so it returns; and no goroutine can be blocked on
  or about to send on the closed channel.
\<close>

theorem GetCosignatures_collects:
  assumes "collector_reach outs s" and "list_all (\<lambda>r. \<not> is_panic r) outs"
  shows "(cl_returned s \<longrightarrow> mset (cl_cosignatures s) = mset (concat (map cs_of outs)))
    \<and> (\<not> cl_returned s \<longrightarrow> (\<exists>s'. collector_step outs s s'))
    \<and> (\<forall>s'. collector_step outs s s' \<longrightarrow> collector_work s' < collector_work s)
    \<and> collector_work (collector_init (length outs)) = 2 * length outs + 2
    \<and> (cl_closed s \<longrightarrow> (\<forall>g \<in> set (cl_routines s). g = Finished))"
proof -
  have inv: "collector_inv outs s" using collector_inv_reach assms(1) .
  have fin: "\<forall>g \<in> set (cl_routines s). g = Finished" if "cl_closed s"
    using inv that by (auto simp: collector_inv_def active_def in_set_conv_nth)
  have "mset (cl_cosignatures s) = mset (concat (map cs_of outs))" if "cl_returned s"
    using collector_result [OF inv that] .
  moreover have "collector_work (collector_init (length outs)) = 2 * length outs + 2"
    by (simp add: collector_work_def collector_init_def sum_list_replicate)
  ultimately show ?thesis
    using collector_progress [OF inv assms(2)] collector_step_work fin by blast
qed

definition sample_outs :: "Cosignature result list" where
  "sample_outs = [Ok (sample_cs ''w''), Err (ExtError ''unreachable'')]"

definition sample_final :: collector_state where
  "sample_final = \<lparr>cl_routines = [Finished, Finished], cl_wg = 0, cl_closed = True,
     cl_cosignatures = [sample_cs ''w''], cl_returned = True\<rparr>"

lemma sample_final_reach: "collector_reach sample_outs sample_final"
proof -
  let ?s = "\<lambda>gs n c cs r. \<lparr>cl_routines = gs, cl_wg = n, cl_closed = c, cl_cosignatures = cs, cl_returned = r\<rparr>"
  let ?c = "sample_cs ''w''"
  have 0: "collector_reach sample_outs (?s [Querying, Querying] 2 False [] False)"
    using reach_init [of sample_outs] by (simp add: sample_outs_def collector_init_def numeral_2_eq_2)
  have "collector_step sample_outs (?s [Querying, Querying] 2 False [] False) (?s [Querying, Finished] 1 False [] False)"
    using query_failed [of 1 "?s [Querying, Querying] 2 False [] False"] by (simp add: sample_outs_def)
  then have 1: "collector_reach sample_outs (?s [Querying, Finished] 1 False [] False)" using reach_step 0 by blast
  have "collector_step sample_outs (?s [Querying, Finished] 1 False [] False) (?s [Sending ?c, Finished] 1 False [] False)"
    using query_ok [of 0 "?s [Querying, Finished] 1 False [] False"] by (simp add: sample_outs_def)
  then have 2: "collector_reach sample_outs (?s [Sending ?c, Finished] 1 False [] False)" using reach_step 1 by blast
  have "collector_step sample_outs (?s [Sending ?c, Finished] 1 False [] False) (?s [Finished, Finished] 0 False [?c] False)"
    using send [of 0 "?s [Sending ?c, Finished] 1 False [] False" ?c] by simp
  then have 3: "collector_reach sample_outs (?s [Finished, Finished] 0 False [?c] False)" using reach_step 2 by blast
  have "collector_step sample_outs (?s [Finished, Finished] 0 False [?c] False) (?s [Finished, Finished] 0 True [?c] False)"
    using close [of "?s [Finished, Finished] 0 False [?c] False"] by simp
  then have 4: "collector_reach sample_outs (?s [Finished, Finished] 0 True [?c] False)" using reach_step 3 by blast
  have "collector_step sample_outs (?s [Finished, Finished] 0 True [?c] False) sample_final"
    using return [of "?s [Finished, Finished] 0 True [?c] False"] by (simp add: sample_final_def)
  then show ?thesis using reach_step 4 by blast
qed

theorem GetCosignatures_collects_witness:
  "mset (cl_cosignatures sample_final) = mset (concat (map cs_of sample_outs))"
  using GetCosignatures_collects [OF sample_final_reach] by (simp add: sample_outs_def sample_final_def)

end
