(* ===== verification/Cosigning.thy ===== *)
theory Cosigning
  imports State_Manager Witness
begin

text \<open>
  The state manager and the witnesses together: what \<open>Run\<close> publishes as cosigned tree head when
  cosignatures come from \<open>GetCosignatures\<close> of a collector.
\<close>

definition collects :: "witness_pkg \<Rightarrow> 'w witness list \<Rightarrow> SignedTreeHead \<Rightarrow> Cosignature list \<Rightarrow> bool" where
  \<comment> \<open>\<open>css\<close> is a possible result of \<open>GetCosignatures\<close> for a collector with the given witnesses\<close>
  "collects wp ws sth css \<longleftrightarrow> (\<exists>outs s. length outs = length ws \<and> collector_reach outs s \<and> cl_returned s \<and> css = cl_cosignatures s
     \<and> (\<forall>i < length ws. \<forall>cs. outs ! i = Ok cs \<longrightarrow> (\<exists>w w' wit'. getCosignature wp sth (ws ! i) w = Some (wit', w', Ok cs))))"

lemma collects_verified:
  assumes "collects wp ws sth css" and "cs \<in> set css"
  shows "\<exists>wit \<in> set ws. cs_Verify wp cs (wit_pubKey wit) (wit_logKeyHash wit) (sth_TreeHead sth)"
proof -
  obtain outs s where o: "length outs = length ws" "collector_reach outs s" "cl_returned s" "css = cl_cosignatures s"
      "\<forall>i < length ws. \<forall>cs. outs ! i = Ok cs \<longrightarrow> (\<exists>w w' wit'. getCosignature wp sth (ws ! i) w = Some (wit', w', Ok cs))"
    using assms(1) by (auto simp: collects_def)
  have "cs \<in> set (concat (map cs_of outs))"
    using collector_result [OF collector_inv_reach [OF o(2)] o(3)] assms(2) o(4) by (metis set_mset_mset)
  then obtain r where r: "r \<in> set outs" "cs \<in> set (cs_of r)" by auto
  then obtain i where i: "i < length ws" "outs ! i = r" using o(1) by (metis in_set_conv_nth)
  have "outs ! i = Ok cs" using r(2) i(2) by (cases r) auto
  then obtain w w' wit' where "getCosignature wp sth (ws ! i) w = Some (wit', w', Ok cs)" using o(5) i(1) by blast
  from getCosignature_Ok(1) [OF this] show ?thesis using i(1) by auto
qed

definition cosigned_ok :: "witness_pkg \<Rightarrow> pubkey list \<Rightarrow> hash \<Rightarrow> CosignedTreeHead \<Rightarrow> bool" where
  "cosigned_ok wp pubs kh cth \<longleftrightarrow>
     (\<forall>cs \<in> set (cth_Cosignatures cth). \<exists>pub \<in> set pubs. cs_Verify wp cs pub kh (sth_TreeHead (cth_SignedTreeHead cth)))"

definition round_collects :: "witness_pkg \<Rightarrow> pubkey list \<Rightarrow> hash \<Rightarrow> 'w round_env \<Rightarrow> bool" where
  \<comment> \<open>in each round a collector with the configured witnesses is asked; they may remember any size\<close>
  "round_collects wp pubs kh env \<longleftrightarrow> (\<forall>sth w. \<exists>ws :: 'w witness list. map wit_pubKey ws = pubs
     \<and> (\<forall>wit \<in> set ws. wit_logKeyHash wit = kh) \<and> collects wp ws sth (snd (re_getCosignatures env sth w)))"

text \<open>
  The collector that \<open>Run\<close> creates from the witnesses of the policy, after any number of queries, which change
  only the remembered sizes: it has their keys, so asking it in each round is what \<open>round_collects\<close> describes.
\<close>

inductive collector_evolves :: "witness_pkg \<Rightarrow> 'w witness list \<Rightarrow> 'w witness list \<Rightarrow> bool"
  for wp :: witness_pkg and ws :: "'w witness list" where
  evolves_refl: "collector_evolves wp ws ws"
| evolves_query: "collector_evolves wp ws vs \<Longrightarrow> i < length vs \<Longrightarrow> getCosignature wp sth (vs ! i) w = Some (wit', w', r) \<Longrightarrow>
    collector_evolves wp ws (vs[i := wit'])"

lemma getCosignature_keys:
  assumes "getCosignature wp sth wit w = Some res"
  shows "wit_pubKey (fst res) = wit_pubKey wit \<and> wit_logKeyHash (fst res) = wit_logKeyHash wit"
  using assms
proof (induction rule: getCosignature_induct)
  case (Return wit w wit' w' r)
  then show ?case using cosignature_round_config by fastforce
next
  case (Again wit w wit' w' res)
  then show ?case using cosignature_round_config by metis
qed

lemma collector_evolves_keys:
  assumes "collector_evolves wp ws vs"
  shows "map wit_pubKey vs = map wit_pubKey ws \<and> map wit_logKeyHash vs = map wit_logKeyHash ws"
  using assms
proof (induction rule: collector_evolves.induct)
  case (evolves_query vs i sth w wit' w' r)
  have "wit_pubKey wit' = map wit_pubKey vs ! i" "wit_logKeyHash wit' = map wit_logKeyHash vs ! i"
    using getCosignature_keys [OF evolves_query.hyps(3)] evolves_query.hyps(2) by simp_all
  then show ?case using evolves_query.IH by (metis list_update_id map_update)
qed simp

lemma collector_round_collects:
  fixes env :: "'w round_env" and client_New :: "string \<Rightarrow> 'w witness_client"
  assumes "\<And>sth w. \<exists>ws. collector_evolves wp (col_witnesses (NewCosignatureCollector client_New kh entities getProof)) ws
      \<and> collects wp ws sth (snd (re_getCosignatures env sth w))"
  shows "round_collects wp (map ent_PublicKey entities) kh env"
  unfolding round_collects_def
proof (intro allI)
  fix sth w
  obtain ws where ws: "collector_evolves wp (col_witnesses (NewCosignatureCollector client_New kh entities getProof)) ws"
      "collects wp ws sth (snd (re_getCosignatures env sth w))"
    using assms by blast
  have k: "map wit_pubKey ws = map ent_PublicKey entities" "map wit_logKeyHash ws = map (\<lambda>_. kh) entities"
    using collector_evolves_keys [OF ws(1)] by (simp_all add: NewCosignatureCollector_def newWitness_def comp_def)
  have "\<forall>wit \<in> set ws. wit_logKeyHash wit = kh"
  proof
    fix wit assume "wit \<in> set ws"
    then have "wit_logKeyHash wit \<in> set (map wit_logKeyHash ws)" by simp
    then show "wit_logKeyHash wit = kh" unfolding k(2) by auto
  qed
  then show "\<exists>ws :: 'w witness list. map wit_pubKey ws = map ent_PublicKey entities \<and> (\<forall>wit \<in> set ws. wit_logKeyHash wit = kh)
      \<and> collects wp ws sth (snd (re_getCosignatures env sth w))"
    using ws(2) k(1) by blast
qed

lemma round_collects_verified:
  fixes env :: "'w round_env"
  assumes "round_collects wp pubs kh env"
  shows "cosigned_ok wp pubs kh \<lparr>cth_SignedTreeHead = sth, cth_Cosignatures = snd (re_getCosignatures env sth w)\<rparr>"
proof -
  obtain ws :: "'w witness list" where ws: "map wit_pubKey ws = pubs" "\<forall>wit \<in> set ws. wit_logKeyHash wit = kh"
      "collects wp ws sth (snd (re_getCosignatures env sth w))"
    using assms unfolding round_collects_def by blast
  show ?thesis
    unfolding cosigned_ok_def
  proof
    fix cs assume "cs \<in> set (cth_Cosignatures \<lparr>cth_SignedTreeHead = sth, cth_Cosignatures = snd (re_getCosignatures env sth w)\<rparr>)"
    then have "cs \<in> set (snd (re_getCosignatures env sth w))" by simp
    from collects_verified [OF ws(3) this] obtain wit where "wit \<in> set ws"
        "cs_Verify wp cs (wit_pubKey wit) (wit_logKeyHash wit) (sth_TreeHead sth)" by blast
    then show "\<exists>pub \<in> set pubs. cs_Verify wp cs pub kh (sth_TreeHead (cth_SignedTreeHead
        \<lparr>cth_SignedTreeHead = sth, cth_Cosignatures = snd (re_getCosignatures env sth w)\<rparr>))"
      using ws(1,2) by auto
  qed
qed

lemma run_round_cosigned:
  assumes "run_round sp pv env (sm, fs, w) = Ok (sm', fs', w')"
  shows "sm_cosignedTreeHead sm' = sm_cosignedTreeHead sm
    \<or> (\<exists>sth w1. sm_cosignedTreeHead sm' = \<lparr>cth_SignedTreeHead = sth, cth_Cosignatures = snd (re_getCosignatures env sth w1)\<rparr>)"
proof -
  obtain w1 th where th: "next_tree_head sp pv sm w = (w1, Ok th)"
    using assms by (auto simp: run_round_def split: prod.splits result.splits)
  obtain sm1 fs1 r where sg: "signTreeHead sp (re_safefile env) (re_sign env) th sm fs = (sm1, fs1, r)" by (metis prod_cases3)
  have "sm_cosignedTreeHead sm1 = sm_cosignedTreeHead sm"
    using sg by (auto simp: signTreeHead_def split: result.splits prod.splits if_splits)
  then show ?thesis
    using assms th rotate_after_sign [OF sg] by (cases r) (auto simp: run_round_def)
qed

lemma Run_cosigned_ok:
  assumes "list_all (round_collects wp pubs kh) envs" and "cosigned_ok wp pubs kh (sm_cosignedTreeHead sm)"
    and "Run sp pv envs (sm, fs, w) = Ok (sm', fs', w')"
  shows "cosigned_ok wp pubs kh (sm_cosignedTreeHead sm')"
  using assms
proof (induction envs arbitrary: sm fs w)
  case (Cons env envs)
  then obtain sm1 fs1 w1 where 1: "run_round sp pv env (sm, fs, w) = Ok (sm1, fs1, w1)"
      "Run sp pv envs (sm1, fs1, w1) = Ok (sm', fs', w')"
    by (auto simp: outcome_simps)
  have "cosigned_ok wp pubs kh (sm_cosignedTreeHead sm1)"
    using run_round_cosigned [OF 1(1)] Cons.prems(1,2) round_collects_verified [of wp pubs kh env] by auto
  then show ?case using Cons.IH [OF _ _ 1(2)] Cons.prems(1) by simp
qed simp

text \<open>
  C6: Every cosignature that the log publishes is verified.  Start the state manager in any of its
  ways, run any number of rounds, with cosignatures collected from the configured witnesses, which may answer
  anything: each cosignature in the published cosigned tree head verifies under the key of a
  configured witness, for this log's key hash and exactly the tree head it is published with.
\<close>

theorem published_cosignatures_verified:
  assumes "NewStateManagerSingle H sp sf flt sign pub rs name fs0 w0 = (fs, w, Ok sm)"
    and "list_all (round_collects wp pubs (sm_keyHash sm)) envs"
    and "Run sp pv envs (sm, fs, w) = Ok (sm', fs', w')"
  shows "cosigned_ok wp pubs (H pub) (CosignedTreeHead_of sm')"
proof -
  obtain sth where "sm = new_manager H pub \<lparr>sth_name = name\<rparr> rs sth"
    using NewStateManagerSingle_manager [OF assms(1)] by blast
  then have "cosigned_ok wp pubs (H pub) (sm_cosignedTreeHead sm)" "sm_keyHash sm = H pub"
    by (simp_all add: new_manager_def cosigned_ok_def)
  then show ?thesis using Run_cosigned_ok assms(2,3) by (simp add: CosignedTreeHead_of_def)
qed

section \<open>A concrete witness\<close>

definition sample_cosign_pkg :: witness_pkg where
  "sample_cosign_pkg = \<lparr>cs_Verify = (\<lambda>cs pub kh th. cs_KeyHash cs = pub \<and> cs_Signature cs = kh @ RootHash th),
     is_Conflict = (\<lambda>e. e = ApiErrConflict)\<rparr>"

definition sample_cosign :: "hash \<Rightarrow> SignedTreeHead \<Rightarrow> Cosignature" where
  "sample_cosign kh sth = \<lparr>cs_KeyHash = ''w'', cs_Timestamp = 0, cs_Signature = kh @ RootHash (sth_TreeHead sth)\<rparr>"

definition sample_policy :: "Entity list" where
  "sample_policy = [\<lparr>ent_URL = ''https://witness.example.org'', ent_PublicKey = ''w''\<rparr>]"

definition sample_dial :: "string \<Rightarrow> unit witness_client" where
  "sample_dial url = \<lparr>wc_AddTreeHead = (\<lambda>req w. (w, Ok (sample_cosign (at_KeyHash req) (at_TreeHead req)))),
     wc_GetTreeSize = (\<lambda>kh w. (w, Ok 0))\<rparr>"

definition sample_collector :: "hash \<Rightarrow> unit CosignatureCollector" where
  "sample_collector kh = NewCosignatureCollector sample_dial kh sample_policy (\<lambda>req w. (w, Ok \<lparr>cp_Path = []\<rparr>))"

definition sample_cosigner :: "hash \<Rightarrow> unit witness" where
  "sample_cosigner kh = newWitness sample_dial (hd sample_policy) kh (\<lambda>req w. (w, Ok \<lparr>cp_Path = []\<rparr>))"

definition sample_cosign_env :: "unit round_env" where
  "sample_cosign_env = sample_env\<lparr>re_getCosignatures := \<lambda>sth w. (w, [sample_cosign (copy_array 32 ''key'') sth])\<rparr>"

lemma sample_collector_witnesses: "col_witnesses (sample_collector kh) = [sample_cosigner kh]"
  by (simp add: sample_collector_def sample_cosigner_def NewCosignatureCollector_def sample_policy_def)

lemma sample_collects:
  "collects sample_cosign_pkg [sample_cosigner kh] sth [sample_cosign kh sth]"
proof -
  let ?c = "sample_cosign kh sth" and ?s = "\<lambda>g n c cs r. \<lparr>cl_routines = [g], cl_wg = n, cl_closed = c, cl_cosignatures = cs, cl_returned = r\<rparr>"
  let ?outs = "[Ok (sample_cosign kh sth)]"
  have "collector_reach ?outs (?s Querying 1 False [] False)"
    using reach_init [of ?outs] by (simp add: collector_init_def)
  then have "collector_reach ?outs (?s (Sending ?c) 1 False [] False)"
    using reach_step query_ok [of 0 "?s Querying 1 False [] False" ?outs ?c] by fastforce
  then have "collector_reach ?outs (?s Finished 0 False [?c] False)"
    using reach_step send [of 0 "?s (Sending ?c) 1 False [] False" ?c ?outs] by fastforce
  then have "collector_reach ?outs (?s Finished 0 True [?c] False)"
    using reach_step close [of "?s Finished 0 False [?c] False" ?outs] by fastforce
  then have "collector_reach ?outs (?s Finished 0 True [?c] True)"
    using reach_step return [of "?s Finished 0 True [?c] False" ?outs] by fastforce
  moreover have "cosignature_round sample_cosign_pkg sth (sample_cosigner kh) ()
      = ((sample_cosigner kh)\<lparr>wit_prevSize := sth_Size sth\<rparr>, (), Return (Ok ?c))"
    by (simp add: cosignature_round_def sample_cosigner_def newWitness_def sample_dial_def sample_policy_def sample_cosign_pkg_def
        sample_cosign_def)
  then have "\<exists>w w' wit'. getCosignature sample_cosign_pkg sth (sample_cosigner kh) w = Some (wit', w', Ok ?c)"
    using getCosignature_Return by metis
  ultimately show ?thesis
    unfolding collects_def by (intro exI [of _ ?outs] exI [of _ "?s Finished 0 True [?c] True"]) auto
qed

theorem published_cosignatures_verified_witness:
  "cs_Verify sample_cosign_pkg (sample_cosign (copy_array 32 ''key'') (sample_sth 5)) ''w'' (copy_array 32 ''key'') (sample_head 5)"
proof -
  let ?m = "new_manager (copy_array 32) ''key'' \<lparr>sth_name = ''sth''\<rparr> sample_replication (sample_sth 2)"
  have start: "NewStateManagerSingle (copy_array 32) sample_sth_pkg sample_safefile no_faults (sample_sign ''key'') ''key''
      sample_replication ''sth'' sample_disk () = (sample_disk, (), Ok ?m)"
    using sample_stored
    by (simp add: NewStateManagerSingle_def Let_def sthFile_Startup_def os_Open_def no_faults_def stored_sth_def sthFile_Load_def
        sample_disk_def startupFileName_def StartupFileSuffix_def sample_sth_def) (simp add: sample_sth_pkg_def)
  have env: "round_collects sample_cosign_pkg [''w''] (sm_keyHash ?m) sample_cosign_env"
  proof -
    have "collector_evolves sample_cosign_pkg (col_witnesses (sample_collector (sm_keyHash ?m))) [sample_cosigner (sm_keyHash ?m)]
        \<and> collects sample_cosign_pkg [sample_cosigner (sm_keyHash ?m)] sth (snd (re_getCosignatures sample_cosign_env sth w))" for sth w
      by (simp add: sample_collector_witnesses evolves_refl sample_collects sample_cosign_env_def new_manager_def)
    then show ?thesis
      using collector_round_collects [of sample_cosign_pkg sample_dial "sm_keyHash ?m" sample_policy _ sample_cosign_env]
      unfolding sample_collector_def by (simp add: sample_policy_def) blast
  qed
  obtain fs' where run: "Run sample_sth_pkg (\<lambda>_ _ _. None) [sample_cosign_env] (?m, sample_disk, ())
      = Ok (?m\<lparr>sm_signedTreeHead := sample_sth 5, sm_cosignedTreeHead := \<lparr>cth_SignedTreeHead = sample_sth 5,
          cth_Cosignatures = [sample_cosign (copy_array 32 ''key'') (sample_sth 5)]\<rparr>\<rparr>, fs', ())"
    by (simp add: run_round_def next_tree_head_def ReplicatedTreeHead_def getPrimaryTreeHead_def sample_replication_def new_manager_def
        SignedTreeHead_of_def sm_rotate_def signTreeHead_def sample_cosign_env_def sample_env_def sample_sign_def sthFile_Store_def
        sample_safefile_def sample_sth_def sample_head_def word_less_nat_alt)
  show ?thesis
    using published_cosignatures_verified [OF start _ run, of sample_cosign_pkg "[''w'']"] env
    by (simp add: CosignedTreeHead_of_def cosigned_ok_def sample_sth_def)
qed

end
