(* ===== verification/Server_Config.thy ===== *)
theory Server_Config
  imports Sth_File
begin

text \<open>
  Configuration of the programs (\<open>internal/config/config.go\<close> and the flag parsing of the
  \<open>main\<close> packages): the default values, the configuration file, and the command line that
  overrides it.  The TOML decoder and the option parser are code outside of this repository that
  writes to the fields of the configuration; which field a keyword or a flag stands for is fixed by
  the struct tags and the \<open>FlagLong\<close> calls, the tables below.
\<close>

section \<open>The configuration\<close>

record PrimaryConfig =
  PolicyFile :: string
  RateLimitFile :: string
  AllowTestDomain :: bool
  SecondaryURL :: string
  SecondaryPubkeyFile :: string
  SthFile :: string
  cfg_MaxRange :: i64

record SecondaryConfig =
  PrimaryURL :: string

record ServerConfig =
  Prefix :: string
  Timeout :: time
  Interval :: time
  LogFile :: string
  LogLevel :: string
  ExternalEndpoint :: string
  InternalEndpoint :: string
  TrillianRpcServer :: string
  Backend :: string
  TrillianTreeIDFile :: string
  KeyFile :: string
  cfg_Primary :: PrimaryConfig
  cfg_Secondary :: SecondaryConfig

abbreviation (input) time_Second :: time where "time_Second \<equiv> 1000000000"

definition NewConfig :: ServerConfig where
  "NewConfig = \<lparr>
     Prefix = '''', Timeout = time_Second * 10, Interval = time_Second * 30,
     LogFile = '''', LogLevel = ''info'',
     ExternalEndpoint = ''localhost:6965'', InternalEndpoint = ''localhost:6967'',
     TrillianRpcServer = ''localhost:6962'', Backend = ''trillian'',
     TrillianTreeIDFile = ''/var/lib/sigsum-log/tree-id'', KeyFile = '''',
     cfg_Primary = \<lparr>PolicyFile = '''', RateLimitFile = '''', AllowTestDomain = False, SecondaryURL = '''',
       SecondaryPubkeyFile = '''', SthFile = ''/var/lib/sigsum-log/sth'', cfg_MaxRange = 10\<rparr>,
     cfg_Secondary = \<lparr>PrimaryURL = ''''\<rparr>\<rparr>"

section \<open>Fields by name\<close>

datatype conf_value = VString string | VBool bool | VInt i64 | VDuration time

datatype field =
    F_Prefix | F_Timeout | F_Interval | F_LogFile | F_LogLevel | F_ExternalEndpoint | F_InternalEndpoint
  | F_TrillianRpcServer | F_Backend | F_TrillianTreeIDFile | F_KeyFile
  | F_PolicyFile | F_RateLimitFile | F_AllowTestDomain | F_SecondaryURL | F_SecondaryPubkeyFile | F_SthFile | F_MaxRange
  | F_PrimaryURL

fun get_field :: "field \<Rightarrow> ServerConfig \<Rightarrow> conf_value" where
  "get_field F_Prefix c = VString (Prefix c)"
| "get_field F_Timeout c = VDuration (Timeout c)"
| "get_field F_Interval c = VDuration (Interval c)"
| "get_field F_LogFile c = VString (LogFile c)"
| "get_field F_LogLevel c = VString (LogLevel c)"
| "get_field F_ExternalEndpoint c = VString (ExternalEndpoint c)"
| "get_field F_InternalEndpoint c = VString (InternalEndpoint c)"
| "get_field F_TrillianRpcServer c = VString (TrillianRpcServer c)"
| "get_field F_Backend c = VString (Backend c)"
| "get_field F_TrillianTreeIDFile c = VString (TrillianTreeIDFile c)"
| "get_field F_KeyFile c = VString (KeyFile c)"
| "get_field F_PolicyFile c = VString (PolicyFile (cfg_Primary c))"
| "get_field F_RateLimitFile c = VString (RateLimitFile (cfg_Primary c))"
| "get_field F_AllowTestDomain c = VBool (AllowTestDomain (cfg_Primary c))"
| "get_field F_SecondaryURL c = VString (SecondaryURL (cfg_Primary c))"
| "get_field F_SecondaryPubkeyFile c = VString (SecondaryPubkeyFile (cfg_Primary c))"
| "get_field F_SthFile c = VString (SthFile (cfg_Primary c))"
| "get_field F_MaxRange c = VInt (cfg_MaxRange (cfg_Primary c))"
| "get_field F_PrimaryURL c = VString (PrimaryURL (cfg_Secondary c))"

fun set_field :: "field \<Rightarrow> conf_value \<Rightarrow> ServerConfig \<Rightarrow> ServerConfig option" where
  \<comment> \<open>a value of another type cannot be written\<close>
  "set_field f (VString v) c = (case f of
       F_Prefix \<Rightarrow> Some (c\<lparr>Prefix := v\<rparr>)
    | F_LogFile \<Rightarrow> Some (c\<lparr>LogFile := v\<rparr>)
    | F_LogLevel \<Rightarrow> Some (c\<lparr>LogLevel := v\<rparr>)
    | F_ExternalEndpoint \<Rightarrow> Some (c\<lparr>ExternalEndpoint := v\<rparr>)
    | F_InternalEndpoint \<Rightarrow> Some (c\<lparr>InternalEndpoint := v\<rparr>)
    | F_TrillianRpcServer \<Rightarrow> Some (c\<lparr>TrillianRpcServer := v\<rparr>)
    | F_Backend \<Rightarrow> Some (c\<lparr>Backend := v\<rparr>)
    | F_TrillianTreeIDFile \<Rightarrow> Some (c\<lparr>TrillianTreeIDFile := v\<rparr>)
    | F_KeyFile \<Rightarrow> Some (c\<lparr>KeyFile := v\<rparr>)
    | F_PolicyFile \<Rightarrow> Some (c\<lparr>cfg_Primary := (cfg_Primary c)\<lparr>PolicyFile := v\<rparr>\<rparr>)
    | F_RateLimitFile \<Rightarrow> Some (c\<lparr>cfg_Primary := (cfg_Primary c)\<lparr>RateLimitFile := v\<rparr>\<rparr>)
    | F_SecondaryURL \<Rightarrow> Some (c\<lparr>cfg_Primary := (cfg_Primary c)\<lparr>SecondaryURL := v\<rparr>\<rparr>)
    | F_SecondaryPubkeyFile \<Rightarrow> Some (c\<lparr>cfg_Primary := (cfg_Primary c)\<lparr>SecondaryPubkeyFile := v\<rparr>\<rparr>)
    | F_SthFile \<Rightarrow> Some (c\<lparr>cfg_Primary := (cfg_Primary c)\<lparr>SthFile := v\<rparr>\<rparr>)
    | F_PrimaryURL \<Rightarrow> Some (c\<lparr>cfg_Secondary := \<lparr>PrimaryURL = v\<rparr>\<rparr>)
    | _ \<Rightarrow> None)"
| "set_field f (VBool b) c = (case f of
       F_AllowTestDomain \<Rightarrow> Some (c\<lparr>cfg_Primary := (cfg_Primary c)\<lparr>AllowTestDomain := b\<rparr>\<rparr>)
     | _ \<Rightarrow> None)"
| "set_field f (VInt i) c = (case f of
       F_MaxRange \<Rightarrow> Some (c\<lparr>cfg_Primary := (cfg_Primary c)\<lparr>cfg_MaxRange := i\<rparr>\<rparr>)
     | _ \<Rightarrow> None)"
| "set_field f (VDuration t) c = (case f of
       F_Timeout \<Rightarrow> Some (c\<lparr>Timeout := t\<rparr>)
     | F_Interval \<Rightarrow> Some (c\<lparr>Interval := t\<rparr>)
     | _ \<Rightarrow> None)"

definition toml_tags :: "(string list \<times> field) list" where
  \<comment> \<open>the \<open>toml\<close> tags of the structs; those of the embedded structs are tables of their own\<close>
  "toml_tags =
     [([''url-prefix''], F_Prefix), ([''timeout''], F_Timeout), ([''interval''], F_Interval),
      ([''log-file''], F_LogFile), ([''log-level''], F_LogLevel),
      ([''external-endpoint''], F_ExternalEndpoint), ([''internal-endpoint''], F_InternalEndpoint),
      ([''trillian-rpc-server''], F_TrillianRpcServer), ([''backend''], F_Backend),
      ([''trillian-tree-id-file''], F_TrillianTreeIDFile), ([''key-file''], F_KeyFile),
      ([''primary'', ''policy-file''], F_PolicyFile), ([''primary'', ''rate-limit-file''], F_RateLimitFile),
      ([''primary'', ''allow-test-domain''], F_AllowTestDomain), ([''primary'', ''secondary-url''], F_SecondaryURL),
      ([''primary'', ''secondary-pubkey-file''], F_SecondaryPubkeyFile), ([''primary'', ''sth-file''], F_SthFile),
      ([''primary'', ''max-range''], F_MaxRange), ([''secondary'', ''primary-url''], F_PrimaryURL)]"

definition ServerFlags :: "(string \<times> field) list" where
  "ServerFlags =
     [(''external-endpoint'', F_ExternalEndpoint), (''internal-endpoint'', F_InternalEndpoint),
      (''trillian-rpc-server'', F_TrillianRpcServer), (''backend'', F_Backend), (''url-prefix'', F_Prefix),
      (''trillian-tree-id-file'', F_TrillianTreeIDFile), (''timeout'', F_Timeout), (''key-file'', F_KeyFile),
      (''interval'', F_Interval), (''log-file'', F_LogFile), (''log-level'', F_LogLevel), (''max-range'', F_MaxRange)]"

definition primary_ParseFlags :: "(string \<times> field) list" where
  "primary_ParseFlags =
     [(''policy-file'', F_PolicyFile), (''rate-limit-file'', F_RateLimitFile), (''allow-test-domain'', F_AllowTestDomain),
      (''secondary-url'', F_SecondaryURL), (''secondary-pubkey-file'', F_SecondaryPubkeyFile), (''sth-file'', F_SthFile)]"

definition secondary_ParseFlags :: "(string \<times> field) list" where
  "secondary_ParseFlags = [(''primary-url'', F_PrimaryURL)]"

section \<open>Reading it\<close>

type_synonym toml_decoder = "bytes \<Rightarrow> ServerConfig \<Rightarrow> (ServerConfig \<times> string list list) result"
  \<comment> \<open>\<open>toml.NewDecoder(f).Decode(&conf)\<close> with \<open>metadata.Undecoded()\<close>\<close>

definition LoadConfig :: "toml_decoder \<Rightarrow> bytes \<Rightarrow> ServerConfig result" where
  "LoadConfig decode f =
     (let conf = NewConfig in
      case decode f conf of
        Err e \<Rightarrow> Err e
      | Panic m \<Rightarrow> Panic m
      | Ok (conf, undecoded) \<Rightarrow>
          if undecoded \<noteq> [] then Err (Errorf ''unknown keywords'') else Ok conf)"

definition OpenConfigFile :: "os_faults \<Rightarrow> fsys \<Rightarrow> string option \<Rightarrow> bytes result" where
  \<comment> \<open>the environment variable \<open>SIGSUM_LOGSERVER_CONFIG\<close>, if it is set\<close>
  "OpenConfigFile flt fs env =
     (case env of
        Some conf \<Rightarrow> os_Open flt fs conf
      | None \<Rightarrow> os_Open flt fs ''/etc/sigsum/config.toml'')"

type_synonym opt_parser = "(string \<times> field) list \<Rightarrow> string list \<Rightarrow> ServerConfig \<Rightarrow> ServerConfig result"
  \<comment> \<open>\<open>getopt.Parse\<close> for the registered flags; a bad command line or \<open>--help\<close> ends the program\<close>

definition file_config :: "toml_decoder \<Rightarrow> os_faults \<Rightarrow> fsys \<Rightarrow> string option \<Rightarrow> ServerConfig result" where
  \<comment> \<open>the first part of each \<open>main\<close>\<close>
  "file_config decode flt fs env =
     (case OpenConfigFile flt fs env of
        Err e \<Rightarrow> Ok NewConfig
      | Panic m \<Rightarrow> Panic m
      | Ok confFile \<Rightarrow>
          (case LoadConfig decode confFile of
             Err e \<Rightarrow> Err (Errorf ''failed to parse config file'')
           | r \<Rightarrow> r))"

definition primary_config :: "toml_decoder \<Rightarrow> opt_parser \<Rightarrow> os_faults \<Rightarrow> fsys \<Rightarrow> string option \<Rightarrow> string list \<Rightarrow> ServerConfig result" where
  "primary_config decode getopt flt fs env argv =
     bind_result (file_config decode flt fs env) (getopt (ServerFlags @ primary_ParseFlags) argv)"

definition secondary_config :: "toml_decoder \<Rightarrow> opt_parser \<Rightarrow> os_faults \<Rightarrow> fsys \<Rightarrow> string option \<Rightarrow> string list \<Rightarrow> ServerConfig result" where
  "secondary_config decode getopt flt fs env argv =
     bind_result (file_config decode flt fs env) (getopt (ServerFlags @ secondary_ParseFlags) argv)"

section \<open>Writing fields in sequence\<close>

fun write_fields :: "(field \<times> conf_value) list \<Rightarrow> ServerConfig \<Rightarrow> ServerConfig option" where
  "write_fields [] c = Some c"
| "write_fields ((f, v) # ws) c = (case set_field f v c of None \<Rightarrow> None | Some c' \<Rightarrow> write_fields ws c')"

definition last_write :: "(field \<times> conf_value) list \<Rightarrow> field \<Rightarrow> conf_value \<Rightarrow> conf_value" where
  "last_write ws f v = (case map_of (rev ws) f of Some v' \<Rightarrow> v' | None \<Rightarrow> v)"

lemma set_field_get:
  assumes "set_field f v c = Some c'"
  shows "get_field g c' = (if g = f then v else get_field g c)"
proof -
  have "get_field f c' = v"
    using assms by (cases v; cases f) auto
  moreover have "get_field g c' = get_field g c" if "g \<noteq> f"
    using assms that by (cases v; cases f) (cases g; auto)+
  ultimately show ?thesis by simp
qed

lemma write_fields_get:
  "write_fields ws c = Some c' \<Longrightarrow> get_field f c' = last_write ws f (get_field f c)"
proof (induction ws c rule: write_fields.induct)
  case (2 g v ws c)
  then show ?case
    by (auto simp: set_field_get last_write_def map_add_def split: option.splits)
qed (simp add: last_write_def)

section \<open>What the packages do\<close>

text \<open>
  \<open>parse\<close> gives the leaf keys of a TOML document, in the spelling of the tag that they match,
  with their values; \<open>args\<close> gives the flags on a command line.  The decoder writes the known keys
  and lists the others, the option parser writes the flags in the order of the command line.
\<close>

definition toml_writes :: "(string list \<times> conf_value) list \<Rightarrow> (field \<times> conf_value) list" where
  "toml_writes doc = List.map_filter (\<lambda>(k, v). map_option (\<lambda>f. (f, v)) (map_of toml_tags k)) doc"

definition toml_unknown :: "(string list \<times> conf_value) list \<Rightarrow> string list list" where
  "toml_unknown doc = filter (\<lambda>k. map_of toml_tags k = None) (map fst doc)"

definition toml_ok :: "toml_decoder \<Rightarrow> (bytes \<Rightarrow> (string list \<times> conf_value) list option) \<Rightarrow> bool" where
  "toml_ok decode parse \<longleftrightarrow> (\<forall>f c.
     case parse f of
       None \<Rightarrow> \<exists>e. decode f c = Err e
     | Some doc \<Rightarrow>
         (case write_fields (toml_writes doc) c of
            None \<Rightarrow> \<exists>e. decode f c = Err e
          | Some c' \<Rightarrow> decode f c = Ok (c', toml_unknown doc)))"

definition flag_writes :: "(string \<times> field) list \<Rightarrow> (string \<times> conf_value) list \<Rightarrow> (field \<times> conf_value) list" where
  "flag_writes tbl opts = List.map_filter (\<lambda>(n, v). map_option (\<lambda>f. (f, v)) (map_of tbl n)) opts"

definition getopt_ok :: "opt_parser \<Rightarrow> ((string \<times> field) list \<Rightarrow> string list \<Rightarrow> (string \<times> conf_value) list option) \<Rightarrow> bool" where
  "getopt_ok getopt args \<longleftrightarrow> (\<forall>tbl argv c.
     case args tbl argv of
       None \<Rightarrow> \<exists>e. getopt tbl argv c = Err e
     | Some opts \<Rightarrow> (\<forall>n \<in> set (map fst opts). map_of tbl n \<noteq> None) \<and>
         (case write_fields (flag_writes tbl opts) c of
            None \<Rightarrow> \<exists>e. getopt tbl argv c = Err e
          | Some c' \<Rightarrow> getopt tbl argv c = Ok c'))"

lemma toml_ok_Ok:
  assumes "toml_ok decode parse" and "decode f c = Ok (c', unknown)"
  obtains doc where "parse f = Some doc" "write_fields (toml_writes doc) c = Some c'" "unknown = toml_unknown doc"
proof -
  have law: "case parse f of None \<Rightarrow> \<exists>e. decode f c = Err e
     | Some doc \<Rightarrow> (case write_fields (toml_writes doc) c of
            None \<Rightarrow> \<exists>e. decode f c = Err e | Some c' \<Rightarrow> decode f c = Ok (c', toml_unknown doc))"
    using assms(1) by (simp add: toml_ok_def)
  show ?thesis
    using law assms(2) that by (auto split: option.splits)
qed

lemma toml_ok_not_panic:
  assumes "toml_ok decode parse"
  shows "\<not> is_panic (decode f c)"
proof -
  have law: "case parse f of None \<Rightarrow> \<exists>e. decode f c = Err e
     | Some doc \<Rightarrow> (case write_fields (toml_writes doc) c of
            None \<Rightarrow> \<exists>e. decode f c = Err e | Some c' \<Rightarrow> decode f c = Ok (c', toml_unknown doc))"
    using assms by (simp add: toml_ok_def)
  then show ?thesis by (auto split: option.splits)
qed

lemma getopt_ok_Ok:
  assumes "getopt_ok getopt args" and "getopt tbl argv c = Ok c'"
  obtains opts where "args tbl argv = Some opts" "write_fields (flag_writes tbl opts) c = Some c'"
proof -
  have law: "case args tbl argv of None \<Rightarrow> \<exists>e. getopt tbl argv c = Err e
     | Some opts \<Rightarrow> (\<forall>n \<in> set (map fst opts). map_of tbl n \<noteq> None) \<and>
         (case write_fields (flag_writes tbl opts) c of
            None \<Rightarrow> \<exists>e. getopt tbl argv c = Err e | Some c' \<Rightarrow> getopt tbl argv c = Ok c')"
    using assms(1) by (simp add: getopt_ok_def)
  show ?thesis
    using law assms(2) that by (auto split: option.splits)
qed

lemma LoadConfig_Ok:
  assumes "toml_ok decode parse" and "LoadConfig decode f = Ok c"
  obtains doc where "parse f = Some doc" "toml_unknown doc = []"
    "\<And>g. get_field g c = last_write (toml_writes doc) g (get_field g NewConfig)"
proof -
  have d: "decode f NewConfig = Ok (c, [])"
    using assms(2) by (auto simp: LoadConfig_def Let_def split: result.splits if_splits)
  show ?thesis
    using toml_ok_Ok [OF assms(1) d] that write_fields_get by metis
qed

section \<open>Effective configuration\<close>

definition file_value :: "(bytes \<Rightarrow> (string list \<times> conf_value) list option) \<Rightarrow> bytes result \<Rightarrow> field \<Rightarrow> conf_value" where
  \<comment> \<open>the value of a field after the configuration file, if one could be opened\<close>
  "file_value parse opened f =
     (case opened of
        Ok data \<Rightarrow> last_write (toml_writes (case parse data of Some doc \<Rightarrow> doc | None \<Rightarrow> [])) f (get_field f NewConfig)
      | _ \<Rightarrow> get_field f NewConfig)"

lemma file_config_value:
  assumes "toml_ok decode parse" and "file_config decode flt fs env = Ok c"
  shows "get_field f c = file_value parse (OpenConfigFile flt fs env) f"
proof (cases "OpenConfigFile flt fs env")
  case (Ok data)
  then have "LoadConfig decode data = Ok c"
    using assms(2) by (auto simp: file_config_def split: result.splits)
  from LoadConfig_Ok [OF assms(1) this] obtain doc where "parse data = Some doc"
      "\<And>g. get_field g c = last_write (toml_writes doc) g (get_field g NewConfig)" by metis
  then show ?thesis using Ok by (simp add: file_value_def)
qed (use assms(2) in \<open>auto simp: file_config_def file_value_def\<close>)

text \<open>
  C35: Which value each setting of the primary has.  The last flag on the command line decides; without a flag
  the entry of the configuration file; without an entry, or when no configuration file can be opened, the
  default of \<open>NewConfig\<close>.  The primary only starts when the file has no other entries.
\<close>

theorem primary_config_precedence:
  assumes "toml_ok decode parse" and "getopt_ok getopt args"
    and "primary_config decode getopt flt fs env argv = Ok conf"
  shows "\<exists>opts. args (ServerFlags @ primary_ParseFlags) argv = Some opts
    \<and> (\<forall>f. get_field f conf =
          last_write (flag_writes (ServerFlags @ primary_ParseFlags) opts) f (file_value parse (OpenConfigFile flt fs env) f))
    \<and> (\<forall>data. OpenConfigFile flt fs env = Ok data \<longrightarrow> (\<exists>doc. parse data = Some doc \<and> toml_unknown doc = []))"
proof -
  obtain c where c: "file_config decode flt fs env = Ok c" "getopt (ServerFlags @ primary_ParseFlags) argv c = Ok conf"
    using assms(3) by (auto simp: primary_config_def bind_result_Ok_iff)
  obtain opts where "args (ServerFlags @ primary_ParseFlags) argv = Some opts"
      "write_fields (flag_writes (ServerFlags @ primary_ParseFlags) opts) c = Some conf"
    using getopt_ok_Ok [OF assms(2) c(2)] .
  moreover have "\<exists>doc. parse data = Some doc \<and> toml_unknown doc = []" if "OpenConfigFile flt fs env = Ok data" for data
  proof -
    have "LoadConfig decode data = Ok c" using c(1) that by (auto simp: file_config_def split: result.splits)
    then show ?thesis using LoadConfig_Ok [OF assms(1)] by metis
  qed
  ultimately show ?thesis
    using write_fields_get file_config_value [OF assms(1) c(1)] by (metis (no_types, lifting))
qed

text \<open>
  A configuration file with a keyword that no struct tag names stops all programs, whatever the rest
  of the file and the command line say.
\<close>

theorem unknown_keyword_refused:
  assumes "toml_ok decode parse" and "OpenConfigFile flt fs env = Ok data" and "parse data = Some doc"
    and "k \<in> set (map fst doc)" and "map_of toml_tags k = None"
  shows "file_config decode flt fs env = Err (Errorf ''failed to parse config file'')
    \<and> primary_config decode getopt flt fs env argv = Err (Errorf ''failed to parse config file'')
    \<and> secondary_config decode getopt flt fs env argv = Err (Errorf ''failed to parse config file'')"
proof -
  have "toml_unknown doc \<noteq> []" using assms(4,5) by (auto simp: toml_unknown_def filter_empty_conv)
  then have no: "LoadConfig decode data \<noteq> Ok c" for c using LoadConfig_Ok [OF assms(1)] assms(3) by (metis option.inject)
  have "\<not> is_panic (decode data NewConfig)"
    using toml_ok_not_panic [OF assms(1)] .
  then have "\<not> is_panic (LoadConfig decode data)"
    by (auto simp: LoadConfig_def Let_def split: result.splits prod.splits)
  then have "file_config decode flt fs env = Err (Errorf ''failed to parse config file'')"
    using no assms(2) by (cases "LoadConfig decode data") (auto simp: file_config_def)
  then show ?thesis by (simp add: primary_config_def secondary_config_def)
qed

section \<open>Concrete inputs\<close>

definition sample_toml :: "(bytes \<Rightarrow> (string list \<times> conf_value) list option) \<Rightarrow> toml_decoder" where
  "sample_toml parse f c =
     (case parse f of
        None \<Rightarrow> Err (ExtError ''toml'')
      | Some doc \<Rightarrow>
          (case write_fields (toml_writes doc) c of
             None \<Rightarrow> Err (ExtError ''toml'') | Some c' \<Rightarrow> Ok (c', toml_unknown doc)))"

definition sample_getopt :: "((string \<times> field) list \<Rightarrow> string list \<Rightarrow> (string \<times> conf_value) list option) \<Rightarrow> opt_parser" where
  "sample_getopt args tbl argv c =
     (case args tbl argv of
        None \<Rightarrow> Err (ExtError ''usage'')
      | Some opts \<Rightarrow> (case write_fields (flag_writes tbl opts) c of None \<Rightarrow> Err (ExtError ''usage'') | Some c' \<Rightarrow> Ok c'))"

lemma sample_toml_ok: "toml_ok (sample_toml parse) parse"
  by (auto simp: toml_ok_def sample_toml_def split: option.splits)

lemma sample_getopt_ok:
  assumes "\<And>tbl argv opts n. args tbl argv = Some opts \<Longrightarrow> n \<in> set (map fst opts) \<Longrightarrow> map_of tbl n \<noteq> None"
  shows "getopt_ok (sample_getopt args) args"
  using assms by (fastforce simp: getopt_ok_def sample_getopt_def split: option.splits)

definition sample_doc :: "bytes \<Rightarrow> (string list \<times> conf_value) list option" where
  "sample_doc f = (if f = ''good'' then Some [([''backend''], VString ''ephemeral''), ([''primary'', ''max-range''], VInt 7)]
     else if f = ''example'' then Some [([''backend''], VString ''ephemeral''), ([''tree-id-file''], VString ''id'')] else None)"

definition sample_args :: "(string \<times> field) list \<Rightarrow> string list \<Rightarrow> (string \<times> conf_value) list option" where
  "sample_args tbl argv = (if argv = [''--max-range=5''] \<and> map_of tbl ''max-range'' \<noteq> None then Some [(''max-range'', VInt 5)] else None)"

lemma sample_args_ok: "getopt_ok (sample_getopt sample_args) sample_args"
  by (rule sample_getopt_ok) (auto simp: sample_args_def split: if_splits)

definition sample_conf :: ServerConfig where
  "sample_conf = NewConfig\<lparr>Backend := ''ephemeral'', cfg_Primary := (cfg_Primary NewConfig)\<lparr>cfg_MaxRange := 5\<rparr>\<rparr>"

lemma sample_primary_config:
  "primary_config (sample_toml sample_doc) (sample_getopt sample_args) no_faults [''/c'' \<mapsto> ''good''] (Some ''/c'') [''--max-range=5'']
   = Ok sample_conf"
  by (simp add: primary_config_def file_config_def OpenConfigFile_def os_Open_def no_faults_def LoadConfig_def sample_toml_def
      sample_doc_def toml_writes_def toml_unknown_def toml_tags_def List.map_filter_simps sample_getopt_def sample_args_def
      ServerFlags_def primary_ParseFlags_def flag_writes_def sample_conf_def)

theorem primary_config_precedence_witness:
  "get_field F_MaxRange sample_conf = VInt 5 \<and> get_field F_Backend sample_conf = VString ''ephemeral''
   \<and> get_field F_LogLevel sample_conf = VString ''info''"
proof -
  have args: "sample_args (ServerFlags @ primary_ParseFlags) [''--max-range=5''] = Some [(''max-range'', VInt 5)]"
    by (simp add: sample_args_def ServerFlags_def)
  have writes: "flag_writes (ServerFlags @ primary_ParseFlags) [(''max-range'', VInt 5)] = [(F_MaxRange, VInt 5)]"
    by (simp add: flag_writes_def ServerFlags_def List.map_filter_simps)
  have fv: "file_value sample_doc (OpenConfigFile no_faults [''/c'' \<mapsto> ''good''] (Some ''/c'')) f
      = last_write [(F_Backend, VString ''ephemeral''), (F_MaxRange, VInt 7)] f (get_field f NewConfig)" for f
    by (simp add: file_value_def OpenConfigFile_def os_Open_def no_faults_def sample_doc_def toml_writes_def toml_tags_def
        List.map_filter_simps)
  show ?thesis
    using primary_config_precedence [OF sample_toml_ok sample_args_ok sample_primary_config]
    by (simp add: args writes fv) (simp add: last_write_def NewConfig_def)
qed

theorem unknown_keyword_refused_witness:
  "primary_config (sample_toml sample_doc) (sample_getopt sample_args) no_faults [''/c'' \<mapsto> ''example''] (Some ''/c'') []
   = Err (Errorf ''failed to parse config file'')"
  using unknown_keyword_refused [OF sample_toml_ok [of sample_doc], of no_faults "[''/c'' \<mapsto> ''example'']" "Some ''/c''" "''example''"
      "[([''backend''], VString ''ephemeral''), ([''tree-id-file''], VString ''id'')]" "[''tree-id-file'']"]
  by (simp add: OpenConfigFile_def os_Open_def no_faults_def sample_doc_def toml_tags_def)

end
