(* ===== verification/Access_Count.thy ===== *)
theory Access_Count
  imports Go_Prelude
begin

text \<open>
  The synchronized access counters of \<open>internal/rate-limit/access-count.go\<close>.  Every
  operation holds the mutex from start to end, so concurrent use is a sequence of whole
  operations.  The contract that the rate limiter relies on is the locale
  \<open>access_counter\<close>: what a granted, a refused and an undone access do to the counts.
  From it follows, once for every counter, how many accesses a sequence of operations can
  grant; \<open>accessCounts\<close> is interpreted as such a counter.
\<close>

section \<open>The counters\<close>

text \<open>
  A Go map \<open>map[string]int\<close>; reading an absent key gives 0.  The zero value of the
  struct has a nil map, which reads like an empty one; \<open>newLimiter\<close> resets the
  counters, which allocates the map, before any of them is written.
\<close>

record accessCounts =
  counts :: "string \<rightharpoonup> int"

definition map_int :: "(string \<rightharpoonup> int) \<Rightarrow> string \<Rightarrow> int" where
  "map_int m k = (case m k of None \<Rightarrow> 0 | Some v \<Rightarrow> v)"

definition accessCounts_GetAccessCount :: "accessCounts \<Rightarrow> string \<Rightarrow> int" where
  "accessCounts_GetAccessCount c key = map_int (counts c) key"

text \<open>
  The result \<open>Some key\<close> stands for the closure \<open>func() { c.accessRelax(key) }\<close>,
  the result \<open>None\<close> for \<open>nil\<close>.
\<close>

definition accessCounts_AccessAllowed ::
    "accessCounts \<Rightarrow> string \<Rightarrow> int \<Rightarrow> accessCounts \<times> string option" where
  "accessCounts_AccessAllowed c key limit =
     (if map_int (counts c) key \<ge> limit then (c, None)
      else (c\<lparr>counts := (counts c)(key \<mapsto> map_int (counts c) key + 1)\<rparr>, Some key))"

definition accessCounts_accessRelax :: "accessCounts \<Rightarrow> string \<Rightarrow> accessCounts" where
  "accessCounts_accessRelax c key =
     (if map_int (counts c) key > 0
      then c\<lparr>counts := (counts c)(key \<mapsto> map_int (counts c) key - 1)\<rparr> else c)"

definition accessCounts_Reset :: "accessCounts \<Rightarrow> accessCounts" where
  "accessCounts_Reset c = c\<lparr>counts := Map.empty\<rparr>"

lemmas accessCounts_defs =
  accessCounts_GetAccessCount_def accessCounts_AccessAllowed_def
  accessCounts_accessRelax_def accessCounts_Reset_def map_int_def

section \<open>What sequences of accesses grant\<close>

datatype 'k access_event = Access 'k int | Relax 'k

fun run_accesses ::
    "('s \<Rightarrow> 'k \<Rightarrow> int \<Rightarrow> 's \<times> 'k option) \<Rightarrow> ('s \<Rightarrow> 'k \<Rightarrow> 's) \<Rightarrow> 's \<Rightarrow> 'k access_event list
     \<Rightarrow> 's \<times> 'k list" where
  \<comment> \<open>the final state and the keys of the granted accesses, in order\<close>
  "run_accesses allow relax s [] = (s, [])"
| "run_accesses allow relax s (Access k l # es) =
     (case allow s k l of
        (s', None) \<Rightarrow> run_accesses allow relax s' es
      | (s', Some _) \<Rightarrow>
          (let (s'', gs) = run_accesses allow relax s' es in (s'', k # gs)))"
| "run_accesses allow relax s (Relax k # es) = run_accesses allow relax (relax s k) es"

fun relaxes :: "'k \<Rightarrow> 'k access_event list \<Rightarrow> nat" where
  "relaxes k [] = 0"
| "relaxes k (Relax k' # es) = (if k' = k then 1 else 0) + relaxes k es"
| "relaxes k (Access _ _ # es) = relaxes k es"

fun attempts :: "'k \<Rightarrow> 'k access_event list \<Rightarrow> nat" where
  "attempts k [] = 0"
| "attempts k (Access k' _ # es) = (if k' = k then 1 else 0) + attempts k es"
| "attempts k (Relax _ # es) = attempts k es"

fun limited_to :: "'k \<Rightarrow> int \<Rightarrow> 'k access_event list \<Rightarrow> bool" where
  \<comment> \<open>every access to \<open>k\<close> is checked against the limit \<open>L\<close>\<close>
  "limited_to k L [] = True"
| "limited_to k L (Access k' l # es) = ((k' = k \<longrightarrow> l = L) \<and> limited_to k L es)"
| "limited_to k L (Relax _ # es) = limited_to k L es"

locale access_counter =
  fixes count_of :: "'s \<Rightarrow> 'k \<Rightarrow> int"
    and allow :: "'s \<Rightarrow> 'k \<Rightarrow> int \<Rightarrow> 's \<times> 'k option"
    and relax :: "'s \<Rightarrow> 'k \<Rightarrow> 's"
    and reset :: "'s \<Rightarrow> 's"
  assumes allow_grant:
      "count_of s k < l \<Longrightarrow>
       \<exists>s'. allow s k l = (s', Some k) \<and> count_of s' = (count_of s)(k := count_of s k + 1)"
    and allow_refuse: "count_of s k \<ge> l \<Longrightarrow> allow s k l = (s, None)"
    and relax_count:
      "count_of (relax s k) = (count_of s)(k := (if count_of s k > 0 then count_of s k - 1 else count_of s k))"
    and reset_count: "count_of (reset s) = (\<lambda>_. 0)"
begin

lemma run_count_bounds:
  assumes "run_accesses allow relax s es = (s', gs)" and "limited_to k L es"
    and "0 \<le> count_of s k" and "count_of s k \<le> L"
  shows "0 \<le> count_of s' k \<and> count_of s' k \<le> L
    \<and> count_of s k + int (count_list gs k) - int (relaxes k es) \<le> count_of s' k"
  using assms
proof (induction es arbitrary: s gs)
  case Nil
  then show ?case by simp
next
  case (Cons e es)
  show ?case
  proof (cases e)
    case (Access k' l)
    show ?thesis
    proof (cases "count_of s k' < l")
      case True
      with allow_grant obtain s1 where "allow s k' l = (s1, Some k')"
        and c1: "count_of s1 = (count_of s)(k' := count_of s k' + 1)" by blast
      with Access Cons.prems(1) obtain gs1
        where "run_accesses allow relax s1 es = (s', gs1)" and "gs = k' # gs1"
        by (auto split: prod.splits)
      with Cons.IH [of s1 gs1] Cons.prems(2-4) True Access c1 show ?thesis
        by (auto split: if_splits)
    next
      case False
      with Cons Access allow_refuse [of l s k'] show ?thesis by simp
    qed
  next
    case (Relax k')
    with Cons.IH [of "relax s k'" gs] Cons.prems show ?thesis
      by (cases "0 < count_of s k") (auto simp: relax_count split: if_splits)
  qed
qed

lemma grants_bounded:
  assumes "run_accesses allow relax (reset s0) es = (s', gs)" and "limited_to k L es" and "0 \<le> L"
  shows "int (count_list gs k) \<le> L + int (relaxes k es)"
  using run_count_bounds [OF assms(1,2)] assms(3) by (simp add: reset_count)

lemma run_grants_exact:
  assumes "run_accesses allow relax s es = (s', gs)" and "limited_to k L es"
    and "relaxes k es = 0" and "count_of s k \<le> L"
  shows "count_list gs k = min (attempts k es) (nat (L - count_of s k))"
  using assms
proof (induction es arbitrary: s gs)
  case Nil
  then show ?case by simp
next
  case (Cons e es)
  show ?case
  proof (cases e)
    case (Access k' l)
    show ?thesis
    proof (cases "count_of s k' < l")
      case True
      with allow_grant obtain s1 where "allow s k' l = (s1, Some k')"
        and c1: "count_of s1 = (count_of s)(k' := count_of s k' + 1)" by blast
      with Access Cons.prems(1) obtain gs1
        where "run_accesses allow relax s1 es = (s', gs1)" and "gs = k' # gs1"
        by (auto split: prod.splits)
      with Cons.IH [of s1 gs1] Cons.prems(2-4) True Access c1 show ?thesis
        by (auto split: if_splits)
    next
      case False
      with Cons Access allow_refuse [of l s k'] show ?thesis by (auto split: if_splits)
    qed
  next
    case (Relax k')
    with Cons.IH [of "relax s k'" gs] Cons.prems show ?thesis
      by (auto simp: relax_count split: if_splits)
  qed
qed

end

lemma GetAccessCount_allow_grant:
  assumes "accessCounts_GetAccessCount s k < l"
  shows "\<exists>s'. accessCounts_AccessAllowed s k l = (s', Some k) \<and>
    accessCounts_GetAccessCount s' = (accessCounts_GetAccessCount s)(k := accessCounts_GetAccessCount s k + 1)"
  using assms by (auto simp: accessCounts_defs fun_eq_iff)

interpretation ac: access_counter accessCounts_GetAccessCount accessCounts_AccessAllowed
    accessCounts_accessRelax accessCounts_Reset
proof unfold_locales
  fix s k l
  assume "accessCounts_GetAccessCount s k < l"
  then show "\<exists>s'. accessCounts_AccessAllowed s k l = (s', Some k) \<and>
    accessCounts_GetAccessCount s' = (accessCounts_GetAccessCount s)(k := accessCounts_GetAccessCount s k + 1)"
    by (rule GetAccessCount_allow_grant)
qed (auto simp: accessCounts_defs fun_eq_iff)

text \<open>
  The access counters enforce their limit.  Between two resets, whatever the
  interleaving with accesses to other keys and with calls of the undo closure, at most
  \<open>L\<close> accesses to a key are granted in addition to those that were undone; and without
  undo calls exactly the first \<open>L\<close> attempts are granted.
\<close>

theorem accessCounts_limit_enforced:
  assumes "run_accesses accessCounts_AccessAllowed accessCounts_accessRelax (accessCounts_Reset c) es = (c', gs)"
    and "limited_to k L es" and "0 \<le> L"
  shows "int (count_list gs k) \<le> L + int (relaxes k es)
    \<and> (relaxes k es = 0 \<longrightarrow> count_list gs k = min (attempts k es) (nat L))"
proof
  show "int (count_list gs k) \<le> L + int (relaxes k es)"
    by (rule ac.grants_bounded [OF assms])
  show "relaxes k es = 0 \<longrightarrow> count_list gs k = min (attempts k es) (nat L)"
    using ac.run_grants_exact [OF assms(1,2)] assms(3) by (simp add: ac.reset_count)
qed

theorem accessCounts_limit_enforced_witness:
  "let es = [Access ''a'' 2, Access ''b'' 1, Access ''a'' 2, Access ''a'' 2, Access ''b'' 1];
       c = \<lparr>counts = Map.empty\<rparr> in
   snd (run_accesses accessCounts_AccessAllowed accessCounts_accessRelax (accessCounts_Reset c) es)
     = [''a'', ''b'', ''a'']
   \<and> limited_to ''a'' 2 es \<and> relaxes ''a'' es = 0
   \<and> count_list [''a'', ''b'', ''a''] ''a'' = min (attempts ''a'' es) (nat 2)"
proof -
  let ?es = "[Access ''a'' 2, Access ''b'' 1, Access ''a'' 2, Access ''a'' 2, Access ''b'' 1]"
  let ?c = "\<lparr>counts = Map.empty\<rparr>"
  have run: "\<exists>c'. run_accesses accessCounts_AccessAllowed accessCounts_accessRelax (accessCounts_Reset ?c) ?es
      = (c', [''a'', ''b'', ''a''])"
    by (simp add: accessCounts_defs)
  then obtain c' where "run_accesses accessCounts_AccessAllowed accessCounts_accessRelax
      (accessCounts_Reset ?c) ?es = (c', [''a'', ''b'', ''a''])" by blast
  from this accessCounts_limit_enforced [OF this, of "''a''" 2] show ?thesis
    by (simp add: Let_def)
qed

end
