(* ===== verification/Rate_Config.thy ===== *)
theory Rate_Config
  imports Go_Text "HOL-Library.Multiset"
begin

text \<open>
  The rate-limit configuration file: \<open>internal/rate-limit/config.go\<close>.
  \<open>NormalizeDomainName\<close> of the submit-token package is the parameter
  \<open>norm\<close>.  The central lemma, \<open>ParseConfig_loop_iff\<close>, gives the meaning of a
  list of lines without a loop: which entries a file declares and when it is accepted.
\<close>

section \<open>Lines\<close>

record Config =
  AllowedKeys :: "string \<rightharpoonup> int"
  AllowedDomains :: "string \<rightharpoonup> int"
  AllowPublic :: int
  PublicSuffixFile :: string

datatype configToken = configNone | configKey | configDomain | configPublic

definition parseToken :: "bytes \<Rightarrow> configToken result" where
  "parseToken s =
     (if s = ''key'' then Ok configKey
      else if s = ''domain'' then Ok configDomain
      else if s = ''public'' then Ok configPublic
      else Err (Errorf ''unknown config keyword''))"

definition parseLimit :: "bytes \<Rightarrow> int result" where
  "parseLimit s =
     bind_result (ParseUint 32 s) (\<lambda>i.
       if i \<ge> 2 ^ 31 then Err (Errorf ''limit is too large'') else Ok (int i))"

definition parseLine ::
    "(string \<Rightarrow> string result) \<Rightarrow> bytes \<Rightarrow> (configToken \<times> string \<times> int) result" where
  "parseLine norm line0 =
     (let line = (case IndexByte line0 (CHR ''#'') of None \<Rightarrow> line0 | Some comment \<Rightarrow> take comment line0);
          fields = Fields line
      in if length fields = 0 then Ok (configNone, '''', 0)
         else if length fields \<noteq> 3 then Err (Errorf ''invalid config line'')
         else bind_result (parseToken (fields ! 0)) (\<lambda>token.
              bind_result (parseLimit (fields ! 2)) (\<lambda>limit.
                let item = fields ! 1
                in case token of
                     configKey \<Rightarrow>
                       bind_result (hex_DecodeString item) (\<lambda>b.
                         if length b \<noteq> 32 then Err (Errorf ''invalid length of key hash'')
                         else Ok (token, b, limit))
                   | configDomain \<Rightarrow> bind_result (norm item) (\<lambda>d. Ok (token, d, limit))
                   | _ \<Rightarrow> Ok (token, item, limit))))"

section \<open>The whole file\<close>

fun ParseConfig_loop ::
    "(string \<Rightarrow> string result) \<Rightarrow> Config \<Rightarrow> bool \<Rightarrow> bytes list \<Rightarrow> Config result" where
  "ParseConfig_loop norm config publicSeen [] = Ok config"
| "ParseConfig_loop norm config publicSeen (l # ls) =
     bind_result (parseLine norm l) (\<lambda>(configType, item, limit).
       case configType of
         configNone \<Rightarrow> ParseConfig_loop norm config publicSeen ls
       | configKey \<Rightarrow>
           (if AllowedKeys config item \<noteq> None then Err (Errorf ''invalid multiple key'')
            else ParseConfig_loop norm
                   (config\<lparr>AllowedKeys := (AllowedKeys config)(item \<mapsto> limit)\<rparr>) publicSeen ls)
       | configDomain \<Rightarrow>
           (if AllowedDomains config item \<noteq> None then Err (Errorf ''invalid multiple domain'')
            else ParseConfig_loop norm
                   (config\<lparr>AllowedDomains := (AllowedDomains config)(item \<mapsto> limit)\<rparr>) publicSeen ls)
       | configPublic \<Rightarrow>
           (if publicSeen then Err (Errorf ''invalid multiple public lines in rate-limit configuration'')
            else ParseConfig_loop norm
                   (config\<lparr>AllowPublic := limit, PublicSuffixFile := item\<rparr>) True ls))"

definition empty_Config :: Config where
  "empty_Config = \<lparr>AllowedKeys = Map.empty, AllowedDomains = Map.empty, AllowPublic = 0,
     PublicSuffixFile = ''''\<rparr>"

definition ParseConfig :: "(string \<Rightarrow> string result) \<Rightarrow> reader \<Rightarrow> Config result" where
  "ParseConfig norm file = ParseConfig_loop norm empty_Config False (scan_lines file)"

section \<open>Well-formed configurations\<close>

definition wf_Config :: "Config \<Rightarrow> bool" where
  "wf_Config c \<longleftrightarrow>
     (\<forall>k v. AllowedKeys c k = Some v \<longrightarrow> length k = 32 \<and> 0 \<le> v \<and> v < 2 ^ 31)
   \<and> (\<forall>d v. AllowedDomains c d = Some v \<longrightarrow> 0 \<le> v \<and> v < 2 ^ 31)
   \<and> 0 \<le> AllowPublic c \<and> AllowPublic c < 2 ^ 31"

lemma parseLimit_range: "parseLimit s = Ok v \<Longrightarrow> 0 \<le> v \<and> v < 2 ^ 31"
  by (auto simp: parseLimit_def outcome_simps split: if_splits)

lemma parseLine_range:
  "parseLine norm l = Ok (tok, item, v) \<Longrightarrow>
   0 \<le> v \<and> v < 2 ^ 31 \<and> (tok = configKey \<longrightarrow> length item = 32)"
  by (auto simp: parseLine_def Let_def outcome_simps dest!: parseLimit_range
      split: if_splits configToken.split_asm) (metis configToken.exhaust)+

lemma wf_Config_updates:
  assumes "wf_Config c" and "0 \<le> v" and "v < 2147483648" \<comment> \<open>\<open>2 ^ 31\<close>\<close>
  shows "length k = 32 \<Longrightarrow> wf_Config (c\<lparr>AllowedKeys := (AllowedKeys c)(k \<mapsto> v)\<rparr>)"
    and "wf_Config (c\<lparr>AllowedDomains := (AllowedDomains c)(d \<mapsto> v)\<rparr>)"
    and "wf_Config (c\<lparr>AllowPublic := v, PublicSuffixFile := f\<rparr>)"
  using assms by (auto simp: wf_Config_def)

lemma ParseConfig_loop_wf:
  "ParseConfig_loop norm c seen ls = Ok c' \<Longrightarrow> wf_Config c \<Longrightarrow> wf_Config c'"
proof (induction ls arbitrary: c seen)
  case (Cons l ls)
  then obtain tok item v where p: "parseLine norm l = Ok (tok, item, v)"
    by (auto simp: outcome_simps)
  note r = parseLine_range [OF p]
  show ?case using Cons.prems p r
    by (cases tok) (auto split: if_splits intro: Cons.IH wf_Config_updates)
qed simp

section \<open>The declarative meaning of a list of lines\<close>

definition key_entries :: "(configToken \<times> string \<times> int) list \<Rightarrow> (string \<times> int) list" where
  "key_entries ps = map snd (filter (\<lambda>p. fst p = configKey) ps)"

definition domain_entries :: "(configToken \<times> string \<times> int) list \<Rightarrow> (string \<times> int) list" where
  "domain_entries ps = map snd (filter (\<lambda>p. fst p = configDomain) ps)"

definition public_entries :: "(configToken \<times> string \<times> int) list \<Rightarrow> (string \<times> int) list" where
  "public_entries ps = map snd (filter (\<lambda>p. fst p = configPublic) ps)"

definition with_public :: "(string \<times> int) list \<Rightarrow> Config \<Rightarrow> Config" where
  "with_public es c =
     (case es of [] \<Rightarrow> c | e # _ \<Rightarrow> c\<lparr>AllowPublic := snd e, PublicSuffixFile := fst e\<rparr>)"

lemmas entries_defs = key_entries_def domain_entries_def public_entries_def

definition declares :: "(configToken \<times> string \<times> int) list \<Rightarrow> Config \<Rightarrow> bool \<Rightarrow> bool" where
  \<comment> \<open>no key or domain twice or already present, at most one public line\<close>
  "declares ps c seen \<longleftrightarrow>
     distinct (map fst (key_entries ps)) \<and> set (map fst (key_entries ps)) \<inter> dom (AllowedKeys c) = {}
   \<and> distinct (map fst (domain_entries ps)) \<and> set (map fst (domain_entries ps)) \<inter> dom (AllowedDomains c) = {}
   \<and> length (public_entries ps) \<le> (if seen then 0 else 1)"

definition config_of :: "(configToken \<times> string \<times> int) list \<Rightarrow> Config \<Rightarrow> Config" where
  "config_of ps c =
     with_public (public_entries ps)
       (c\<lparr>AllowedKeys := AllowedKeys c ++ map_of (key_entries ps),
          AllowedDomains := AllowedDomains c ++ map_of (domain_entries ps)\<rparr>)"

lemma map_add_upd_fresh: "k \<notin> dom n \<Longrightarrow> (m(k \<mapsto> v)) ++ n = m ++ n(k \<mapsto> v)"
  by (auto simp: fun_eq_iff map_add_def dom_def split: option.splits)

lemma config_of_Cons:
  assumes "declares ((tok, item, v) # ps) c seen"
  shows "config_of ((tok, item, v) # ps) c =
    (case tok of
       configNone \<Rightarrow> config_of ps c
     | configKey \<Rightarrow> config_of ps (c\<lparr>AllowedKeys := (AllowedKeys c)(item \<mapsto> v)\<rparr>)
     | configDomain \<Rightarrow> config_of ps (c\<lparr>AllowedDomains := (AllowedDomains c)(item \<mapsto> v)\<rparr>)
     | configPublic \<Rightarrow> config_of ps (c\<lparr>AllowPublic := v, PublicSuffixFile := item\<rparr>))"
  using assms
  by (cases tok)
    (auto simp: config_of_def declares_def entries_defs with_public_def dom_map_of_conv_image_fst
      map_add_upd_fresh image_iff split: list.splits if_splits)

lemma declares_Cons:
  "declares ((tok, item, v) # ps) c seen \<longleftrightarrow>
    (case tok of
       configNone \<Rightarrow> declares ps c seen
     | configKey \<Rightarrow> AllowedKeys c item = None \<and>
         declares ps (c\<lparr>AllowedKeys := (AllowedKeys c)(item \<mapsto> v)\<rparr>) seen
     | configDomain \<Rightarrow> AllowedDomains c item = None \<and>
         declares ps (c\<lparr>AllowedDomains := (AllowedDomains c)(item \<mapsto> v)\<rparr>) seen
     | configPublic \<Rightarrow> \<not> seen \<and> declares ps (c\<lparr>AllowPublic := v, PublicSuffixFile := item\<rparr>) True)"
  by (cases tok) (auto simp: declares_def entries_defs)

lemma ParseConfig_loop_iff:
  "ParseConfig_loop norm c seen ls = Ok c' \<longleftrightarrow>
   (\<exists>ps. mapM_result (parseLine norm) ls = Ok ps \<and> declares ps c seen \<and> c' = config_of ps c)"
proof (induction ls arbitrary: c seen)
  case Nil
  then show ?case
    by (auto simp: declares_def config_of_def with_public_def entries_defs)
next
  case (Cons l ls)
  show ?case
  proof (cases "parseLine norm l")
    case (Ok p)
    obtain tok item v where p: "p = (tok, item, v)" by (cases p)
    have mapM: "mapM_result (parseLine norm) (l # ls) = Ok qs \<longleftrightarrow>
        (\<exists>ps. qs = (tok, item, v) # ps \<and> mapM_result (parseLine norm) ls = Ok ps)" for qs
      using Ok p by (auto simp: outcome_simps)
    show ?thesis unfolding mapM using Ok p
      by (cases tok) (auto simp: Cons.IH declares_Cons config_of_Cons)
  qed (auto simp: outcome_simps)
qed

lemma mapM_result_fun:
  "mapM_result f xs = Ok ys \<longleftrightarrow>
   (\<forall>x\<in>set xs. is_ok (f x)) \<and> ys = map (\<lambda>x. case f x of Ok y \<Rightarrow> y) xs"
  by (induction xs arbitrary: ys) (auto simp: outcome_simps is_ok_iff)

lemma mset_entries:
  assumes "mset ps = mset qs"
  shows "mset (key_entries ps) = mset (key_entries qs)"
    and "mset (domain_entries ps) = mset (domain_entries qs)"
    and "mset (public_entries ps) = mset (public_entries qs)"
  using assms by (simp_all add: entries_defs)

lemma mset_fst_facts:
  assumes "mset xs = mset ys"
  shows "distinct (map fst xs) \<longleftrightarrow> distinct (map fst ys)"
    and "set (map fst xs) = set (map fst ys)"
    and "length xs = length ys"
    and "distinct (map fst xs) \<Longrightarrow> map_of xs = map_of ys"
proof -
  have m: "mset (map fst xs) = mset (map fst ys)" using assms by simp
  then show d: "distinct (map fst xs) \<longleftrightarrow> distinct (map fst ys)" by (rule mset_eq_imp_distinct_iff)
  show "set (map fst xs) = set (map fst ys)" using m by (rule mset_eq_setD)
  show "length xs = length ys" using assms by (rule mset_eq_length)
  show "map_of xs = map_of ys" if "distinct (map fst xs)"
    using that d mset_eq_setD [OF assms] by (simp add: map_of_inject_set)
qed

lemma declares_config_perm:
  assumes m: "mset ps = mset qs" and d: "declares ps c seen"
  shows "declares qs c seen \<and> config_of qs c = config_of ps c"
proof
  note e = mset_entries [OF m]
  show "declares qs c seen"
    using d mset_fst_facts [OF e(1)] mset_fst_facts [OF e(2)] mset_fst_facts(3) [OF e(3)]
    by (auto simp: declares_def)
  have "length (public_entries ps) \<le> 1" using d by (auto simp: declares_def split: if_splits)
  then have "public_entries ps = public_entries qs"
    using e(3) mset_fst_facts(3) [OF e(3)]
    by (cases "public_entries ps"; cases "public_entries qs") auto
  then show "config_of qs c = config_of ps c"
    using d mset_fst_facts(4) [OF e(1)] mset_fst_facts(4) [OF e(2)]
    by (simp add: config_of_def declares_def)
qed

lemma ParseConfig_loop_perm:
  assumes "mset ls = mset ls'" and "ParseConfig_loop norm c seen ls = Ok c'"
  shows "ParseConfig_loop norm c seen ls' = Ok c'"
proof -
  let ?g = "\<lambda>x. case parseLine norm x of Ok y \<Rightarrow> y"
  have m: "mset (map ?g ls) = mset (map ?g ls')" using assms(1) by simp
  have s: "set ls = set ls'" using assms(1) by (rule mset_eq_setD)
  from assms(2) show ?thesis
    using declares_config_perm [OF m] s by (auto simp: ParseConfig_loop_iff mapM_result_fun)
qed

lemma hex_digit_no_hash_sign: "n < 16 \<Longrightarrow> CHR ''#'' \<noteq> hex_digit n"
  by (auto simp: hex_digit_def dest: arg_cong [where f = "of_char :: char \<Rightarrow> nat"])

lemma hex_EncodeToString_no_hash_sign: "CHR ''#'' \<notin> set (hex_EncodeToString s)"
  by (induction s) (simp_all add: hex_digit_no_hash_sign)

lemma decimal_no_hash_sign: "CHR ''#'' \<notin> set (decimal n)"
  using decimal_digits [of n] by (auto simp: list_all_iff is_digit_def)

lemma decimal_plain: "list_all plain_char (decimal n)"
  using decimal_digits [of n] by (auto simp: list_all_iff is_digit_plain)

lemma parseLine_three_fields:
  assumes "CHR ''#'' \<notin> set line" and "Fields line = [a, b, c]"
  shows "parseLine norm line =
    bind_result (parseToken a) (\<lambda>token. bind_result (parseLimit c) (\<lambda>limit.
      case token of
        configKey \<Rightarrow> bind_result (hex_DecodeString b) (\<lambda>h.
          if length h \<noteq> 32 then Err (Errorf ''invalid length of key hash'') else Ok (token, h, limit))
      | configDomain \<Rightarrow> bind_result (norm b) (\<lambda>d. Ok (token, d, limit))
      | _ \<Rightarrow> Ok (token, b, limit)))"
  using assms by (simp add: parseLine_def Let_def)

lemmas eval_fields =
  Fields_def fields_from.simps space_len.simps ascii_space_def spaces2_def spaces3_def

lemma eval_example_lines:
  shows "parseLine Ok ''domain a.org 25 # x'' = Ok (configDomain, ''a.org'', 25)"
    and "parseLine Ok ''public f 7'' = Ok (configPublic, ''f'', 7)"
    and "parseLine Ok ''# a'' = Ok (configNone, [], 0)"
proof -
  have f: "Fields ''domain a.org 25 '' = [''domain'', ''a.org'', ''25'']"
    "Fields ''public f 7'' = [''public'', ''f'', ''7'']" "Fields [] = []"
    by (simp_all add: eval_fields)
  have l: "parseLimit ''25'' = Ok 25" "parseLimit ''7'' = Ok 7"
    by (simp_all add: parseLimit_def ParseUint_def is_digit_def digit_val_def)
  show "parseLine Ok ''domain a.org 25 # x'' = Ok (configDomain, ''a.org'', 25)"
    "parseLine Ok ''public f 7'' = Ok (configPublic, ''f'', 7)"
    "parseLine Ok ''# a'' = Ok (configNone, [], 0)"
    by (simp_all add: parseLine_def f l parseToken_def)
qed

section \<open>Properties\<close>

text \<open>
  C33: A configuration that \<open>ParseConfig\<close> accepts is well formed: every key is a
  32-byte hash and every limit is in the range of a 32-bit signed integer.
\<close>

theorem ParseConfig_well_formed:
  "ParseConfig norm file = Ok c \<Longrightarrow> wf_Config c"
  unfolding ParseConfig_def
  by (erule ParseConfig_loop_wf) (simp add: wf_Config_def empty_Config_def)

theorem ParseConfig_well_formed_witness:
  "let file = \<lparr>rd_data = ''domain a.org 25 # x'' @ [CHR 0x0A] @ ''public f 7'', rd_err = None\<rparr>;
       c = empty_Config\<lparr>AllowedDomains := [''a.org'' \<mapsto> 25], AllowPublic := 7, PublicSuffixFile := ''f''\<rparr>
   in ParseConfig Ok file = Ok c \<and> wf_Config c"
proof -
  let ?file = "\<lparr>rd_data = ''domain a.org 25 # x'' @ [CHR 0x0A] @ ''public f 7'', rd_err = None\<rparr>"
  let ?c = "empty_Config\<lparr>AllowedDomains := [''a.org'' \<mapsto> 25], AllowPublic := 7, PublicSuffixFile := ''f''\<rparr>"
  have "scan_lines ?file = [''domain a.org 25 # x'', ''public f 7'']"
    by (simp add: scan_lines_def raw_lines.simps fits_def MaxScanTokenSize_def dropCR_def)
  then have "ParseConfig Ok ?file = Ok ?c"
    by (simp add: ParseConfig_def empty_Config_def eval_example_lines)
  from this ParseConfig_well_formed [OF this] show ?thesis by (simp add: Let_def)
qed

text \<open>
  C32: The meaning of a configuration file, for every file: it is accepted exactly when
  every delivered line parses, no key and no domain occurs twice and there is at most one
  \<open>public\<close> line; the configuration then holds exactly the declared entries.
\<close>

theorem ParseConfig_meaning:
  "ParseConfig norm file = Ok c \<longleftrightarrow>
   (\<exists>ps. mapM_result (parseLine norm) (scan_lines file) = Ok ps
      \<and> distinct (map fst (key_entries ps)) \<and> distinct (map fst (domain_entries ps))
      \<and> length (public_entries ps) \<le> 1
      \<and> AllowedKeys c = map_of (key_entries ps) \<and> AllowedDomains c = map_of (domain_entries ps)
      \<and> (AllowPublic c, PublicSuffixFile c) =
          (case public_entries ps of [] \<Rightarrow> (0, '''') | e # _ \<Rightarrow> (snd e, fst e)))"
proof -
  have "c = config_of ps empty_Config \<longleftrightarrow>
      AllowedKeys c = map_of (key_entries ps) \<and> AllowedDomains c = map_of (domain_entries ps)
      \<and> (AllowPublic c, PublicSuffixFile c) =
          (case public_entries ps of [] \<Rightarrow> (0, '''') | e # _ \<Rightarrow> (snd e, fst e))" for ps
    by (cases c) (auto simp: config_of_def with_public_def empty_Config_def split: list.splits)
  then show ?thesis
    by (auto simp: ParseConfig_def ParseConfig_loop_iff declares_def empty_Config_def)
qed

text \<open>
  As \<open>doc/rate-limit.md\<close> says, the order of the lines does not matter: two
  files whose delivered lines are permutations of each other are accepted alike and give the
  same configuration.
\<close>

theorem ParseConfig_order_irrelevant:
  assumes "mset (scan_lines file) = mset (scan_lines file')"
  shows "ParseConfig norm file = Ok c \<longleftrightarrow> ParseConfig norm file' = Ok c"
  unfolding ParseConfig_def
  using ParseConfig_loop_perm [OF assms] ParseConfig_loop_perm [OF assms [symmetric]] by (rule iffI)

theorem ParseConfig_order_irrelevant_witness:
  "let f = \<lparr>rd_data = ''# a'' @ [CHR 0x0A] @ ''public f 7'', rd_err = None\<rparr>;
       g = \<lparr>rd_data = ''public f 7'' @ [CHR 0x0A] @ ''# a'', rd_err = None\<rparr>;
       c = empty_Config\<lparr>AllowPublic := 7, PublicSuffixFile := ''f''\<rparr>
   in mset (scan_lines f) = mset (scan_lines g)
    \<and> (ParseConfig Ok f = Ok c \<longleftrightarrow> ParseConfig Ok g = Ok c) \<and> ParseConfig Ok g = Ok c"
proof -
  let ?f = "\<lparr>rd_data = ''# a'' @ [CHR 0x0A] @ ''public f 7'', rd_err = None\<rparr>"
  let ?g = "\<lparr>rd_data = ''public f 7'' @ [CHR 0x0A] @ ''# a'', rd_err = None\<rparr>"
  let ?c = "empty_Config\<lparr>AllowPublic := 7, PublicSuffixFile := ''f''\<rparr>"
  have f: "scan_lines ?f = [''# a'', ''public f 7'']" and g: "scan_lines ?g = [''public f 7'', ''# a'']"
    by (simp_all add: scan_lines_def raw_lines.simps fits_def MaxScanTokenSize_def dropCR_def)
  then have m: "mset (scan_lines ?f) = mset (scan_lines ?g)" by simp
  have "ParseConfig Ok ?g = Ok ?c"
    unfolding ParseConfig_def g by (simp add: empty_Config_def eval_example_lines)
  with m ParseConfig_order_irrelevant [OF m, of Ok ?c] show ?thesis by (simp add: Let_def)
qed

text \<open>
  Round trip: a line printed for a key hash and a limit below \<open>2 ^ 31\<close> parses to
  exactly that entry.
\<close>

theorem parseLine_key_roundtrip:
  assumes "length k = 32" and "n < 2 ^ 31"
  shows "parseLine norm (''key '' @ hex_EncodeToString k @ '' '' @ decimal n) = Ok (configKey, k, int n)"
proof -
  let ?l = "''key'' @ CHR '' '' # hex_EncodeToString k @ CHR '' '' # decimal n"
  have "k \<noteq> []" using assms(1) by auto
  then have f: "Fields ?l = [''key'', hex_EncodeToString k, decimal n]"
    by (intro Fields_three) (simp_all add: hex_EncodeToString_plain decimal_plain plain_char_code Let_def)
  have h: "CHR ''#'' \<notin> set ?l"
    by (simp add: hex_EncodeToString_no_hash_sign decimal_no_hash_sign)
  have "parseLimit (decimal n) = Ok (int n)"
    using assms(2) ParseUint_decimal [of n 32] by (simp add: parseLimit_def)
  then show ?thesis using assms parseLine_three_fields [OF h f, of norm]
    by (simp add: parseToken_def hex_DecodeString_Encode)
qed

theorem parseLine_key_roundtrip_witness:
  "parseLine Ok (''key '' @ hex_EncodeToString (replicate 32 CHR ''a'') @ '' '' @ decimal 25) =
   Ok (configKey, replicate 32 CHR ''a'', 25)"
  using parseLine_key_roundtrip [of "replicate 32 CHR ''a''" 25 Ok] by simp

text \<open>
  \<open>ParseConfig\<close> does not look at \<open>scanner.Err()\<close>: a line that is too
  long for the scanner (for instance an overlong comment) or a read error silently ends the
  configuration, and every line after it is ignored although the file is accepted.
\<close>

theorem ParseConfig_ignores_scan_error:
  assumes "CHR 0x0A \<notin> set l" and "MaxScanTokenSize \<le> length l"
  shows "ParseConfig norm \<lparr>rd_data = l @ CHR 0x0A # rest, rd_err = e\<rparr> = Ok empty_Config
    \<and> scan_err \<lparr>rd_data = l @ CHR 0x0A # rest, rd_err = e\<rparr> = Some ErrTooLong"
  using assms by (simp add: ParseConfig_def scan_lines_cut scan_err_def raw_lines_line fits_def)

theorem ParseConfig_ignores_scan_error_witness:
  "let l = replicate MaxScanTokenSize CHR ''#'' in
   ParseConfig Ok \<lparr>rd_data = l @ CHR 0x0A # ''domain a.org 0'', rd_err = None\<rparr> = Ok empty_Config"
  using ParseConfig_ignores_scan_error [of "replicate MaxScanTokenSize CHR ''#''"] by (simp add: Let_def)

end
