(* ===== verification/Domain_Db.thy ===== *)
theory Domain_Db
  imports Go_Text
begin

text \<open>
  The public-suffix database of \<open>internal/rate-limit/domain.go\<close>: the lookup of the
  public suffix and of the registered domain of a domain name, and the parser of the suffix
  file.  The lookups are proved equal to reference definitions on the list of label suffixes
  of a domain; the parser is proved equal to a meaning of the file as a set of rules, in which
  the order of the lines plays no role.
\<close>

section \<open>Lookup\<close>

text \<open>
  \<open>map[string]bool\<close> reads as \<open>false\<close> for an absent key; a nil inner map of
  \<open>wildcards\<close> is \<open>None\<close>.
\<close>

record DomainDb =
  suffixes :: "string \<Rightarrow> bool"
  wildcards :: "string \<rightharpoonup> (string \<Rightarrow> bool)"

function getSuffix :: "DomainDb \<Rightarrow> string \<Rightarrow> string result" where
  "getSuffix db s =
     (if suffixes db s then Ok s
      else case IndexByte s (CHR ''.'') of
        None \<Rightarrow> Err (Errorf ''no known suffix on domain'')
      | Some dot \<Rightarrow>
          (let label = take dot s; next = drop (dot + 1) s
           in if (case wildcards db next of None \<Rightarrow> False | Some m \<Rightarrow> \<not> m label) then Ok s
              else getSuffix db next))"
  by pat_completeness auto
termination
  by (relation "measure (\<lambda>(db, s). length s)") (auto dest: IndexByte_SomeD)

declare getSuffix.simps [simp del]

definition GetRegisteredDomain :: "DomainDb \<Rightarrow> string \<Rightarrow> string result" where
  "GetRegisteredDomain db domain =
     bind_result (getSuffix db domain) (\<lambda>sfx.
       if \<not> suffix sfx domain then Panic ''internal error, domain and supposed suffix''
       else if domain = sfx then Ok domain
       else if length domain < length sfx + 1 then Panic ''slice bounds out of range''
       else case LastIndexByte (take (length domain - length sfx - 1) domain) (CHR ''.'') of
              None \<Rightarrow> Ok domain
            | Some dot \<Rightarrow> Ok (drop (dot + 1) domain))"

text \<open>Reference definitions on the label suffixes of a domain, longest first.\<close>

definition rule_matches :: "DomainDb \<Rightarrow> string \<Rightarrow> bool" where
  \<comment> \<open>a plain rule for \<open>s\<close>, or a wildcard rule for what follows its first label without
     an exception for that label\<close>
  "rule_matches db s \<longleftrightarrow>
     suffixes db s \<or>
     (case IndexByte s (CHR ''.'') of
        None \<Rightarrow> False
      | Some dot \<Rightarrow>
          (case wildcards db (drop (Suc dot) s) of None \<Rightarrow> False | Some m \<Rightarrow> \<not> m (take dot s)))"

fun registered_ref :: "(string \<Rightarrow> bool) \<Rightarrow> string list \<Rightarrow> string option" where
  \<comment> \<open>the entry just before the first match; the first entry if it matches itself\<close>
  "registered_ref P [] = None"
| "registered_ref P [x] = (if P x then Some x else None)"
| "registered_ref P (x # y # ys) =
     (if P x then Some x else if P y then Some x else registered_ref P (y # ys))"

definition from_option :: "'a option \<Rightarrow> 'a result" where
  "from_option r = (case r of None \<Rightarrow> Err (Errorf ''no known suffix on domain'') | Some s \<Rightarrow> Ok s)"

lemma getSuffix_single:
  "CHR ''.'' \<notin> set s \<Longrightarrow>
   getSuffix db s = (if rule_matches db s then Ok s else Err (Errorf ''no known suffix on domain''))"
  by (subst getSuffix.simps) (simp add: rule_matches_def)

lemma getSuffix_dot:
  "CHR ''.'' \<notin> set l \<Longrightarrow>
   getSuffix db (l @ CHR ''.'' # s) =
     (if rule_matches db (l @ CHR ''.'' # s) then Ok (l @ CHR ''.'' # s) else getSuffix db s)"
  by (subst getSuffix.simps) (auto simp: rule_matches_def IndexByte_append split: option.splits)

lemma getSuffix_find: "getSuffix db d = from_option (find (rule_matches db) (label_suffixes d))"
proof (induction d rule: label_suffixes_induct)
  case (single s)
  then show ?case by (simp add: getSuffix_single label_suffixes_single from_option_def)
next
  case (dot l s)
  then show ?case by (simp add: getSuffix_dot label_suffixes_dot from_option_def)
qed

lemma getSuffix_label_suffix: "getSuffix db d = Ok s \<Longrightarrow> s \<in> set (label_suffixes d)"
  by (auto simp: getSuffix_find from_option_def find_Some_iff split: option.splits)

lemma getSuffix_suffix: "getSuffix db d = Ok s \<Longrightarrow> suffix s d"
  by (blast intro: label_suffixes_suffix getSuffix_label_suffix)

lemma getSuffix_shorter:
  assumes "getSuffix db d = Ok s" "s \<noteq> d"
  obtains p where "d = p @ CHR ''.'' # s"
  using assms
proof (induction d arbitrary: thesis rule: label_suffixes_induct)
  case (single d)
  then show ?case by (auto simp: getSuffix_single split: if_splits)
next
  case (dot l d)
  show ?case
  proof (cases "s = d")
    case True
    then show ?thesis using dot.prems(1) by blast
  next
    case False
    with dot obtain p where "d = p @ CHR ''.'' # s" by (auto simp: getSuffix_dot split: if_splits)
    then show ?thesis using dot.prems(1) [of "l @ CHR ''.'' # p"] by simp
  qed
qed

lemma GetRegisteredDomain_exact:
  "getSuffix db d = Ok d \<Longrightarrow> GetRegisteredDomain db d = Ok d"
  by (simp add: GetRegisteredDomain_def)

lemma GetRegisteredDomain_split:
  assumes "getSuffix db (p @ CHR ''.'' # s) = Ok s"
  shows "GetRegisteredDomain db (p @ CHR ''.'' # s) =
    (case LastIndexByte p (CHR ''.'') of
       None \<Rightarrow> Ok (p @ CHR ''.'' # s) | Some dot \<Rightarrow> Ok (drop (Suc dot) (p @ CHR ''.'' # s)))"
proof -
  have "length (p @ CHR ''.'' # s) \<noteq> length s" by simp
  then have "p @ CHR ''.'' # s \<noteq> s" by metis
  moreover have "suffix s (p @ CHR ''.'' # s)" by (auto intro: suffix_appendI suffix_ConsI)
  ultimately show ?thesis using assms
    by (cases "LastIndexByte p (CHR ''.'')") (simp_all add: GetRegisteredDomain_def)
qed

lemma getSuffix_self_iff: "getSuffix db s = Ok s \<longleftrightarrow> rule_matches db s"
proof
  assume "getSuffix db s = Ok s"
  then show "rule_matches db s"
    by (auto simp: getSuffix_find from_option_def find_Some_iff split: option.splits)
next
  assume "rule_matches db s"
  then show "getSuffix db s = Ok s"
    using label_suffixes_Cons [of s] by (auto simp: getSuffix_find from_option_def)
qed

lemma LastIndexByte_drop:
  assumes "CHR ''.'' \<in> set p"
  shows "\<exists>i. LastIndexByte p (CHR ''.'') = Some i
    \<and> LastIndexByte (q @ CHR ''.'' # p) (CHR ''.'') = Some (length q + 1 + i)"
proof -
  obtain a b where p: "p = a @ CHR ''.'' # b" and b: "CHR ''.'' \<notin> set b"
    using split_list_last [OF assms] by blast
  show ?thesis
    using LastIndexByte_append [OF b, of a] LastIndexByte_append [OF b, of "q @ CHR ''.'' # a"] p by simp
qed

lemma GetRegisteredDomain_dot:
  assumes l: "CHR ''.'' \<notin> set l" and no: "\<not> rule_matches db (l @ CHR ''.'' # s)"
  shows "GetRegisteredDomain db (l @ CHR ''.'' # s) =
    (if rule_matches db s then Ok (l @ CHR ''.'' # s) else GetRegisteredDomain db s)"
proof (cases "getSuffix db s")
  case (Ok t)
  have sfx: "getSuffix db (l @ CHR ''.'' # s) = Ok t" using l no Ok by (simp add: getSuffix_dot)
  show ?thesis
  proof (cases "t = s")
    case True
    with sfx Ok l GetRegisteredDomain_split [of db l s] show ?thesis
      by (simp add: getSuffix_self_iff)
  next
    case False
    with Ok obtain p where p: "s = p @ CHR ''.'' # t" by (rule getSuffix_shorter)
    have no_s: "\<not> rule_matches db s" using Ok False getSuffix_self_iff [of db s] by auto
    have s: "GetRegisteredDomain db s = (case LastIndexByte p (CHR ''.'') of
        None \<Rightarrow> Ok s | Some dot \<Rightarrow> Ok (drop (Suc dot) s))"
      using GetRegisteredDomain_split [of db p t] Ok unfolding p by simp
    have d: "GetRegisteredDomain db (l @ CHR ''.'' # s) = (case LastIndexByte (l @ CHR ''.'' # p) (CHR ''.'') of
        None \<Rightarrow> Ok (l @ CHR ''.'' # s) | Some dot \<Rightarrow> Ok (drop (Suc dot) (l @ CHR ''.'' # s)))"
      using GetRegisteredDomain_split [of db "l @ CHR ''.'' # p" t] sfx p by (simp split: option.split)
    show ?thesis
    proof (cases "CHR ''.'' \<in> set p")
      case True
      from LastIndexByte_drop [OF this, of l] s d no_s show ?thesis by auto
    next
      case False
      then have "LastIndexByte p (CHR ''.'') = None" by simp
      with LastIndexByte_append [OF False, of l] s d no_s show ?thesis
        by simp
    qed
  qed
next
  case (Err e)
  then have "\<not> rule_matches db s" using getSuffix_self_iff [of db s] by auto
  with Err l no show ?thesis by (simp add: GetRegisteredDomain_def getSuffix_dot)
next
  case (Panic m)
  then have "\<not> rule_matches db s" using getSuffix_self_iff [of db s] by auto
  with Panic l no show ?thesis by (simp add: GetRegisteredDomain_def getSuffix_dot)
qed

lemma GetRegisteredDomain_ref:
  "GetRegisteredDomain db d = from_option (registered_ref (rule_matches db) (label_suffixes d))"
proof (induction d rule: label_suffixes_induct)
  case (single s)
  then show ?case
    by (auto simp: GetRegisteredDomain_def getSuffix_single label_suffixes_single from_option_def)
next
  case (dot l s)
  obtain ss where ss: "label_suffixes s = s # ss" using label_suffixes_Cons by blast
  show ?case
  proof (cases "rule_matches db (l @ CHR ''.'' # s)")
    case True
    then have "getSuffix db (l @ CHR ''.'' # s) = Ok (l @ CHR ''.'' # s)"
      by (simp add: getSuffix_self_iff)
    with True ss dot.hyps show ?thesis
      by (simp add: GetRegisteredDomain_exact label_suffixes_dot from_option_def)
  next
    case False
    with dot ss show ?thesis
      by (simp add: GetRegisteredDomain_dot label_suffixes_dot from_option_def)
  qed
qed

section \<open>The suffix file\<close>

record exception =
  exc_label :: string
  exc_wildcard :: string

definition parseException :: "string \<Rightarrow> exception result" where
  "parseException e =
     (case IndexByte e (CHR ''.'') of
        None \<Rightarrow> Err (Errorf ''must have at least one dot'')
      | Some dot \<Rightarrow> Ok \<lparr>exc_label = take dot e, exc_wildcard = drop (dot + 1) e\<rparr>)"

definition replace_err :: "'a result \<Rightarrow> go_error \<Rightarrow> 'a result" where
  \<comment> \<open>\<open>if err != nil { return e }\<close> with another error\<close>
  "replace_err r e = (case r of Ok x \<Rightarrow> Ok x | Err _ \<Rightarrow> Err e | Panic m \<Rightarrow> Panic m)"

fun parse_rules ::
    "(string \<Rightarrow> string result) \<Rightarrow> (string \<Rightarrow> bool) \<Rightarrow> (string \<rightharpoonup> (string \<Rightarrow> bool)) \<Rightarrow> exception list
     \<Rightarrow> bytes list \<Rightarrow> ((string \<Rightarrow> bool) \<times> (string \<rightharpoonup> (string \<Rightarrow> bool)) \<times> exception list) result" where
  "parse_rules norm sfx wc exs [] = Ok (sfx, wc, exs)"
| "parse_rules norm sfx wc exs (l # ls) =
     (let b = TrimSpace l in
      if b = [] then parse_rules norm sfx wc exs ls
      else if b ! 0 = CHR ''/'' then
        (if \<not> prefix ''//'' b then Err (Errorf ''malformed comment on line'')
         else parse_rules norm sfx wc exs ls)
      else if b ! 0 = CHR ''!'' then
        bind_result (replace_err (norm (drop 1 b)) (Errorf ''invalid domain on line'')) (\<lambda>e.
        bind_result (replace_err (parseException e) (Errorf ''invalid exception rule on line'')) (\<lambda>x.
          parse_rules norm sfx wc (exs @ [x]) ls))
      else if b ! 0 = CHR ''*'' then
        (if \<not> prefix ''*.'' b then Err (Errorf ''invalid wildcard rule on line'')
         else bind_result (replace_err (norm (drop 2 b)) (Errorf ''invalid domain on line'')) (\<lambda>d.
                parse_rules norm sfx (wc(d \<mapsto> (\<lambda>_. False))) exs ls))
      else
        bind_result (replace_err (norm b) (Errorf ''invalid domain on line'')) (\<lambda>d.
          parse_rules norm (sfx(d := True)) wc exs ls))"

fun apply_exceptions ::
    "(string \<rightharpoonup> (string \<Rightarrow> bool)) \<Rightarrow> exception list \<Rightarrow> (string \<rightharpoonup> (string \<Rightarrow> bool)) result" where
  "apply_exceptions wc [] = Ok wc"
| "apply_exceptions wc (e # es) =
     (case wc (exc_wildcard e) of
        None \<Rightarrow> Err (Errorf ''exception for non-existent wildcard'')
      | Some m \<Rightarrow> apply_exceptions (wc(exc_wildcard e \<mapsto> m(exc_label e := True))) es)"

definition parseSuffixFile ::
    "(string \<Rightarrow> string result) \<Rightarrow> reader \<Rightarrow> ((string \<Rightarrow> bool) \<times> (string \<rightharpoonup> (string \<Rightarrow> bool))) result" where
  "parseSuffixFile norm suffixFile =
     bind_result (parse_rules norm (\<lambda>_. False) Map.empty [] (scan_lines suffixFile)) (\<lambda>(sfx, wc, exs).
     bind_result (apply_exceptions wc exs) (\<lambda>wc'. Ok (sfx, wc')))"

definition NewDomainDb :: "(string \<Rightarrow> string result) \<Rightarrow> reader \<Rightarrow> DomainDb result" where
  "NewDomainDb norm suffixFile =
     bind_result (parseSuffixFile norm suffixFile) (\<lambda>(sfx, wc).
       Ok \<lparr>suffixes = sfx, wildcards = wc\<rparr>)"

definition empty_DomainDb :: DomainDb where
  \<comment> \<open>the zero value: nil maps\<close>
  "empty_DomainDb = \<lparr>suffixes = (\<lambda>_. False), wildcards = Map.empty\<rparr>"

section \<open>The meaning of a suffix file\<close>

datatype psl_rule = Blank | Plain string | Wild string | Except exception

definition line_rule :: "(string \<Rightarrow> string result) \<Rightarrow> bytes \<Rightarrow> psl_rule result" where
  \<comment> \<open>the rule that one line of the file declares\<close>
  "line_rule norm l =
     (let b = TrimSpace l in
      if b = [] then Ok Blank
      else if b ! 0 = CHR ''/'' then
        (if \<not> prefix ''//'' b then Err (Errorf ''malformed comment on line'') else Ok Blank)
      else if b ! 0 = CHR ''!'' then
        bind_result (replace_err (norm (drop 1 b)) (Errorf ''invalid domain on line'')) (\<lambda>e.
        map_result Except (replace_err (parseException e) (Errorf ''invalid exception rule on line'')))
      else if b ! 0 = CHR ''*'' then
        (if \<not> prefix ''*.'' b then Err (Errorf ''invalid wildcard rule on line'')
         else map_result Wild (replace_err (norm (drop 2 b)) (Errorf ''invalid domain on line'')))
      else map_result Plain (replace_err (norm b) (Errorf ''invalid domain on line'')))"

fun add_rule :: "psl_rule \<Rightarrow> (string \<Rightarrow> bool) \<times> (string \<rightharpoonup> (string \<Rightarrow> bool)) \<times> exception list
    \<Rightarrow> (string \<Rightarrow> bool) \<times> (string \<rightharpoonup> (string \<Rightarrow> bool)) \<times> exception list" where
  "add_rule Blank st = st"
| "add_rule (Plain d) (sfx, wc, exs) = (sfx(d := True), wc, exs)"
| "add_rule (Wild d) (sfx, wc, exs) = (sfx, wc(d \<mapsto> (\<lambda>_. False)), exs)"
| "add_rule (Except e) (sfx, wc, exs) = (sfx, wc, exs @ [e])"

lemma bind_map_result: "bind_result (map_result f r) g = bind_result r (\<lambda>x. g (f x))"
  by (cases r) auto

lemma bind_bind_result: "bind_result (bind_result r f) g = bind_result r (\<lambda>x. bind_result (f x) g)"
  by (cases r) auto

lemma parse_rules_step:
  "parse_rules norm sfx wc exs (l # ls) =
   bind_result (line_rule norm l) (\<lambda>r. case add_rule r (sfx, wc, exs) of (sfx', wc', exs') \<Rightarrow>
     parse_rules norm sfx' wc' exs' ls)"
  by (simp add: line_rule_def Let_def bind_map_result bind_bind_result)

declare parse_rules.simps(2) [simp del]

lemma parse_rules_iff:
  "parse_rules norm sfx wc exs ls = Ok out \<longleftrightarrow>
   (\<exists>rs. mapM_result (line_rule norm) ls = Ok rs \<and> out = fold add_rule rs (sfx, wc, exs))"
proof (induction ls arbitrary: sfx wc exs)
  case (Cons l ls)
  show ?case
  proof (cases "line_rule norm l")
    case (Ok r)
    obtain sfx' wc' exs' where a: "add_rule r (sfx, wc, exs) = (sfx', wc', exs')"
      by (cases "add_rule r (sfx, wc, exs)") auto
    have step: "parse_rules norm sfx wc exs (l # ls) = parse_rules norm sfx' wc' exs' ls"
      using Ok a by (simp only: parse_rules_step bind_result.simps prod.case)
    have mapM: "mapM_result (line_rule norm) (l # ls) = Ok qs \<longleftrightarrow>
        (\<exists>rs. qs = r # rs \<and> mapM_result (line_rule norm) ls = Ok rs)" for qs
      using Ok by (auto simp: outcome_simps)
    have "fold add_rule (r # rs) (sfx, wc, exs) = fold add_rule rs (sfx', wc', exs')" for rs
      by (simp add: a)
    then show ?thesis unfolding step mapM Cons.IH by metis
  qed (simp_all add: parse_rules_step)
qed auto

fun excepts :: "psl_rule list \<Rightarrow> exception list" where
  "excepts [] = []"
| "excepts (Except e # rs) = e # excepts rs"
| "excepts (_ # rs) = excepts rs"

lemma set_excepts [simp]: "set (excepts rs) = {e. Except e \<in> set rs}"
  by (induction rs rule: excepts.induct) auto

lemma fold_add_rule:
  "fold add_rule rs (sfx, wc, exs) =
   ((\<lambda>d. sfx d \<or> Plain d \<in> set rs),
    (\<lambda>w. if Wild w \<in> set rs then Some (\<lambda>_. False) else wc w),
    exs @ excepts rs)"
proof (induction rs arbitrary: sfx wc exs)
  case (Cons r rs)
  then show ?case by (cases r) (auto simp: fun_eq_iff)
qed simp

lemma apply_exceptions_iff:
  "apply_exceptions wc es = Ok wc' \<longleftrightarrow>
   (\<forall>e\<in>set es. wc (exc_wildcard e) \<noteq> None) \<and>
   wc' = (\<lambda>w. map_option (\<lambda>m l. m l \<or> \<lparr>exc_label = l, exc_wildcard = w\<rparr> \<in> set es) (wc w))"
proof (induction es arbitrary: wc)
  case Nil
  have "(\<lambda>w. map_option (\<lambda>m. m) (wc w)) = wc" by (simp add: option.map_ident)
  then show ?case by auto
next
  case (Cons e es)
  show ?case
  proof (cases "wc (exc_wildcard e)")
    case (Some m)
    let ?wc = "wc(exc_wildcard e \<mapsto> m(exc_label e := True))"
    have "(\<lambda>w. map_option (\<lambda>m l. m l \<or> \<lparr>exc_label = l, exc_wildcard = w\<rparr> \<in> set es) (?wc w)) =
      (\<lambda>w. map_option (\<lambda>m l. m l \<or> \<lparr>exc_label = l, exc_wildcard = w\<rparr> \<in> set (e # es)) (wc w))"
      using Some by (cases e) (auto simp: fun_eq_iff option.map_cong)
    moreover have "(\<forall>e'\<in>set es. ?wc (exc_wildcard e') \<noteq> None) \<longleftrightarrow> (\<forall>e'\<in>set es. wc (exc_wildcard e') \<noteq> None)"
      using Some by auto
    ultimately show ?thesis using Some by (simp add: Cons.IH)
  qed simp
qed

section \<open>Properties\<close>

text \<open>
  C30: For every database and domain, \<open>getSuffix\<close> returns the longest label
  suffix of the domain that a plain or unexcepted wildcard rule matches, and fails exactly when
  there is none.
\<close>

theorem getSuffix_longest_match:
  "getSuffix db d =
   (case find (rule_matches db) (label_suffixes d) of
      None \<Rightarrow> Err (Errorf ''no known suffix on domain'') | Some s \<Rightarrow> Ok s)"
  by (simp add: getSuffix_find from_option_def)

text \<open>
  C29: \<open>GetRegisteredDomain\<close> never panics (neither its internal-error check nor its slice
  expression can fail), and returns the public suffix with exactly one more label, or the
  domain itself if it is a public suffix.
\<close>

theorem GetRegisteredDomain_correct:
  "\<not> is_panic (GetRegisteredDomain db d) \<and>
   GetRegisteredDomain db d =
   (case registered_ref (rule_matches db) (label_suffixes d) of
      None \<Rightarrow> Err (Errorf ''no known suffix on domain'') | Some s \<Rightarrow> Ok s)"
  by (auto simp: GetRegisteredDomain_ref from_option_def split: option.splits)

text \<open>
  C31: The meaning of a suffix file: it is accepted exactly when each of its lines
  declares a rule and every exception has its wildcard somewhere in the file, before or after
  it; the database then holds exactly the declared rules, whatever their order.
\<close>

theorem parseSuffixFile_meaning:
  "parseSuffixFile norm file = Ok (sfx, wc) \<longleftrightarrow>
   (\<exists>rs. mapM_result (line_rule norm) (scan_lines file) = Ok rs
      \<and> {Wild (exc_wildcard e) | e. Except e \<in> set rs} \<subseteq> set rs
      \<and> sfx = (\<lambda>d. Plain d \<in> set rs)
      \<and> wc = (\<lambda>w. if Wild w \<in> set rs
                then Some (\<lambda>l. Except \<lparr>exc_label = l, exc_wildcard = w\<rparr> \<in> set rs) else None))"
proof -
  have "(\<lambda>w. map_option (\<lambda>m l. m l \<or> \<lparr>exc_label = l, exc_wildcard = w\<rparr> \<in> set (excepts rs))
          (if Wild w \<in> set rs then Some (\<lambda>_. False) else None)) =
        (\<lambda>w. if Wild w \<in> set rs
             then Some (\<lambda>l. Except \<lparr>exc_label = l, exc_wildcard = w\<rparr> \<in> set rs) else None)" for rs
    by (auto simp: fun_eq_iff)
  moreover have "{Wild (exc_wildcard e) | e. Except e \<in> set rs} \<subseteq> set rs
      \<longleftrightarrow> (\<forall>e. Except e \<in> set rs \<longrightarrow> Wild (exc_wildcard e) \<in> set rs)" for rs by blast
  ultimately show ?thesis
    unfolding parseSuffixFile_def
    by (auto simp: outcome_simps parse_rules_iff fold_add_rule apply_exceptions_iff split: if_splits)
qed

text \<open>
  An exception rule only cancels its wildcard rule: for an excepted label the
  lookup goes on with the domain below it, as if neither rule were there.  In particular, where
  the list has no rule for that domain itself (\<open>*.ck\<close> and \<open>!www.ck\<close>), an
  excepted domain has no known suffix, although the algorithm of
  \<open>publicsuffix.org\<close> makes the exception the prevailing rule.
\<close>

theorem getSuffix_exception:
  assumes "CHR ''.'' \<notin> set l" and "wildcards db w = Some m" and "m l"
    and "\<not> suffixes db (l @ CHR ''.'' # w)"
  shows "getSuffix db (l @ CHR ''.'' # w) = getSuffix db w"
  using assms by (simp add: getSuffix_dot rule_matches_def IndexByte_append)

theorem getSuffix_exception_witness:
  "let db = \<lparr>suffixes = (\<lambda>_. False), wildcards = [''ck'' \<mapsto> (\<lambda>l. l = ''www'')]\<rparr> in
   getSuffix db ''www.ck'' = getSuffix db ''ck''
   \<and> getSuffix db ''ck'' = Err (Errorf ''no known suffix on domain'')
   \<and> getSuffix db ''a.b.ck'' = Ok ''b.ck''"
proof -
  let ?db = "\<lparr>suffixes = (\<lambda>_. False), wildcards = [''ck'' \<mapsto> (\<lambda>l. l = ''www'')]\<rparr>"
  have "getSuffix ?db (''www'' @ CHR ''.'' # ''ck'') = getSuffix ?db ''ck''"
    by (rule getSuffix_exception [where m = "\<lambda>l. l = ''www''"]) simp_all
  moreover have "getSuffix ?db ''ck'' = Err (Errorf ''no known suffix on domain'')"
    by (simp add: getSuffix.simps)
  moreover have "getSuffix ?db ''a.b.ck'' = Ok ''b.ck''"
    by (simp add: getSuffix.simps)
  ultimately show ?thesis by (simp add: Let_def)
qed

end
