(* ===== verification/Limiter.thy ===== *)
theory Limiter
  imports Access_Count Rate_Config Domain_Db
begin

text \<open>
  The rate limiter of \<open>internal/rate-limit/limiter.go\<close>: the reset schedule, the
  limiter state with its three groups of counters, and \<open>AccessAllowed\<close> with its rule
  precedence.  The closure that \<open>AccessAllowed\<close> returns to undo an access is
  represented by a value of type \<open>ticket\<close> (which counter it decrements), and calling
  it by \<open>run_relax\<close>.  The clock reading is an argument, \<open>now\<close>; the
  normalization of domain names is the parameter \<open>norm\<close>.
\<close>

section \<open>Schedule\<close>

definition schedulePeriod :: time where
  "schedulePeriod = 24 * 60 * 60 * 1000000000"

record schedule =
  sch_next :: time

definition schedule_IsTime :: "schedule \<Rightarrow> time \<Rightarrow> schedule \<times> bool" where
  "schedule_IsTime s now =
     (if now < sch_next s then (s, False)
      else (s\<lparr>sch_next := sch_next s + schedulePeriod\<rparr>, True))"

section \<open>Limiter state and operations\<close>

record limiter =
  allowedKeys :: "string \<rightharpoonup> int"
  allowedDomains :: "string \<rightharpoonup> int"
  allowPublic :: int
  domainDb :: DomainDb
  keyCounts :: accessCounts
  domainCounts :: accessCounts
  publicCounts :: accessCounts
  resetSchedule :: schedule

datatype bucket = KeyBucket | DomainBucket | PublicBucket

type_synonym ticket = "bucket \<times> string"

text \<open>\<open>NoLimit\<close>: every access is allowed, the closure does nothing.\<close>

definition NoLimit_AccessAllowed :: "unit \<Rightarrow> time \<Rightarrow> string option \<Rightarrow> hash \<Rightarrow> unit \<times> unit option result" where
  "NoLimit_AccessAllowed l now domain keyHash = ((), Ok (Some ()))"

function domainAllowed :: "limiter \<Rightarrow> string \<Rightarrow> limiter \<times> string option \<times> bool" where
  "domainAllowed l s =
     (case allowedDomains l s of
        Some limit \<Rightarrow>
          (case accessCounts_AccessAllowed (domainCounts l) s limit of
             (c, relax) \<Rightarrow> (l\<lparr>domainCounts := c\<rparr>, relax, True))
      | None \<Rightarrow>
          (case IndexByte s (CHR ''.'') of
             None \<Rightarrow> (l, None, False)
           | Some dot \<Rightarrow> domainAllowed l (drop (dot + 1) s)))"
  by pat_completeness auto
termination
  by (relation "measure (\<lambda>(l, s). length s)") (auto dest: IndexByte_SomeD)

declare domainAllowed.simps [simp del]

definition reset_if_time :: "limiter \<Rightarrow> time \<Rightarrow> limiter" where
  "reset_if_time l now =
     (case schedule_IsTime (resetSchedule l) now of
        (s, False) \<Rightarrow> l\<lparr>resetSchedule := s\<rparr>
      | (s, True) \<Rightarrow> l\<lparr>resetSchedule := s, keyCounts := accessCounts_Reset (keyCounts l),
           domainCounts := accessCounts_Reset (domainCounts l),
           publicCounts := accessCounts_Reset (publicCounts l)\<rparr>)"

definition limiter_AccessAllowed ::
    "(string \<Rightarrow> string result) \<Rightarrow> limiter \<Rightarrow> time \<Rightarrow> string option \<Rightarrow> hash
     \<Rightarrow> limiter \<times> ticket option result" where
  "limiter_AccessAllowed norm l0 now submitDomain keyHash =
     (let l = reset_if_time l0 now in
      case allowedKeys l keyHash of
        Some limit \<Rightarrow>
          (case accessCounts_AccessAllowed (keyCounts l) keyHash limit of
             (c, relax) \<Rightarrow> (l\<lparr>keyCounts := c\<rparr>, Ok (map_option (Pair KeyBucket) relax)))
      | None \<Rightarrow>
        (case submitDomain of
           None \<Rightarrow> (l, Ok None)
         | Some sd \<Rightarrow>
           (case norm sd of
              Panic m \<Rightarrow> (l, Panic m)
            | Err _ \<Rightarrow> (l, Ok None)
            | Ok domain \<Rightarrow>
              (case domainAllowed l domain of
                 (l1, relax, True) \<Rightarrow> (l1, Ok (map_option (Pair DomainBucket) relax))
               | (l1, relax, False) \<Rightarrow>
                 (if allowPublic l1 \<le> 0 then (l1, Ok None)
                  else case GetRegisteredDomain (domainDb l1) domain of
                    Panic m \<Rightarrow> (l1, Panic m)
                  | Err _ \<Rightarrow> (l1, Ok None)
                  | Ok registered \<Rightarrow>
                    (case accessCounts_AccessAllowed (publicCounts l1) registered (allowPublic l1) of
                       (c, relax) \<Rightarrow>
                         (l1\<lparr>publicCounts := c\<rparr>, Ok (map_option (Pair PublicBucket) relax))))))))"

definition run_relax :: "limiter \<Rightarrow> ticket \<Rightarrow> limiter" where
  \<comment> \<open>calling the closure that \<open>AccessAllowed\<close> returned\<close>
  "run_relax l t =
     (case t of
        (KeyBucket, k) \<Rightarrow> l\<lparr>keyCounts := accessCounts_accessRelax (keyCounts l) k\<rparr>
      | (DomainBucket, k) \<Rightarrow> l\<lparr>domainCounts := accessCounts_accessRelax (domainCounts l) k\<rparr>
      | (PublicBucket, k) \<Rightarrow> l\<lparr>publicCounts := accessCounts_accessRelax (publicCounts l) k\<rparr>)"

definition testDomain :: string where
  "testDomain = ''test.sigsum.org''"

definition ToLower :: "string \<Rightarrow> string" where
  \<comment> \<open>\<open>strings.ToLower\<close> on ASCII text\<close>
  "ToLower s = map (\<lambda>c. let n = of_char c in
     if 65 \<le> n \<and> n \<le> 90 then char_of (n + 32 :: nat) else c) s"

text \<open>\<open>open_file\<close> stands for \<open>os.Open\<close> and the content of the opened file.\<close>

definition newLimiter ::
    "(string \<Rightarrow> string result) \<Rightarrow> (string \<Rightarrow> reader result) \<Rightarrow> reader \<Rightarrow> bool \<Rightarrow> time \<Rightarrow> limiter result" where
  "newLimiter norm open_file configFile allowTestDomain now =
     bind_result (ParseConfig norm configFile) (\<lambda>config.
     bind_result (if AllowPublic config > 0
                  then bind_result (open_file (PublicSuffixFile config)) (NewDomainDb norm)
                  else Ok empty_DomainDb) (\<lambda>db.
       let domains = (if \<not> allowTestDomain
                      then (AllowedDomains config)(ToLower testDomain \<mapsto> 0)
                      else AllowedDomains config)
       in Ok \<lparr>allowedKeys = AllowedKeys config, allowedDomains = domains,
              allowPublic = AllowPublic config, domainDb = db,
              keyCounts = accessCounts_Reset \<lparr>counts = Map.empty\<rparr>,
              domainCounts = accessCounts_Reset \<lparr>counts = Map.empty\<rparr>,
              publicCounts = accessCounts_Reset \<lparr>counts = Map.empty\<rparr>,
              resetSchedule = \<lparr>sch_next = now + schedulePeriod\<rparr>\<rparr>))"

definition NewLimiter ::
    "(string \<Rightarrow> string result) \<Rightarrow> (string \<Rightarrow> reader result) \<Rightarrow> reader \<Rightarrow> bool \<Rightarrow> time \<Rightarrow> limiter result" where
  \<comment> \<open>with the wall clock; its reading is the last argument\<close>
  "NewLimiter norm open_file configFile allowTestDomain wallTime = newLimiter norm open_file configFile allowTestDomain wallTime"

section \<open>The limiter as one counter over tickets\<close>

definition limiter_count :: "limiter \<Rightarrow> ticket \<Rightarrow> int" where
  "limiter_count l t =
     (case t of
        (KeyBucket, k) \<Rightarrow> accessCounts_GetAccessCount (keyCounts l) k
      | (DomainBucket, k) \<Rightarrow> accessCounts_GetAccessCount (domainCounts l) k
      | (PublicBucket, k) \<Rightarrow> accessCounts_GetAccessCount (publicCounts l) k)"

definition limiter_allow :: "limiter \<Rightarrow> ticket \<Rightarrow> int \<Rightarrow> limiter \<times> ticket option" where
  "limiter_allow l t limit =
     (case t of
        (KeyBucket, k) \<Rightarrow>
          (case accessCounts_AccessAllowed (keyCounts l) k limit of
             (c, r) \<Rightarrow> (l\<lparr>keyCounts := c\<rparr>, map_option (Pair KeyBucket) r))
      | (DomainBucket, k) \<Rightarrow>
          (case accessCounts_AccessAllowed (domainCounts l) k limit of
             (c, r) \<Rightarrow> (l\<lparr>domainCounts := c\<rparr>, map_option (Pair DomainBucket) r))
      | (PublicBucket, k) \<Rightarrow>
          (case accessCounts_AccessAllowed (publicCounts l) k limit of
             (c, r) \<Rightarrow> (l\<lparr>publicCounts := c\<rparr>, map_option (Pair PublicBucket) r)))"

definition limiter_reset :: "limiter \<Rightarrow> limiter" where
  "limiter_reset l = l\<lparr>keyCounts := accessCounts_Reset (keyCounts l),
     domainCounts := accessCounts_Reset (domainCounts l),
     publicCounts := accessCounts_Reset (publicCounts l)\<rparr>"

lemmas limiter_counter_defs =
  limiter_count_def limiter_allow_def limiter_reset_def run_relax_def accessCounts_defs

interpretation lim: access_counter limiter_count limiter_allow run_relax limiter_reset
proof unfold_locales
  fix s :: limiter and t :: ticket and l :: int
  obtain b k where t: "t = (b, k)" by (cases t)
  show "limiter_count s t < l \<Longrightarrow> \<exists>s'. limiter_allow s t l = (s', Some t) \<and>
      limiter_count s' = (limiter_count s)(t := limiter_count s t + 1)"
    unfolding t by (cases b) (auto simp: limiter_counter_defs fun_eq_iff split: bucket.splits)
  show "l \<le> limiter_count s t \<Longrightarrow> limiter_allow s t l = (s, None)"
    unfolding t by (cases b) (auto simp: limiter_counter_defs)
  show "limiter_count (run_relax s t) = (limiter_count s)
      (t := if 0 < limiter_count s t then limiter_count s t - 1 else limiter_count s t)"
    unfolding t by (cases b) (auto simp: limiter_counter_defs fun_eq_iff split: bucket.splits)
  show "limiter_count (limiter_reset s) = (\<lambda>_. 0)"
    by (auto simp: limiter_counter_defs fun_eq_iff split: bucket.splits)
qed

section \<open>Which counter and which limit apply\<close>

definition applicable ::
    "(string \<Rightarrow> string result) \<Rightarrow> limiter \<Rightarrow> string option \<Rightarrow> hash \<Rightarrow> (ticket \<times> int) option" where
  \<comment> \<open>the precedence of \<open>doc/rate-limit.md\<close>: key line, longest domain line, public\<close>
  "applicable norm l submitDomain keyHash =
     (case allowedKeys l keyHash of
        Some limit \<Rightarrow> Some ((KeyBucket, keyHash), limit)
      | None \<Rightarrow>
        (case map_option norm submitDomain of
           Some (Ok d) \<Rightarrow>
             (case find (\<lambda>s. allowedDomains l s \<noteq> None) (label_suffixes d) of
                Some s \<Rightarrow> Some ((DomainBucket, s), the (allowedDomains l s))
              | None \<Rightarrow>
                (if allowPublic l \<le> 0 then None
                 else map_option (\<lambda>r. ((PublicBucket, r), allowPublic l))
                        (registered_ref (rule_matches (domainDb l)) (label_suffixes d))))
         | _ \<Rightarrow> None))"

definition bucket_limit :: "limiter \<Rightarrow> ticket \<Rightarrow> int option" where
  "bucket_limit l t =
     (case t of
        (KeyBucket, k) \<Rightarrow> allowedKeys l k
      | (DomainBucket, d) \<Rightarrow> allowedDomains l d
      | (PublicBucket, _) \<Rightarrow> (if allowPublic l \<le> 0 then None else Some (allowPublic l)))"

definition same_config :: "limiter \<Rightarrow> limiter \<Rightarrow> bool" where
  "same_config l l' \<longleftrightarrow> allowedKeys l' = allowedKeys l \<and> allowedDomains l' = allowedDomains l
     \<and> allowPublic l' = allowPublic l \<and> domainDb l' = domainDb l"

lemma domainAllowed_find:
  "domainAllowed l d =
   (case find (\<lambda>s. allowedDomains l s \<noteq> None) (label_suffixes d) of
      None \<Rightarrow> (l, None, False)
    | Some s \<Rightarrow> (case limiter_allow l (DomainBucket, s) (the (allowedDomains l s)) of
                 (l', r) \<Rightarrow> (l', map_option snd r, True)))"
proof (induction d rule: label_suffixes_induct)
  case (single s)
  then show ?case
    by (subst domainAllowed.simps)
      (auto simp: label_suffixes_single limiter_allow_def option.map_comp comp_def option.map_ident
        split: option.splits prod.splits)
next
  case (dot l' s)
  then show ?case
    by (subst domainAllowed.simps)
      (auto simp: label_suffixes_dot IndexByte_append limiter_allow_def option.map_comp comp_def
        option.map_ident split: option.splits prod.splits)
qed

lemma limiter_allow_ticket: "limiter_allow l t n = (l', Some t') \<Longrightarrow> t' = t"
  by (auto simp: limiter_allow_def accessCounts_defs split: prod.splits bucket.splits if_splits)

lemma limiter_AccessAllowed_applicable:
  assumes "\<And>d. \<not> is_panic (norm d)"
  shows "limiter_AccessAllowed norm l now sd k =
    (let l1 = reset_if_time l now in
     case applicable norm l1 sd k of
       None \<Rightarrow> (l1, Ok None)
     | Some (t, limit) \<Rightarrow> (case limiter_allow l1 t limit of (l2, r) \<Rightarrow> (l2, Ok r)))"
proof -
  let ?l = "reset_if_time l now"
  have dom: "map_option (Pair DomainBucket) (map_option snd r) = r"
    if "limiter_allow ?l (DomainBucket, s) n = (l2, r)" for s n l2 r
    using that by (cases r) (auto simp: dest!: limiter_allow_ticket)
  show ?thesis
  proof (cases "allowedKeys ?l k")
    case (Some n)
    then show ?thesis
      by (simp add: limiter_AccessAllowed_def applicable_def Let_def limiter_allow_def split: prod.splits)
  next
    case None
    show ?thesis
    proof (cases "map_option norm sd")
      case None': None
      with None show ?thesis by (simp add: limiter_AccessAllowed_def applicable_def Let_def)
    next
      case (Some r)
      then obtain d where sd: "sd = Some d" and r: "norm d = r" by auto
      show ?thesis
      proof (cases r)
        case (Ok d')
        show ?thesis
        proof (cases "find (\<lambda>s. allowedDomains ?l s \<noteq> None) (label_suffixes d')")
          case None'': None
          with None sd r Ok show ?thesis
            by (simp add: limiter_AccessAllowed_def applicable_def Let_def domainAllowed_find
                GetRegisteredDomain_ref from_option_def limiter_allow_def
                split: option.splits prod.splits)
        next
          case (Some s)
          obtain l2 q where "limiter_allow ?l (DomainBucket, s) (the (allowedDomains ?l s)) = (l2, q)"
            by (cases "limiter_allow ?l (DomainBucket, s) (the (allowedDomains ?l s))")
          with None sd r Ok Some dom [OF this] show ?thesis
            by (simp add: limiter_AccessAllowed_def applicable_def Let_def domainAllowed_find)
        qed
      next
        case (Err e)
        with None sd r show ?thesis by (simp add: limiter_AccessAllowed_def applicable_def Let_def)
      next
        case (Panic m)
        with assms [of d] r show ?thesis by simp
      qed
    qed
  qed
qed

section \<open>Invariant\<close>

definition limiter_wf :: "limiter \<Rightarrow> bool" where
  \<comment> \<open>limits are not negative, and every counter is between 0 and its limit\<close>
  "limiter_wf l \<longleftrightarrow>
     (\<forall>t n. bucket_limit l t = Some n \<longrightarrow> 0 \<le> n \<and> limiter_count l t \<le> n)
   \<and> (\<forall>t. 0 \<le> limiter_count l t)"

lemma limiter_wfD:
  assumes "limiter_wf l"
  shows "0 \<le> limiter_count l t"
    and "bucket_limit l t = Some n \<Longrightarrow> 0 \<le> n \<and> limiter_count l t \<le> n"
  using assms unfolding limiter_wf_def by blast+

lemma same_config_trans: "same_config a b \<Longrightarrow> same_config b c \<Longrightarrow> same_config a c"
  by (simp add: same_config_def)

lemma same_config_ops [simp]:
  "same_config l l"
  "same_config l (fst (limiter_allow l t n))"
  "same_config l (run_relax l t)"
  "same_config l (reset_if_time l now)"
  by (auto simp: same_config_def limiter_allow_def run_relax_def reset_if_time_def
      split: prod.splits bucket.splits bool.splits)

lemma same_config_bucket_limit: "same_config l l' \<Longrightarrow> bucket_limit l' = bucket_limit l"
  by (auto simp: same_config_def bucket_limit_def fun_eq_iff split: bucket.splits)

lemma same_config_applicable: "same_config l l' \<Longrightarrow> applicable norm l' = applicable norm l"
  unfolding same_config_def by (intro ext) (simp only: applicable_def)

lemma applicable_bucket_limit: "applicable norm l sd k = Some (t, n) \<Longrightarrow> bucket_limit l t = Some n"
  by (auto simp: applicable_def bucket_limit_def find_Some_iff
      split: option.splits result.splits if_splits)

lemma reset_if_time_cases:
  "reset_if_time l now = l \<and> now < sch_next (resetSchedule l)
   \<or> limiter_count (reset_if_time l now) = (\<lambda>_. 0) \<and> sch_next (resetSchedule l) \<le> now"
  by (auto simp: reset_if_time_def schedule_IsTime_def limiter_counter_defs fun_eq_iff
      split: bucket.splits)

lemma limiter_wf_reset: "limiter_wf l \<Longrightarrow> limiter_wf (reset_if_time l now)"
  using reset_if_time_cases [of l now] same_config_bucket_limit [OF same_config_ops(4) [of l now]]
  by (auto simp: limiter_wf_def)

lemma limiter_wf_allow:
  assumes "limiter_wf l" and "bucket_limit l t = Some n" and "limiter_allow l t n = (l', r)"
  shows "limiter_wf l'"
proof -
  have "same_config l l'" using same_config_ops(2) [of l t n] assms(3) by simp
  then have "bucket_limit l' = bucket_limit l" by (rule same_config_bucket_limit)
  moreover have "limiter_count l' = limiter_count l
      \<or> limiter_count l t < n \<and> limiter_count l' = (limiter_count l)(t := limiter_count l t + 1)"
    using assms(3) lim.allow_grant [of l t n] lim.allow_refuse [of n l t]
    by (cases "limiter_count l t < n") auto
  ultimately show ?thesis using assms(1,2) by (auto simp: limiter_wf_def)
qed

lemma limiter_wf_relax:
  assumes "limiter_wf l"
  shows "limiter_wf (run_relax l t)"
proof -
  have b: "0 \<le> limiter_count (run_relax l t) u \<and> limiter_count (run_relax l t) u \<le> limiter_count l u" for u
    using limiter_wfD(1) [OF assms, of u] limiter_wfD(1) [OF assms, of t] by (auto simp: lim.relax_count)
  have "bucket_limit (run_relax l t) = bucket_limit l"
    by (rule same_config_bucket_limit) simp
  then show ?thesis
    unfolding limiter_wf_def using limiter_wfD(2) [OF assms] b by (metis order_trans)
qed

lemma limiter_wf_access:
  assumes "limiter_wf l" and "\<And>d. \<not> is_panic (norm d)"
    and "limiter_AccessAllowed norm l now sd k = (l', r)"
  shows "limiter_wf l' \<and> same_config l l' \<and> \<not> is_panic r"
proof -
  let ?l = "reset_if_time l now"
  have wf: "limiter_wf ?l" using assms(1) by (rule limiter_wf_reset)
  show ?thesis
  proof (cases "applicable norm ?l sd k")
    case None
    with assms(3) wf show ?thesis by (auto simp: limiter_AccessAllowed_applicable [OF assms(2)])
  next
    case (Some tn)
    obtain t n where tn: "tn = (t, n)" by (cases tn)
    obtain l2 q where a: "limiter_allow ?l t n = (l2, q)" by (cases "limiter_allow ?l t n")
    have "limiter_wf l2"
      using wf applicable_bucket_limit a Some tn by (blast intro: limiter_wf_allow)
    moreover have "same_config l l2"
      using same_config_ops(2) [of ?l t n] a same_config_trans [OF same_config_ops(4) [of l now]] by simp
    ultimately show ?thesis
      using assms(3) Some tn a by (auto simp: limiter_AccessAllowed_applicable [OF assms(2)])
  qed
qed

lemma newLimiter_wf:
  assumes "newLimiter norm open_file cf allow now = Ok l"
  shows "limiter_wf l"
proof -
  obtain c where c: "ParseConfig norm cf = Ok c" and l: "allowedKeys l = AllowedKeys c"
    "allowedDomains l = (if allow then AllowedDomains c else (AllowedDomains c)(ToLower testDomain \<mapsto> 0))"
    "allowPublic l = AllowPublic c" "\<forall>t. limiter_count l t = 0"
    using assms by (auto simp: newLimiter_def outcome_simps Let_def limiter_counter_defs split: bucket.splits)
  have "wf_Config c"
    using c ParseConfig_loop_wf [of norm empty_Config False "scan_lines cf" c]
    by (simp add: ParseConfig_def wf_Config_def empty_Config_def)
  then show ?thesis using l
    by (auto simp: limiter_wf_def bucket_limit_def wf_Config_def split: bucket.splits if_splits)
qed

section \<open>Runs of requests and undo calls\<close>

datatype lim_event = Request time "string option" hash | Undo ticket

fun lim_run :: "(string \<Rightarrow> string result) \<Rightarrow> limiter \<Rightarrow> lim_event list \<Rightarrow> limiter \<times> ticket list" where
  \<comment> \<open>the final state and the tickets of the granted requests\<close>
  "lim_run norm l [] = (l, [])"
| "lim_run norm l (Request now sd k # es) =
     (case limiter_AccessAllowed norm l now sd k of
        (l', Ok (Some t)) \<Rightarrow> (case lim_run norm l' es of (l'', ts) \<Rightarrow> (l'', t # ts))
      | (l', _) \<Rightarrow> lim_run norm l' es)"
| "lim_run norm l (Undo t # es) = lim_run norm (run_relax l t) es"

fun undos :: "ticket \<Rightarrow> lim_event list \<Rightarrow> nat" where
  "undos t [] = 0"
| "undos t (Undo t' # es) = (if t' = t then 1 else 0) + undos t es"
| "undos t (Request _ _ _ # es) = undos t es"

fun before :: "time \<Rightarrow> lim_event list \<Rightarrow> bool" where
  \<comment> \<open>all requests of the run are made before a time\<close>
  "before end_time [] = True"
| "before end_time (Request now _ _ # es) = (now < end_time \<and> before end_time es)"
| "before end_time (Undo _ # es) = before end_time es"

fun to_accesses :: "(string \<Rightarrow> string result) \<Rightarrow> limiter \<Rightarrow> lim_event list \<Rightarrow> ticket access_event list" where
  "to_accesses norm l [] = []"
| "to_accesses norm l (Request _ sd k # es) =
     (case applicable norm l sd k of
        None \<Rightarrow> to_accesses norm l es
      | Some (t, n) \<Rightarrow> Access t n # to_accesses norm l es)"
| "to_accesses norm l (Undo t # es) = Relax t # to_accesses norm l es"

lemma same_config_to_accesses: "same_config l l' \<Longrightarrow> to_accesses norm l' es = to_accesses norm l es"
  by (induction es rule: to_accesses.induct) (auto simp: same_config_applicable split: option.splits)

lemma resetSchedule_ops [simp]:
  "resetSchedule (fst (limiter_allow l t n)) = resetSchedule l"
  "resetSchedule (run_relax l t) = resetSchedule l"
  by (auto simp: limiter_allow_def run_relax_def split: prod.splits bucket.splits)

lemma lim_run_accesses:
  assumes "\<And>d. \<not> is_panic (norm d)" and "before (sch_next (resetSchedule l)) es"
  shows "lim_run norm l es = run_accesses limiter_allow run_relax l (to_accesses norm l es)"
  using assms(2)
proof (induction es arbitrary: l)
  case (Cons e es)
  show ?case
  proof (cases e)
    case (Request now sd k)
    with Cons.prems have same: "reset_if_time l now = l" and rest: "before (sch_next (resetSchedule l)) es"
      using reset_if_time_cases [of l now] by auto
    show ?thesis
    proof (cases "applicable norm l sd k")
      case None
      with Request same Cons.IH [OF rest] show ?thesis
        by (simp add: limiter_AccessAllowed_applicable [OF assms(1)])
    next
      case (Some tn)
      obtain t n where tn: "tn = (t, n)" by (cases tn)
      obtain l2 q where a: "limiter_allow l t n = (l2, q)" by (cases "limiter_allow l t n")
      have "same_config l l2" and "resetSchedule l2 = resetSchedule l"
        using same_config_ops(2) [of l t n] resetSchedule_ops(1) [of l t n] a by simp_all
      then have IH: "lim_run norm l2 es = run_accesses limiter_allow run_relax l2 (to_accesses norm l es)"
        using Cons.IH [of l2] rest by (simp add: same_config_to_accesses)
      with Request same Some tn a limiter_allow_ticket [of l t n] show ?thesis
        by (auto simp: limiter_AccessAllowed_applicable [OF assms(1)] split: option.splits prod.splits)
    qed
  next
    case (Undo t)
    with Cons.prems Cons.IH [of "run_relax l t"] show ?thesis
      by (simp add: same_config_to_accesses [OF same_config_ops(3) [of l t]])
  qed
qed simp

lemma limited_to_accesses:
  "bucket_limit l t = Some n \<Longrightarrow> limited_to t n (to_accesses norm l es)"
  by (induction es rule: to_accesses.induct)
    (auto split: option.splits dest: applicable_bucket_limit)

lemma relaxes_to_accesses: "relaxes t (to_accesses norm l es) = undos t es"
  by (induction es rule: to_accesses.induct) (auto split: option.splits)

lemma lim_run_wf:
  assumes "\<And>d. \<not> is_panic (norm d)"
  shows "limiter_wf l \<Longrightarrow> lim_run norm l es = (l', ts) \<Longrightarrow> limiter_wf l' \<and> same_config l l'"
proof (induction es arbitrary: l ts)
  case (Cons e es)
  show ?case
  proof (cases e)
    case (Request now sd k)
    obtain l1 r where a: "limiter_AccessAllowed norm l now sd k = (l1, r)"
      by (cases "limiter_AccessAllowed norm l now sd k")
    note wf = limiter_wf_access [OF Cons.prems(1) assms a]
    obtain ts' where "lim_run norm l1 es = (l', ts')"
      using Cons.prems(2) Request a by (auto split: result.splits option.splits prod.splits)
    with wf Cons.IH [of l1 ts'] show ?thesis by (blast intro: same_config_trans)
  next
    case (Undo t)
    with Cons limiter_wf_relax [of l t] show ?thesis
      by (metis lim_run.simps(3) same_config_ops(3) same_config_trans)
  qed
qed simp

section \<open>Properties\<close>

text \<open>
  C19: Rule precedence, on every branch.  After the reset that may be due, a request is
  counted against exactly one counter: that of its key if the key is listed, else that of the
  longest listed label suffix of its domain, else, if public access is enabled, that of its
  registered domain; it is granted exactly if that counter is below the limit, and refused
  without any effect on a counter if no rule applies.
\<close>

theorem limiter_AccessAllowed_precedence:
  assumes "\<forall>d. \<not> is_panic (norm d)"
  shows "limiter_AccessAllowed norm l now sd k =
    (let l1 = reset_if_time l now in
     case applicable norm l1 sd k of
       None \<Rightarrow> (l1, Ok None)
     | Some (t, limit) \<Rightarrow>
         if limiter_count l1 t < limit then (fst (limiter_allow l1 t limit), Ok (Some t))
         else (l1, Ok None))"
proof -
  have allow: "(case limiter_allow l1 t n of (l2, r) \<Rightarrow> (l2, Ok r)) =
      (if limiter_count l1 t < n then (fst (limiter_allow l1 t n), Ok (Some t)) else (l1, Ok None))" for l1 t n
    using lim.allow_grant [of l1 t n] lim.allow_refuse [of n l1 t] by auto
  show ?thesis
    unfolding limiter_AccessAllowed_applicable [OF spec [OF assms]] Let_def allow ..
qed

theorem limiter_AccessAllowed_precedence_witness:
  "let l = \<lparr>allowedKeys = Map.empty, allowedDomains = [''a.org'' \<mapsto> 5, ''x.a.org'' \<mapsto> 0], allowPublic = 0,
        domainDb = empty_DomainDb, keyCounts = \<lparr>counts = Map.empty\<rparr>,
        domainCounts = \<lparr>counts = Map.empty\<rparr>, publicCounts = \<lparr>counts = Map.empty\<rparr>,
        resetSchedule = \<lparr>sch_next = 10\<rparr>\<rparr>
   in (\<forall>d. \<not> is_panic (Ok d))
    \<and> snd (limiter_AccessAllowed Ok l 0 (Some ''y.a.org'') ''k'') = Ok (Some (DomainBucket, ''a.org''))
    \<and> snd (limiter_AccessAllowed Ok l 0 (Some ''x.a.org'') ''k'') = Ok None"
proof -
  define l where "l = \<lparr>allowedKeys = Map.empty, allowedDomains = [''a.org'' \<mapsto> 5, ''x.a.org'' \<mapsto> 0],
        allowPublic = 0, domainDb = empty_DomainDb, keyCounts = \<lparr>counts = Map.empty\<rparr>,
        domainCounts = \<lparr>counts = Map.empty\<rparr>, publicCounts = \<lparr>counts = Map.empty\<rparr>,
        resetSchedule = \<lparr>sch_next = 10\<rparr>\<rparr>"
  have np: "\<forall>d. \<not> is_panic (Ok d)" by simp
  have r: "reset_if_time l 0 = l"
    by (simp add: reset_if_time_def schedule_IsTime_def l_def)
  have y: "applicable Ok l (Some ''y.a.org'') ''k'' = Some ((DomainBucket, ''a.org''), 5)"
    by (simp add: applicable_def l_def label_suffixes.simps)
  have x: "applicable Ok l (Some ''x.a.org'') ''k'' = Some ((DomainBucket, ''x.a.org''), 0)"
    by (simp add: applicable_def l_def label_suffixes.simps)
  have c: "limiter_count l t = 0" for t
    by (simp add: limiter_counter_defs l_def split: prod.split bucket.split)
  show ?thesis
    using np limiter_AccessAllowed_precedence [OF np, of l 0 "Some ''y.a.org''" "''k''"]
      limiter_AccessAllowed_precedence [OF np, of l 0 "Some ''x.a.org''" "''k''"]
    unfolding l_def [symmetric] by (simp add: Let_def r x y c)
qed

text \<open>
  C18: The daily limit holds.  Over any run of requests and undo calls within one period
  of the schedule, for every counter with its configured limit: the count at the start plus the
  granted requests exceed the limit by at most the undo calls.
\<close>

theorem limiter_daily_limit:
  assumes "\<forall>d. \<not> is_panic (norm d)" and "limiter_wf l"
    and "before (sch_next (resetSchedule l)) es" and "lim_run norm l es = (l', ts)"
    and "bucket_limit l t = Some n"
  shows "limiter_count l t + int (count_list ts t) \<le> n + int (undos t es) \<and> limiter_wf l'"
proof -
  have np: "\<And>d. \<not> is_panic (norm d)" using assms(1) by blast
  have "run_accesses limiter_allow run_relax l (to_accesses norm l es) = (l', ts)"
    using assms(4) lim_run_accesses [OF np assms(3)] by simp
  from lim.run_count_bounds [OF this limited_to_accesses [OF assms(5)]]
  have "limiter_count l t + int (count_list ts t) \<le> n + int (undos t es)"
    using limiter_wfD(1) [OF assms(2), of t] limiter_wfD(2) [OF assms(2,5)] by (simp add: relaxes_to_accesses)
  then show ?thesis using lim_run_wf [OF np assms(2,4)] by simp
qed

theorem limiter_daily_limit_witness:
  "let l = \<lparr>allowedKeys = [''k'' \<mapsto> 1], allowedDomains = Map.empty, allowPublic = 0,
        domainDb = empty_DomainDb, keyCounts = \<lparr>counts = Map.empty\<rparr>,
        domainCounts = \<lparr>counts = Map.empty\<rparr>, publicCounts = \<lparr>counts = Map.empty\<rparr>,
        resetSchedule = \<lparr>sch_next = 10\<rparr>\<rparr>;
       es = [Request 0 None ''k'', Request 1 None ''k'', Undo (KeyBucket, ''k''), Request 2 None ''k'']
   in snd (lim_run Ok l es) = [(KeyBucket, ''k''), (KeyBucket, ''k'')]
    \<and> limiter_count l (KeyBucket, ''k'') + int (count_list (snd (lim_run Ok l es)) (KeyBucket, ''k''))
        \<le> 1 + int (undos (KeyBucket, ''k'') es)"
proof -
  define l where "l = \<lparr>allowedKeys = [''k'' \<mapsto> 1], allowedDomains = Map.empty, allowPublic = 0,
        domainDb = empty_DomainDb, keyCounts = \<lparr>counts = Map.empty\<rparr>,
        domainCounts = \<lparr>counts = Map.empty\<rparr>, publicCounts = \<lparr>counts = Map.empty\<rparr>,
        resetSchedule = \<lparr>sch_next = 10\<rparr>\<rparr>"
  define es where
    "es = [Request 0 None ''k'', Request 1 None ''k'', Undo (KeyBucket, ''k''), Request 2 None ''k'']"
  have np: "\<forall>d. \<not> is_panic (Ok d)" by simp
  have wf: "limiter_wf l"
    by (auto simp: limiter_wf_def bucket_limit_def l_def limiter_counter_defs split: bucket.splits if_splits)
  have b: "before (sch_next (resetSchedule l)) es" by (simp add: l_def es_def)
  have run: "snd (lim_run Ok l es) = [(KeyBucket, ''k''), (KeyBucket, ''k'')]"
    by (simp add: l_def es_def limiter_AccessAllowed_def reset_if_time_def schedule_IsTime_def
        accessCounts_defs run_relax_def)
  obtain l' where l': "lim_run Ok l es = (l', [(KeyBucket, ''k''), (KeyBucket, ''k'')])"
    using run by (cases "lim_run Ok l es") auto
  have n: "bucket_limit l (KeyBucket, ''k'') = Some 1" by (simp add: bucket_limit_def l_def)
  show ?thesis
    using limiter_daily_limit [OF np wf b l' n] run l'
    unfolding l_def [symmetric] es_def [symmetric] by (simp add: Let_def)
qed

text \<open>
  C20: Every limiter that \<open>newLimiter\<close> creates satisfies the invariant, and every
  sequence of requests and undo calls keeps it: no counter is ever negative or above its limit,
  the configuration never changes, and \<open>AccessAllowed\<close> never panics.
\<close>

theorem limiter_invariant:
  assumes "\<forall>d. \<not> is_panic (norm d)" and "newLimiter norm open_file cf allow now0 = Ok l0"
    and "lim_run norm l0 es = (l, ts)"
  shows "limiter_wf l \<and> same_config l0 l \<and> \<not> is_panic (snd (limiter_AccessAllowed norm l now sd k))"
proof -
  have np: "\<And>d. \<not> is_panic (norm d)" using assms(1) by blast
  have "limiter_wf l \<and> same_config l0 l"
    using newLimiter_wf [OF assms(2)] assms(3) by (rule lim_run_wf [OF np])
  moreover obtain l' r where a: "limiter_AccessAllowed norm l now sd k = (l', r)"
    by (cases "limiter_AccessAllowed norm l now sd k")
  ultimately show ?thesis using limiter_wf_access [OF _ np a] by simp
qed

theorem limiter_invariant_witness:
  "let r = newLimiter Ok (\<lambda>_. Err ErrNotExist) \<lparr>rd_data = [], rd_err = None\<rparr> False 0 in
   \<exists>l0. r = Ok l0 \<and> limiter_wf (fst (lim_run Ok l0 [Request 0 None ''k'']))"
proof -
  let ?r = "newLimiter Ok (\<lambda>_. Err ErrNotExist) \<lparr>rd_data = [], rd_err = None\<rparr> False 0"
  obtain l0 where r: "?r = Ok l0"
    by (simp add: newLimiter_def ParseConfig_def scan_lines_def empty_Config_def Let_def)
  obtain l ts where run: "lim_run Ok l0 [Request 0 None ''k''] = (l, ts)"
    by (cases "lim_run Ok l0 [Request 0 None ''k'']")
  have np: "\<forall>d. \<not> is_panic (Ok d)" by simp
  from limiter_invariant [OF np r run] r run show ?thesis by (auto simp: Let_def)
qed

text \<open>
  Unless it is allowed explicitly, the test domain is banned: for the whole life of
  the limiter, a request whose key is not listed is refused if its domain is
  \<open>test.sigsum.org\<close> or a subdomain of it for which the configuration lists no longer
  label suffix.
\<close>

theorem test_domain_banned:
  assumes "\<forall>d. \<not> is_panic (norm d)" and "newLimiter norm open_file cf False now0 = Ok l0"
    and "lim_run norm l0 es = (l, ts)"
    and "allowedKeys l0 k = None" and "norm sd = Ok d" and "testDomain \<in> set (label_suffixes d)"
    and "\<forall>s\<in>set (label_suffixes d). length testDomain < length s \<longrightarrow> allowedDomains l0 s = None"
  shows "snd (limiter_AccessAllowed norm l now (Some sd) k) = Ok None"
proof -
  have inv: "limiter_wf l \<and> same_config l0 l"
    using newLimiter_wf [OF assms(2)] assms(3) by (rule lim_run_wf [OF spec [OF assms(1)]])
  let ?l = "reset_if_time l now"
  have sc: "same_config l0 ?l" using inv same_config_trans by (metis same_config_ops(4))
  have lower: "ToLower testDomain = testDomain" by (simp add: ToLower_def testDomain_def)
  have zero: "allowedDomains l0 testDomain = Some 0"
    using assms(2) lower by (auto simp: newLimiter_def outcome_simps Let_def)
  have "find (\<lambda>s. allowedDomains l0 s \<noteq> None) (label_suffixes d) = Some testDomain"
    using assms(6,7) zero by (intro find_decreasing label_suffixes_decreasing) auto
  then have "applicable norm ?l (Some sd) k = Some ((DomainBucket, testDomain), 0)"
    using assms(4,5) zero by (simp add: same_config_applicable [OF sc] applicable_def)
  moreover have "\<not> limiter_count ?l (DomainBucket, testDomain) < 0"
    using limiter_wfD(1) [OF limiter_wf_reset, of l now] inv by (simp add: not_less)
  ultimately show ?thesis using assms(1) lim.allow_refuse [of 0 ?l "(DomainBucket, testDomain)"]
    by (simp add: limiter_AccessAllowed_applicable Let_def)
qed

theorem test_domain_banned_witness:
  "let r = newLimiter Ok (\<lambda>_. Err ErrNotExist) \<lparr>rd_data = [], rd_err = None\<rparr> False 0 in
   \<exists>l0. r = Ok l0 \<and> snd (limiter_AccessAllowed Ok l0 5 (Some ''test.sigsum.org'') ''k'') = Ok None"
proof -
  let ?r = "newLimiter Ok (\<lambda>_. Err ErrNotExist) \<lparr>rd_data = [], rd_err = None\<rparr> False 0"
  obtain l0 where r: "?r = Ok l0" and k: "allowedKeys l0 = Map.empty"
    by (simp add: newLimiter_def ParseConfig_def scan_lines_def empty_Config_def Let_def)
  have np: "\<forall>d. \<not> is_panic (Ok d)" by simp
  have ls: "label_suffixes ''test.sigsum.org'' = [''test.sigsum.org'', ''sigsum.org'', ''org'']"
    by (simp add: label_suffixes.simps)
  have "snd (limiter_AccessAllowed Ok l0 5 (Some ''test.sigsum.org'') ''k'') = Ok None"
    by (rule test_domain_banned [OF np r, where es = "[]" and d = "''test.sigsum.org''"])
      (simp_all add: k ls testDomain_def)
  with r show ?thesis by (simp add: Let_def)
qed

text \<open>
  Undoing an access is exact: if the closure of a granted access is called before
  the next reset, every counter is as if the access had not been made.
\<close>

theorem limiter_undo_exact:
  assumes "\<forall>d. \<not> is_panic (norm d)" and "limiter_wf l"
    and "limiter_AccessAllowed norm l now sd k = (l', Ok (Some t))"
  shows "limiter_count (run_relax l' t) = limiter_count (reset_if_time l now)
    \<and> limiter_count l' = (limiter_count (reset_if_time l now))(t := limiter_count (reset_if_time l now) t + 1)"
proof -
  let ?l = "reset_if_time l now"
  obtain u n where u: "limiter_allow ?l u n = (l', Some t)"
    using assms(1,3)
    by (auto simp: limiter_AccessAllowed_applicable Let_def split: option.splits prod.splits)
  have a: "limiter_allow ?l t n = (l', Some t)" using u limiter_allow_ticket [OF u] by simp
  have lt: "limiter_count ?l t < n"
    using a lim.allow_refuse [of n ?l t] by (cases "limiter_count ?l t < n") auto
  then have c: "limiter_count l' = (limiter_count ?l)(t := limiter_count ?l t + 1)"
    using a lim.allow_grant [of ?l t n] by auto
  have "0 \<le> limiter_count ?l t" using limiter_wfD(1) [OF limiter_wf_reset [OF assms(2)]] .
  then show ?thesis using c by (simp add: lim.relax_count)
qed

theorem limiter_undo_exact_witness:
  "let l = \<lparr>allowedKeys = [''k'' \<mapsto> 1], allowedDomains = Map.empty, allowPublic = 0,
        domainDb = empty_DomainDb, keyCounts = \<lparr>counts = Map.empty\<rparr>,
        domainCounts = \<lparr>counts = Map.empty\<rparr>, publicCounts = \<lparr>counts = Map.empty\<rparr>,
        resetSchedule = \<lparr>sch_next = 10\<rparr>\<rparr>;
       (l', r) = limiter_AccessAllowed Ok l 0 None ''k''
   in r = Ok (Some (KeyBucket, ''k''))
    \<and> limiter_count (run_relax l' (KeyBucket, ''k'')) = limiter_count (reset_if_time l 0)"
proof -
  define l where "l = \<lparr>allowedKeys = [''k'' \<mapsto> 1], allowedDomains = Map.empty, allowPublic = 0,
        domainDb = empty_DomainDb, keyCounts = \<lparr>counts = Map.empty\<rparr>,
        domainCounts = \<lparr>counts = Map.empty\<rparr>, publicCounts = \<lparr>counts = Map.empty\<rparr>,
        resetSchedule = \<lparr>sch_next = 10\<rparr>\<rparr>"
  have np: "\<forall>d. \<not> is_panic (Ok d)" by simp
  have wf: "limiter_wf l"
    by (auto simp: limiter_wf_def bucket_limit_def l_def limiter_counter_defs split: bucket.splits if_splits)
  obtain l' where a: "limiter_AccessAllowed Ok l 0 None ''k'' = (l', Ok (Some (KeyBucket, ''k'')))"
    by (simp add: l_def limiter_AccessAllowed_def reset_if_time_def schedule_IsTime_def accessCounts_defs)
  show ?thesis
    using limiter_undo_exact [OF np wf a] a unfolding l_def [symmetric] by (simp add: Let_def)
qed

lemma access_when_reset_due:
  assumes "\<forall>d. \<not> is_panic (norm d)" and "allowedKeys l k = Some limit" and "0 < limit"
    and "sch_next (resetSchedule l) \<le> now"
  shows "\<exists>l2. limiter_AccessAllowed norm l now None k = (l2, Ok (Some (KeyBucket, k)))
    \<and> allowedKeys l2 = allowedKeys l
    \<and> sch_next (resetSchedule l2) = sch_next (resetSchedule l) + schedulePeriod"
proof -
  let ?l = "reset_if_time l now"
  have "limiter_count ?l = (\<lambda>_. 0)" using assms(4) reset_if_time_cases [of l now] by auto
  with lim.allow_grant [of ?l "(KeyBucket, k)" limit] assms(3)
  obtain l2 where a: "limiter_allow ?l (KeyBucket, k) limit = (l2, Some (KeyBucket, k))" by auto
  have "applicable norm ?l None k = Some ((KeyBucket, k), limit)"
    using assms(2) by (simp add: same_config_applicable [OF same_config_ops(4)] applicable_def)
  then have "limiter_AccessAllowed norm l now None k = (l2, Ok (Some (KeyBucket, k)))"
    using assms(1) a by (simp add: limiter_AccessAllowed_applicable Let_def)
  moreover have "same_config l l2" and "resetSchedule l2 = resetSchedule ?l"
    using same_config_trans [OF same_config_ops(4) [of l now] same_config_ops(2) [of ?l "(KeyBucket, k)" limit]]
      resetSchedule_ops(1) [of ?l "(KeyBucket, k)" limit] a by simp_all
  moreover have "sch_next (resetSchedule ?l) = sch_next (resetSchedule l) + schedulePeriod"
    using assms(4) by (simp add: reset_if_time_def schedule_IsTime_def)
  ultimately show ?thesis by (simp add: same_config_def)
qed

text \<open>
  The reset schedule catches up one period per request.  When the log has seen no
  request for several periods, the next requests reset the counters one by one until the
  schedule has caught up, so a listed key with a positive limit is granted one access per
  missed period at the same instant, however small its limit.
\<close>

theorem reset_catch_up_exceeds_limit:
  assumes "\<forall>d. \<not> is_panic (norm d)" and "allowedKeys l k = Some limit" and "0 < limit"
    and "sch_next (resetSchedule l) + int m * schedulePeriod \<le> now"
  shows "snd (lim_run norm l (replicate (Suc m) (Request now None k))) = replicate (Suc m) (KeyBucket, k)"
  using assms(2,4)
proof (induction m arbitrary: l)
  case (0 l)
  then obtain l2 where "limiter_AccessAllowed norm l now None k = (l2, Ok (Some (KeyBucket, k)))"
    using access_when_reset_due [OF assms(1) 0(1) assms(3)] by auto
  then show ?case by simp
next
  case (Suc m l)
  have due: "sch_next (resetSchedule l) \<le> now"
    "sch_next (resetSchedule l) + schedulePeriod + int m * schedulePeriod \<le> now"
    using Suc.prems(2) by (simp_all add: schedulePeriod_def)
  obtain l2 where a: "limiter_AccessAllowed norm l now None k = (l2, Ok (Some (KeyBucket, k)))"
    and l2: "allowedKeys l2 = allowedKeys l"
    "sch_next (resetSchedule l2) = sch_next (resetSchedule l) + schedulePeriod"
    using access_when_reset_due [OF assms(1) Suc.prems(1) assms(3) due(1)] by blast
  have "snd (lim_run norm l2 (replicate (Suc m) (Request now None k))) = replicate (Suc m) (KeyBucket, k)"
    using Suc.prems(1) l2 due(2) by (intro Suc.IH) simp_all
  then show ?case using a
    by (cases "lim_run norm l2 (replicate (Suc m) (Request now None k))") simp
qed

theorem reset_catch_up_exceeds_limit_witness:
  "let l = \<lparr>allowedKeys = [''k'' \<mapsto> 1], allowedDomains = Map.empty, allowPublic = 0,
        domainDb = empty_DomainDb, keyCounts = \<lparr>counts = Map.empty\<rparr>,
        domainCounts = \<lparr>counts = Map.empty\<rparr>, publicCounts = \<lparr>counts = Map.empty\<rparr>,
        resetSchedule = \<lparr>sch_next = schedulePeriod\<rparr>\<rparr>
   in snd (lim_run Ok l (replicate 3 (Request (3 * schedulePeriod) None ''k''))) = replicate 3 (KeyBucket, ''k'')"
proof -
  define l where "l = \<lparr>allowedKeys = [''k'' \<mapsto> (1::int)], allowedDomains = Map.empty, allowPublic = 0,
        domainDb = empty_DomainDb, keyCounts = \<lparr>counts = Map.empty\<rparr>,
        domainCounts = \<lparr>counts = Map.empty\<rparr>, publicCounts = \<lparr>counts = Map.empty\<rparr>,
        resetSchedule = \<lparr>sch_next = schedulePeriod\<rparr>\<rparr>"
  have "snd (lim_run Ok l (replicate (Suc 2) (Request (3 * schedulePeriod) None ''k''))) = replicate (Suc 2) (KeyBucket, ''k'')"
    by (rule reset_catch_up_exceeds_limit [where limit = 1]) (simp_all add: l_def schedulePeriod_def)
  then show ?thesis unfolding l_def [symmetric] by (simp add: Let_def numeral_3_eq_3)
qed

end
