(* ===== verification/Trillian_Client.thy ===== *)
theory Trillian_Client
  imports Db_Client Go_Text
begin

text \<open>
  The persistent backend of \<open>internal/db/trillian.go\<close>: a client of Trillian's gRPC
  log service.  The service, the gRPC status codes and the decoding of log roots are outside of
  this repository: they are the fields of the record \<open>trillian\<close> over the state
  \<open>'s\<close> of the service.  A pointer or slice in a response that can be nil is an option.
  \<open>elapse\<close> is what happens to the service while the client sleeps between two attempts.
\<close>

section \<open>The remote service\<close>

record LogLeaf =
  LeafValue :: bytes
  LeafIndex :: i64

record LogProof =
  pf_LeafIndex :: i64
  pf_Hashes :: "bytes list"

record LogRootV1 =
  lr_TreeSize :: u64
  lr_RootHash :: bytes

datatype TrillianTreeType = LOG | PREORDERED_LOG | OTHER_TREE_TYPE

record 's trillian =
  QueueLeaf :: "i64 \<Rightarrow> bytes \<Rightarrow> 's \<Rightarrow> 's \<times> go_error option"
  rpc_AddSequencedLeaves :: "i64 \<Rightarrow> LogLeaf list \<Rightarrow> 's \<Rightarrow> 's \<times> unit option \<times> go_error option"
  GetLatestSignedLogRoot :: "i64 \<Rightarrow> 's \<Rightarrow> 's \<times> bytes option option option \<times> go_error option"
  rpc_GetConsistencyProof :: "i64 \<Rightarrow> i64 \<Rightarrow> i64 \<Rightarrow> 's \<Rightarrow> 's \<times> bytes list option option \<times> go_error option"
  GetInclusionProofByHash :: "i64 \<Rightarrow> hash \<Rightarrow> i64 \<Rightarrow> 's \<Rightarrow> 's \<times> LogProof option list option \<times> go_error option"
  GetLeavesByRange :: "i64 \<Rightarrow> i64 \<Rightarrow> i64 \<Rightarrow> 's \<Rightarrow> 's \<times> LogLeaf option list option \<times> go_error option"
  UnmarshalLogRoot :: "bytes \<Rightarrow> LogRootV1 result"
  status_Code :: "go_error option \<Rightarrow> nat"
  elapse :: "nat \<Rightarrow> 's \<Rightarrow> 's"

abbreviation (input) codes_OK :: nat where "codes_OK \<equiv> 0"
abbreviation (input) codes_NotFound :: nat where "codes_NotFound \<equiv> 5"
abbreviation (input) codes_AlreadyExists :: nat where "codes_AlreadyExists \<equiv> 6"
abbreviation (input) codes_ResourceExhausted :: nat where "codes_ResourceExhausted \<equiv> 8"

section \<open>Client\<close>

record 's TrillianClient =
  treeID :: i64
  logClient :: "'s trillian"

type_synonym TreeType = int

definition PrimaryTree :: TreeType where "PrimaryTree = 0"
definition SecondaryTree :: TreeType where "SecondaryTree = 1"

definition checkTrillianTreeType :: "TreeType \<Rightarrow> TrillianTreeType \<Rightarrow> unit result" where
  "checkTrillianTreeType treeType t =
     (if treeType = PrimaryTree then
        (if t \<noteq> LOG then Err (Errorf ''must be of type LOG for a Sigsum primary'') else Ok ())
      else if treeType = SecondaryTree then
        (if t \<noteq> PREORDERED_LOG then Err (Errorf ''must be of type PREORDERED_LOG for a Sigsum secondary'')
         else Ok ())
      else Panic ''internal error, invalid tree type'')"

definition readTreeId ::
    "(string \<Rightarrow> bytes result) \<Rightarrow> (bytes \<Rightarrow> string \<Rightarrow> u64 result) \<Rightarrow> string \<Rightarrow> u64 result" where
  \<comment> \<open>\<open>getInt\<close> is \<open>ascii.Parser.GetInt\<close>, outside of this repository\<close>
  "readTreeId open getInt file =
     (case open file of Err e \<Rightarrow> Err e | Panic m \<Rightarrow> Panic m | Ok f \<Rightarrow> getInt f ''tree-id'')"

definition DialTrillian ::
    "(string \<Rightarrow> bytes result) \<Rightarrow> (bytes \<Rightarrow> string \<Rightarrow> u64 result) \<Rightarrow> (string \<Rightarrow> time \<Rightarrow> 's trillian result)
     \<Rightarrow> ('s trillian \<Rightarrow> i64 \<Rightarrow> TrillianTreeType result)
     \<Rightarrow> string \<Rightarrow> time \<Rightarrow> TreeType \<Rightarrow> string \<Rightarrow> 's TrillianClient result" where
  \<comment> \<open>\<open>dial\<close> is \<open>grpc.Dial\<close>, \<open>getTree\<close> the admin service's \<open>GetTree\<close>\<close>
  "DialTrillian open getInt dial getTree target timeout treeType treeIdFile =
     (case readTreeId open getInt treeIdFile of
        Err e \<Rightarrow> Err (Errorf ''failed to read tree id'')
      | Panic m \<Rightarrow> Panic m
      | Ok treeId \<Rightarrow>
     (case dial target timeout of
        Err e \<Rightarrow> Err (Errorf ''connection to trillian failed'')
      | Panic m \<Rightarrow> Panic m
      | Ok conn \<Rightarrow>
     bind_result (getTree conn treeId) (\<lambda>tt.
     bind_result (checkTrillianTreeType treeType tt) (\<lambda>_.
     Ok \<lparr>treeID = treeId, logClient = conn\<rparr>))))"

definition treeHeadFromLogRoot :: "LogRootV1 \<Rightarrow> TreeHead" where
  "treeHeadFromLogRoot lr = \<lparr>Size = lr_TreeSize lr, RootHash = copy_array HashSize (lr_RootHash lr)\<rparr>"

definition nodePathFromHashes :: "bytes list \<Rightarrow> hash list result" where
  "nodePathFromHashes hashes =
     mapM_result (\<lambda>h. if length h \<noteq> HashSize then Err (Errorf ''unexpected hash length'')
                     else Ok (copy_array HashSize h)) hashes"

definition TrillianClient_GetInclusionProof ::
    "'s TrillianClient \<Rightarrow> InclusionRequest \<Rightarrow> 's \<Rightarrow> 's \<times> InclusionProof result" where
  "TrillianClient_GetInclusionProof c req s =
     (case GetInclusionProofByHash (logClient c) (treeID c) (ir_LeafHash req) (ir_Size req) s of
        (s', rsp, Some e) \<Rightarrow>
          (s', if status_Code (logClient c) (Some e) = codes_NotFound then Err ErrNotIncluded
               else Err (Errorf ''backend failure''))
      | (s', None, None) \<Rightarrow> (s', Err ErrNotIncluded)
      | (s', Some [p], None) \<Rightarrow>
          (s', case p of
                 None \<Rightarrow> Panic ''nil pointer dereference''
               | Some proof \<Rightarrow>
                   if pf_Hashes proof = [] then Err ErrEmptyInclusionProof
                   else case nodePathFromHashes (pf_Hashes proof) of
                          Err e \<Rightarrow> Err (Errorf ''not an inclusion proof'')
                        | Panic m \<Rightarrow> Panic m
                        | Ok path \<Rightarrow> Ok \<lparr>ip_LeafIndex = pf_LeafIndex proof, ip_Path = path\<rparr>)
      | (s', Some _, None) \<Rightarrow> (s', Err (Errorf ''bad proof count'')))"

definition TrillianClient_AddLeaf ::
    "leaf_codec \<Rightarrow> 's TrillianClient \<Rightarrow> Leaf \<Rightarrow> u64 \<Rightarrow> 's \<Rightarrow> 's \<times> AddLeafStatus result" where
  "TrillianClient_AddLeaf cd c leaf treeSize s =
     (let serialized = ToBinary cd leaf in
      case QueueLeaf (logClient c) (treeID c) serialized s of
        (s1, err) \<Rightarrow>
          let code = status_Code (logClient c) err in
          if code \<noteq> codes_OK \<and> code \<noteq> codes_AlreadyExists then (s1, Err (Errorf ''back-end rpc failure''))
          else
            let alreadyExists = (code = codes_AlreadyExists) in
            if treeSize = 0 then (s1, Ok \<lparr>AlreadyExists = alreadyExists, IsSequenced = False\<rparr>)
            else
              case TrillianClient_GetInclusionProof c
                     \<lparr>ir_Size = treeSize, ir_LeafHash = HashLeafNode cd serialized\<rparr> s1 of
                (s2, r) \<Rightarrow>
                  (s2, case r of
                         Ok _ \<Rightarrow> Ok \<lparr>AlreadyExists = alreadyExists, IsSequenced = True\<rparr>
                       | Panic m \<Rightarrow> Panic m
                       | Err e \<Rightarrow>
                           if e = ErrNotIncluded then Ok \<lparr>AlreadyExists = alreadyExists, IsSequenced = False\<rparr>
                           else if e = ErrEmptyInclusionProof \<and> treeSize = 1
                           then Ok \<lparr>AlreadyExists = alreadyExists, IsSequenced = True\<rparr>
                           else Err (Errorf ''back-end rpc failure'')))"

function add_sequenced_retry ::
    "'s TrillianClient \<Rightarrow> LogLeaf list \<Rightarrow> nat \<Rightarrow> 's \<Rightarrow> 's \<times> unit result" where
  \<comment> \<open>\<open>for wait := 1; wait < 30; wait *= 2\<close>; the wait is positive\<close>
  "add_sequenced_retry c leaves wait s =
     (if 0 < wait \<and> wait < 30 then
        case rpc_AddSequencedLeaves (logClient c) (treeID c) leaves s of
          (s', rsp, err) \<Rightarrow>
            let code = status_Code (logClient c) err in
            if code = codes_ResourceExhausted
            then add_sequenced_retry c leaves (wait * 2) (elapse (logClient c) wait s')
            else if code = codes_OK
            then (s', if rsp = None then Err (Errorf ''logClient.AddSequencedLeaves no response'') else Ok ())
            else (s', Err (Errorf ''logClient.AddSequencedLeaves error''))
      else (s, Err (Errorf ''giving up on adding leaves'')))"
  by pat_completeness auto
termination
  by (relation "measure (\<lambda>(c, leaves, wait, s). 30 - wait)") auto

declare add_sequenced_retry.simps [simp del]

definition trilLeaves :: "leaf_codec \<Rightarrow> Leaf list \<Rightarrow> i64 \<Rightarrow> LogLeaf list" where
  "trilLeaves cd leaves index =
     map (\<lambda>i. \<lparr>LeafValue = ToBinary cd (leaves ! i), LeafIndex = index + of_nat i\<rparr>) [0 ..< length leaves]"

definition TrillianClient_AddSequencedLeaves ::
    "leaf_codec \<Rightarrow> 's TrillianClient \<Rightarrow> Leaf list \<Rightarrow> i64 \<Rightarrow> 's \<Rightarrow> 's \<times> unit result" where
  "TrillianClient_AddSequencedLeaves cd c leaves index s =
     add_sequenced_retry c (trilLeaves cd leaves index) 1 s"

definition TrillianClient_GetTreeHead :: "'s TrillianClient \<Rightarrow> 's \<Rightarrow> 's \<times> TreeHead result" where
  "TrillianClient_GetTreeHead c s =
     (case GetLatestSignedLogRoot (logClient c) (treeID c) s of
        (s', rsp, Some e) \<Rightarrow> (s', Err (Errorf ''backend failure''))
      | (s', None, None) \<Rightarrow> (s', Err (Errorf ''no response''))
      | (s', Some None, None) \<Rightarrow> (s', Err (Errorf ''no signed log root''))
      | (s', Some (Some None), None) \<Rightarrow> (s', Err (Errorf ''no log root''))
      | (s', Some (Some (Some root)), None) \<Rightarrow>
          (s', case UnmarshalLogRoot (logClient c) root of
                 Err e \<Rightarrow> Err (Errorf ''no log root: unmarshal failed'')
               | Panic m \<Rightarrow> Panic m
               | Ok r \<Rightarrow> if length (lr_RootHash r) \<noteq> HashSize then Err (Errorf ''unexpected hash length'')
                        else Ok (treeHeadFromLogRoot r)))"

definition TrillianClient_GetConsistencyProof ::
    "'s TrillianClient \<Rightarrow> ConsistencyRequest \<Rightarrow> 's \<Rightarrow> 's \<times> ConsistencyProof result" where
  "TrillianClient_GetConsistencyProof c req s =
     (if OldSize req = 0 \<or> OldSize req = NewSize req then (s, Ok \<lparr>cp_Path = []\<rparr>)
      else case rpc_GetConsistencyProof (logClient c) (treeID c) (OldSize req) (NewSize req) s of
             (s', rsp, Some e) \<Rightarrow> (s', Err (Errorf ''backend failure''))
           | (s', None, None) \<Rightarrow> (s', Err (Errorf ''no response''))
           | (s', Some None, None) \<Rightarrow> (s', Err (Errorf ''no consistency proof''))
           | (s', Some (Some hashes), None) \<Rightarrow>
               (s', case nodePathFromHashes hashes of
                      Err e \<Rightarrow> Err (Errorf ''not a consistency proof'')
                    | Panic m \<Rightarrow> Panic m
                    | Ok path \<Rightarrow> Ok \<lparr>cp_Path = path\<rparr>))"

fun check_leaves :: "leaf_codec \<Rightarrow> u64 \<Rightarrow> LogLeaf option list \<Rightarrow> Leaf list result" where
  \<comment> \<open>the loop of \<open>GetLeaves\<close>; the first argument is \<open>req.StartIndex + uint64(i)\<close>\<close>
  "check_leaves cd index [] = Ok []"
| "check_leaves cd index (None # rest) = Panic ''nil pointer dereference''"
| "check_leaves cd index (Some leaf # rest) =
     (if index \<noteq> LeafIndex leaf then Err (Errorf ''unexpected leaf: got index'')
      else case FromBinary cd (LeafValue leaf) of
             Err e \<Rightarrow> Err (Errorf ''unexpected leaf'')
           | Panic m \<Rightarrow> Panic m
           | Ok l \<Rightarrow> bind_result (check_leaves cd (index + 1) rest) (\<lambda>ls. Ok (l # ls)))"

definition TrillianClient_GetLeaves ::
    "leaf_codec \<Rightarrow> 's TrillianClient \<Rightarrow> LeavesRequest \<Rightarrow> 's \<Rightarrow> 's \<times> Leaf list result" where
  "TrillianClient_GetLeaves cd c req s =
     (case GetLeavesByRange (logClient c) (treeID c) (StartIndex req) (EndIndex req - StartIndex req) s of
        (s', rsp, Some e) \<Rightarrow> (s', Err (Errorf ''backend failure''))
      | (s', None, None) \<Rightarrow> (s', Err (Errorf ''no response''))
      | (s', Some leaves, None) \<Rightarrow>
          (s', if int (length leaves) \<noteq> sint (EndIndex req - StartIndex req)
               then Err (Errorf ''unexpected number of leaves'')
               else check_leaves cd (StartIndex req) leaves))"

definition Trillian_Client :: "leaf_codec \<Rightarrow> 's TrillianClient \<Rightarrow> 's Client" where
  "Trillian_Client cd c = \<lparr>
     db_AddLeaf = TrillianClient_AddLeaf cd c,
     db_AddSequencedLeaves = TrillianClient_AddSequencedLeaves cd c,
     db_GetTreeHead = TrillianClient_GetTreeHead c,
     db_GetConsistencyProof = TrillianClient_GetConsistencyProof c,
     db_GetInclusionProof = TrillianClient_GetInclusionProof c,
     db_GetLeaves = TrillianClient_GetLeaves cd c\<rparr>"

section \<open>What the client checks itself\<close>

lemma nodePathFromHashes_iff:
  "nodePathFromHashes hs = Ok path \<longleftrightarrow> list_all (\<lambda>h. length h = HashSize) hs \<and> path = hs"
proof -
  have "(if length h \<noteq> HashSize then Err (Errorf ''unexpected hash length'') else Ok (copy_array HashSize h)) = Ok p
     \<longleftrightarrow> length h = HashSize \<and> p = h" for h p
    by auto
  then show ?thesis
    unfolding nodePathFromHashes_def mapM_result_Ok_iff
    by (auto simp: list_all2_conv_all_nth list_all_length intro!: nth_equalityI)
qed

lemma nodePathFromHashes_not_panic [simp]: "nodePathFromHashes hs \<noteq> Panic m"
  using mapM_result_not_panic [of hs "\<lambda>h. if length h \<noteq> HashSize then Err (Errorf ''unexpected hash length'')
      else Ok (copy_array HashSize h)"]
  by (auto simp: nodePathFromHashes_def is_panic_iff)

lemma check_leaves_Ok:
  assumes "check_leaves cd k rs = Ok ls"
  shows "length ls = length rs \<and> (\<forall>i < length rs. \<exists>r. rs ! i = Some r \<and> LeafIndex r = k + of_nat i
    \<and> FromBinary cd (LeafValue r) = Ok (ls ! i))"
  using assms
proof (induction rs arbitrary: k ls)
  case (Cons r rs)
  then obtain x l ls' where *: "r = Some x" "LeafIndex x = k" "FromBinary cd (LeafValue x) = Ok l"
      "check_leaves cd (k + 1) rs = Ok ls'" "ls = l # ls'"
    by (cases r) (auto simp: outcome_simps split: if_splits result.splits)
  then show ?case
    using Cons.IH [OF *(4)] by (auto simp: less_Suc_eq_0_disj add.assoc)
qed simp

lemma check_leaves_not_panic:
  assumes "None \<notin> set rs" and "\<And>b. \<not> is_panic (FromBinary cd b)"
  shows "\<not> is_panic (check_leaves cd k rs)"
  using assms(1)
proof (induction rs arbitrary: k)
  case (Cons r rs)
  then obtain x where "r = Some x" by (cases r) auto
  then show ?case
    using Cons assms(2) [of "LeafValue x"] by (auto simp: outcome_simps split: result.splits)
qed simp

text \<open>The states in which the attempts of \<open>AddSequencedLeaves\<close> are made.\<close>

fun attempt :: "'s TrillianClient \<Rightarrow> LogLeaf list \<Rightarrow> 's \<Rightarrow> nat \<Rightarrow> 's" where
  "attempt c leaves s 0 = s"
| "attempt c leaves s (Suc k) =
     elapse (logClient c) (2 ^ k) (fst (rpc_AddSequencedLeaves (logClient c) (treeID c) leaves (attempt c leaves s k)))"

definition attempt_code :: "'s TrillianClient \<Rightarrow> LogLeaf list \<Rightarrow> 's \<Rightarrow> nat \<Rightarrow> nat" where
  "attempt_code c leaves s k = status_Code (logClient c)
     (snd (snd (rpc_AddSequencedLeaves (logClient c) (treeID c) leaves (attempt c leaves s k))))"

definition attempt_outcome :: "'s TrillianClient \<Rightarrow> LogLeaf list \<Rightarrow> 's \<Rightarrow> nat \<Rightarrow> 's \<times> unit result" where
  \<comment> \<open>the outcome when attempt \<open>k\<close> is the last one, because it was not told to wait\<close>
  "attempt_outcome c leaves s k =
     (case rpc_AddSequencedLeaves (logClient c) (treeID c) leaves (attempt c leaves s k) of
        (s', rsp, err) \<Rightarrow>
          (s', if attempt_code c leaves s k \<noteq> codes_OK then Err (Errorf ''logClient.AddSequencedLeaves error'')
               else if rsp = None then Err (Errorf ''logClient.AddSequencedLeaves no response'') else Ok ()))"

lemma add_sequenced_retry_step:
  assumes "k < 5"
  shows "add_sequenced_retry c leaves (2 ^ k) (attempt c leaves s k) =
    (if attempt_code c leaves s k = codes_ResourceExhausted
     then add_sequenced_retry c leaves (2 ^ Suc k) (attempt c leaves s (Suc k))
     else attempt_outcome c leaves s k)"
proof -
  have "(2::nat) ^ k \<le> 2 ^ 4" using assms by (intro power_increasing) auto
  then have "0 < (2::nat) ^ k \<and> (2::nat) ^ k < 30" by simp
  then show ?thesis
    by (subst add_sequenced_retry.simps)
      (simp add: attempt_code_def attempt_outcome_def Let_def mult.commute split: prod.splits)
qed

lemma add_sequenced_retry_give_up:
  "add_sequenced_retry c leaves 32 s = (s, Err (Errorf ''giving up on adding leaves''))"
  by (subst add_sequenced_retry.simps) simp

lemma add_sequenced_retry_find:
  assumes "k \<le> 5"
  shows "add_sequenced_retry c leaves (2 ^ k) (attempt c leaves s k) =
     (case find (\<lambda>k. attempt_code c leaves s k \<noteq> codes_ResourceExhausted) [k ..< 5] of
        Some k \<Rightarrow> attempt_outcome c leaves s k
      | None \<Rightarrow> (attempt c leaves s 5, Err (Errorf ''giving up on adding leaves'')))"
  using assms
proof (induction rule: inc_induct)
  case base
  then show ?case using add_sequenced_retry_give_up [of c leaves] by (simp del: attempt.simps)
next
  case (step k)
  show ?case
    unfolding add_sequenced_retry_step [OF step.hyps(2)] upt_conv_Cons [OF step.hyps(2)] find.simps step.IH
    by (cases "attempt_code c leaves s k = codes_ResourceExhausted") (simp_all del: attempt.simps)
qed

text \<open>
  C28: Retrying of \<open>AddSequencedLeaves\<close>.  The client makes at most five attempts, sleeping
  1, 2, 4, 8 and 16 seconds after the attempts that the backend refused with
  \<open>ResourceExhausted\<close>.  The first attempt with another status decides the outcome (an
  error, an error for a missing response, or success); when all five are refused the call gives
  up with an error, in the state after the last sleep.
\<close>

theorem TrillianClient_AddSequencedLeaves_retry:
  "TrillianClient_AddSequencedLeaves cd c ls index s =
     (let leaves = trilLeaves cd ls index in
      case find (\<lambda>k. attempt_code c leaves s k \<noteq> codes_ResourceExhausted) [0 ..< 5] of
        Some k \<Rightarrow> attempt_outcome c leaves s k
      | None \<Rightarrow> (attempt c leaves s 5, Err (Errorf ''giving up on adding leaves'')))"
  using add_sequenced_retry_find [of 0 c "trilLeaves cd ls index" s]
  unfolding TrillianClient_AddSequencedLeaves_def Let_def attempt.simps(1) power_0 by simp

lemma TrillianClient_GetLeaves_OkE:
  assumes "TrillianClient_GetLeaves cd c req s = (s', Ok ls)"
  obtains rs where
    "GetLeavesByRange (logClient c) (treeID c) (StartIndex req) (EndIndex req - StartIndex req) s = (s', Some rs, None)"
    and "int (length ls) = sint (EndIndex req - StartIndex req)" and "length rs = length ls"
    and "\<forall>i < length ls. \<exists>r. rs ! i = Some r \<and> LeafIndex r = StartIndex req + of_nat i
            \<and> FromBinary cd (LeafValue r) = Ok (ls ! i)"
proof -
  obtain rs where rs: "GetLeavesByRange (logClient c) (treeID c) (StartIndex req) (EndIndex req - StartIndex req) s
           = (s', Some rs, None)" "int (length rs) = sint (EndIndex req - StartIndex req)"
      "check_leaves cd (StartIndex req) rs = Ok ls"
    using assms by (auto simp: TrillianClient_GetLeaves_def split: prod.splits option.splits if_splits)
  show ?thesis
    using check_leaves_Ok [OF rs(3)] rs(2) by (intro that [OF rs(1)]) simp_all
qed

text \<open>
  C27: What \<open>GetLeaves\<close> accepts from the backend, without trusting it: a successful call
  returns exactly the requested number of leaves, and leaf number \<open>i\<close> is decoded from the
  response entry that the backend itself labelled with index \<open>StartIndex + i\<close>; a short,
  long, reordered or undecodable response is an error.
\<close>

theorem TrillianClient_GetLeaves_checked:
  assumes "TrillianClient_GetLeaves cd c req s = (s', Ok ls)"
  shows "int (length ls) = sint (EndIndex req - StartIndex req) \<and>
    (\<exists>rs. GetLeavesByRange (logClient c) (treeID c) (StartIndex req) (EndIndex req - StartIndex req) s
           = (s', Some rs, None) \<and> length rs = length ls
       \<and> (\<forall>i < length ls. \<exists>r. rs ! i = Some r \<and> LeafIndex r = StartIndex req + of_nat i
            \<and> FromBinary cd (LeafValue r) = Ok (ls ! i)))"
  using assms by (rule TrillianClient_GetLeaves_OkE) auto

section \<open>The contract under the documented behaviour of the service\<close>

text \<open>
  A view of the service's state: its well-formed states, the leaves that are integrated in the
  tree, and for a pre-ordered tree the leaves that were submitted for each index.
\<close>

record 's trillian_view =
  tv_inv :: "'s \<Rightarrow> bool"
  tv_leaves :: "'s \<Rightarrow> Leaf list"
  tv_acc :: "'s \<Rightarrow> (nat \<times> Leaf) set"

definition view_grows :: "'s trillian_view \<Rightarrow> 's \<Rightarrow> 's \<Rightarrow> bool" where
  "view_grows v s s' \<longleftrightarrow> tv_inv v s' \<and> prefix (tv_leaves v s) (tv_leaves v s')"

definition trillian_ok ::
    "'s trillian \<Rightarrow> i64 \<Rightarrow> leaf_codec \<Rightarrow> merkle_spec \<Rightarrow> 's trillian_view \<Rightarrow> bool" where
  "trillian_ok tr tid cd ms v \<longleftrightarrow> codec_ok cd
   \<comment> \<open>the tree is append-only, without duplicates, with int64 sizes\<close>
   \<and> (\<forall>s. tv_inv v s \<longrightarrow> list_all leaf_wf (tv_leaves v s) \<and> distinct (map (leaf_hash cd) (tv_leaves v s))
        \<and> length (tv_leaves v s) < capacity)
   \<and> (\<forall>s l. tv_inv v s \<longrightarrow> leaf_wf l \<longrightarrow> view_grows v s (fst (QueueLeaf tr tid (ToBinary cd l) s)))
   \<and> (\<forall>s. tv_inv v s \<longrightarrow> view_grows v s (fst (GetLatestSignedLogRoot tr tid s)))
   \<and> (\<forall>s m n. tv_inv v s \<longrightarrow> view_grows v s (fst (rpc_GetConsistencyProof tr tid m n s)))
   \<and> (\<forall>s h n. tv_inv v s \<longrightarrow> view_grows v s (fst (GetInclusionProofByHash tr tid h n s)))
   \<and> (\<forall>s i n. tv_inv v s \<longrightarrow> view_grows v s (fst (GetLeavesByRange tr tid i n s)))
   \<and> (\<forall>s ls k. tv_inv v s \<longrightarrow> list_all leaf_wf ls \<longrightarrow> k + length ls < capacity \<longrightarrow>
        view_grows v s (fst (rpc_AddSequencedLeaves tr tid (trilLeaves cd ls (of_nat k)) s)))
   \<and> (\<forall>s w. tv_inv v s \<longrightarrow> view_grows v s (elapse tr w s))
   \<comment> \<open>a pre-ordered tree integrates a leaf only at the index it was submitted for\<close>
   \<and> (\<forall>s i. tv_inv v s \<longrightarrow> i < length (tv_leaves v s) \<longrightarrow> (i, tv_leaves v s ! i) \<in> tv_acc v s)
   \<and> (\<forall>s. tv_inv v s \<longrightarrow> tv_acc v (fst (GetLatestSignedLogRoot tr tid s)) \<subseteq> tv_acc v s)
   \<and> (\<forall>s w. tv_inv v s \<longrightarrow> tv_acc v (elapse tr w s) \<subseteq> tv_acc v s)
   \<and> (\<forall>s ls k. tv_inv v s \<longrightarrow> list_all leaf_wf ls \<longrightarrow> k + length ls < capacity \<longrightarrow>
        tv_acc v (fst (rpc_AddSequencedLeaves tr tid (trilLeaves cd ls (of_nat k)) s))
        \<subseteq> tv_acc v s \<union> {(k + j, ls ! j) | j. j < length ls})
   \<comment> \<open>responses describe the tree\<close>
   \<and> (\<forall>s s' root lr. tv_inv v s \<longrightarrow> GetLatestSignedLogRoot tr tid s = (s', Some (Some (Some root)), None) \<longrightarrow>
        UnmarshalLogRoot tr root = Ok lr \<longrightarrow>
        is_head_of ms cd (tv_leaves v s') \<lparr>Size = lr_TreeSize lr, RootHash = lr_RootHash lr\<rparr>)
   \<and> (\<forall>s s' h n p. tv_inv v s \<longrightarrow> GetInclusionProofByHash tr tid h n s = (s', Some [Some p], None) \<longrightarrow>
        pf_LeafIndex p < n \<and> unat (pf_LeafIndex p) < length (tv_leaves v s')
        \<and> leaf_hash cd (tv_leaves v s' ! unat (pf_LeafIndex p)) = h)
   \<and> (\<forall>s s' i n rs r. tv_inv v s \<longrightarrow> GetLeavesByRange tr tid i n s = (s', Some rs, None) \<longrightarrow>
        Some r \<in> set rs \<longrightarrow> unat (LeafIndex r) < length (tv_leaves v s')
        \<and> LeafValue r = ToBinary cd (tv_leaves v s' ! unat (LeafIndex r)))
   \<comment> \<open>decoded messages have no nil entries\<close>
   \<and> (\<forall>s s' h n ps e. GetInclusionProofByHash tr tid h n s = (s', Some ps, e) \<longrightarrow> None \<notin> set ps)
   \<and> (\<forall>s s' i n rs e. GetLeavesByRange tr tid i n s = (s', Some rs, e) \<longrightarrow> None \<notin> set rs)
   \<and> (\<forall>b. \<not> is_panic (UnmarshalLogRoot tr b))"

lemma trillian_okD:
  assumes "trillian_ok tr tid cd ms v" and "tv_inv v s"
  shows "list_all leaf_wf (tv_leaves v s) \<and> distinct (map (leaf_hash cd) (tv_leaves v s))
      \<and> length (tv_leaves v s) < capacity"
    and "leaf_wf l \<Longrightarrow> view_grows v s (fst (QueueLeaf tr tid (ToBinary cd l) s))"
    and "view_grows v s (fst (GetLatestSignedLogRoot tr tid s))"
    and "view_grows v s (fst (rpc_GetConsistencyProof tr tid m n s))"
    and "view_grows v s (fst (GetInclusionProofByHash tr tid h n s))"
    and "view_grows v s (fst (GetLeavesByRange tr tid m n s))"
    and "list_all leaf_wf ls \<Longrightarrow> k + length ls < capacity \<Longrightarrow>
        view_grows v s (fst (rpc_AddSequencedLeaves tr tid (trilLeaves cd ls (of_nat k)) s))"
    and "view_grows v s (elapse tr w s)"
    and "i < length (tv_leaves v s) \<Longrightarrow> (i, tv_leaves v s ! i) \<in> tv_acc v s"
    and "tv_acc v (fst (GetLatestSignedLogRoot tr tid s)) \<subseteq> tv_acc v s"
    and "tv_acc v (elapse tr w s) \<subseteq> tv_acc v s"
    and "list_all leaf_wf ls \<Longrightarrow> k + length ls < capacity \<Longrightarrow>
        tv_acc v (fst (rpc_AddSequencedLeaves tr tid (trilLeaves cd ls (of_nat k)) s))
        \<subseteq> tv_acc v s \<union> {(k + j, ls ! j) | j. j < length ls}"
    and "GetLatestSignedLogRoot tr tid s = (s', Some (Some (Some root)), None) \<Longrightarrow>
        UnmarshalLogRoot tr root = Ok lr \<Longrightarrow>
        is_head_of ms cd (tv_leaves v s') \<lparr>Size = lr_TreeSize lr, RootHash = lr_RootHash lr\<rparr>"
    and "GetInclusionProofByHash tr tid h n s = (s', Some [Some p], None) \<Longrightarrow>
        pf_LeafIndex p < n \<and> unat (pf_LeafIndex p) < length (tv_leaves v s')
        \<and> leaf_hash cd (tv_leaves v s' ! unat (pf_LeafIndex p)) = h"
    and "GetLeavesByRange tr tid m n s = (s', Some rs, None) \<Longrightarrow> Some r \<in> set rs \<Longrightarrow>
        unat (LeafIndex r) < length (tv_leaves v s')
        \<and> LeafValue r = ToBinary cd (tv_leaves v s' ! unat (LeafIndex r))"
  using assms unfolding trillian_ok_def by meson+

lemma trillian_ok_wire:
  assumes "trillian_ok tr tid cd ms v"
  shows "codec_ok cd"
    and "GetInclusionProofByHash tr tid h n s = (s', Some ps, e) \<Longrightarrow> None \<notin> set ps"
    and "GetLeavesByRange tr tid m n s = (s', Some rs, e) \<Longrightarrow> None \<notin> set rs"
    and "\<not> is_panic (UnmarshalLogRoot tr b)"
  using assms unfolding trillian_ok_def by meson+

lemma view_grows_trans: "view_grows v a b \<Longrightarrow> view_grows v b c \<Longrightarrow> view_grows v a c"
  by (auto simp: view_grows_def)

definition trillian_inv ::
    "'s TrillianClient \<Rightarrow> leaf_codec \<Rightarrow> merkle_spec \<Rightarrow> 's trillian_view \<Rightarrow> 's \<Rightarrow> bool" where
  "trillian_inv c cd ms v s \<longleftrightarrow> trillian_ok (logClient c) (treeID c) cd ms v \<and> tv_inv v s"

lemma trillian_GetTreeHead:
  assumes "trillian_inv c cd ms v s" and "TrillianClient_GetTreeHead c s = (s', r)"
  shows "view_grows v s s'" and "\<not> is_panic r" and "tv_acc v s' \<subseteq> tv_acc v s"
    and "r = Ok th \<Longrightarrow> is_head_of ms cd (tv_leaves v s') th"
proof -
  have ok: "trillian_ok (logClient c) (treeID c) cd ms v" "tv_inv v s"
    using assms(1) by (simp_all add: trillian_inv_def)
  have s': "s' = fst (GetLatestSignedLogRoot (logClient c) (treeID c) s)"
    using assms(2) by (auto simp: TrillianClient_GetTreeHead_def split: prod.splits option.splits)
  then show "view_grows v s s'" and "tv_acc v s' \<subseteq> tv_acc v s"
    using trillian_okD(3,10) [OF ok] by simp_all
  show "\<not> is_panic r"
    using assms(2) trillian_ok_wire(4) [OF ok(1)]
    by (auto simp: TrillianClient_GetTreeHead_def is_panic_iff
        split: prod.splits option.splits result.splits if_splits)
  show "is_head_of ms cd (tv_leaves v s') th" if rOk: "r = Ok th"
  proof -
    obtain root lr where "GetLatestSignedLogRoot (logClient c) (treeID c) s = (s', Some (Some (Some root)), None)"
        "UnmarshalLogRoot (logClient c) root = Ok lr" "length (lr_RootHash lr) = HashSize"
        "th = treeHeadFromLogRoot lr"
      using assms(2) rOk by (auto simp: TrillianClient_GetTreeHead_def
          split: prod.splits option.splits result.splits if_splits)
    then show ?thesis
      using trillian_okD(13) [OF ok] by (simp add: treeHeadFromLogRoot_def)
  qed
qed

lemma trillian_GetConsistencyProof:
  assumes "trillian_inv c cd ms v s" and "TrillianClient_GetConsistencyProof c req s = (s', r)"
  shows "view_grows v s s'" and "\<not> is_panic r"
proof -
  have ok: "trillian_ok (logClient c) (treeID c) cd ms v" "tv_inv v s"
    using assms(1) by (simp_all add: trillian_inv_def)
  have "s' = s \<or> s' = fst (rpc_GetConsistencyProof (logClient c) (treeID c) (OldSize req) (NewSize req) s)"
    using assms(2) by (auto simp: TrillianClient_GetConsistencyProof_def split: prod.splits option.splits if_splits)
  then show "view_grows v s s'"
    using trillian_okD(4) [OF ok] ok(2) by (auto simp: view_grows_def)
  show "\<not> is_panic r"
    using assms(2) by (auto simp: TrillianClient_GetConsistencyProof_def
        split: prod.splits option.splits result.splits if_splits)
qed

lemma trillian_GetInclusionProof:
  assumes "trillian_inv c cd ms v s" and "TrillianClient_GetInclusionProof c req s = (s', r)"
  shows "view_grows v s s'" and "\<not> is_panic r"
    and "r = Ok p \<Longrightarrow> ip_LeafIndex p < ir_Size req \<and> unat (ip_LeafIndex p) < length (tv_leaves v s')
      \<and> leaf_hash cd (tv_leaves v s' ! unat (ip_LeafIndex p)) = ir_LeafHash req"
    and "is_ok r \<or> r = Err ErrEmptyInclusionProof \<Longrightarrow> \<exists>i < unat (ir_Size req). i < length (tv_leaves v s')
      \<and> leaf_hash cd (tv_leaves v s' ! i) = ir_LeafHash req"
proof -
  have ok: "trillian_ok (logClient c) (treeID c) cd ms v" "tv_inv v s"
    using assms(1) by (simp_all add: trillian_inv_def)
  let ?rpc = "GetInclusionProofByHash (logClient c) (treeID c) (ir_LeafHash req) (ir_Size req) s"
  have "s' = fst ?rpc"
    using assms(2) by (auto simp: TrillianClient_GetInclusionProof_def split: prod.splits option.splits list.splits)
  then show "view_grows v s s'" using trillian_okD(5) [OF ok] by simp
  show "\<not> is_panic r"
    using assms(2) trillian_ok_wire(2) [OF ok(1)]
    by (fastforce simp: TrillianClient_GetInclusionProof_def
        split: prod.splits option.splits result.splits list.splits if_splits)
  have accepted: "\<exists>q. ?rpc = (s', Some [Some q], None) \<and> (\<forall>p. r = Ok p \<longrightarrow> ip_LeafIndex p = pf_LeafIndex q)"
    if "is_ok r \<or> r = Err ErrEmptyInclusionProof"
    using assms(2) that by (auto simp: TrillianClient_GetInclusionProof_def
        split: prod.splits option.splits result.splits list.splits if_splits)
  show "ip_LeafIndex p < ir_Size req \<and> unat (ip_LeafIndex p) < length (tv_leaves v s')
      \<and> leaf_hash cd (tv_leaves v s' ! unat (ip_LeafIndex p)) = ir_LeafHash req" if "r = Ok p"
    using accepted that trillian_okD(14) [OF ok] by fastforce
  show "\<exists>i < unat (ir_Size req). i < length (tv_leaves v s') \<and> leaf_hash cd (tv_leaves v s' ! i) = ir_LeafHash req"
    if "is_ok r \<or> r = Err ErrEmptyInclusionProof"
    using accepted [OF that] trillian_okD(14) [OF ok] word_less_nat_alt by metis
qed

lemma trillian_inv_grows: "trillian_inv c cd ms v s \<Longrightarrow> view_grows v s s' \<Longrightarrow> trillian_inv c cd ms v s'"
  by (simp add: trillian_inv_def view_grows_def)

lemma trillian_AddLeaf:
  assumes "trillian_inv c cd ms v s" and "leaf_wf l" and "TrillianClient_AddLeaf cd c l n s = (s', r)"
  shows "view_grows v s s'" and "\<not> is_panic r"
    and "r = Ok st \<Longrightarrow> IsSequenced st \<Longrightarrow> \<exists>i < unat n. i < length (tv_leaves v s')
      \<and> leaf_hash cd (tv_leaves v s' ! i) = leaf_hash cd l"
proof -
  obtain s1 e where q: "QueueLeaf (logClient c) (treeID c) (ToBinary cd l) s = (s1, e)" by fastforce
  have ok: "trillian_ok (logClient c) (treeID c) cd ms v" "tv_inv v s"
    using assms(1) by (simp_all add: trillian_inv_def)
  have g1: "view_grows v s s1" using trillian_okD(2) [OF ok assms(2)] q by simp
  let ?req = "\<lparr>ir_Size = n, ir_LeafHash = HashLeafNode cd (ToBinary cd l)\<rparr>"
  obtain s2 r2 where p: "TrillianClient_GetInclusionProof c ?req s1 = (s2, r2)" by fastforce
  note incl = trillian_GetInclusionProof [OF trillian_inv_grows [OF assms(1) g1] p]
  have cases: "s' = s1 \<and> \<not> is_panic r \<and> (\<forall>st. r = Ok st \<longrightarrow> \<not> IsSequenced st)
      \<or> s' = s2 \<and> \<not> is_panic r \<and> (\<forall>st. r = Ok st \<longrightarrow> IsSequenced st \<longrightarrow>
          is_ok r2 \<or> r2 = Err ErrEmptyInclusionProof)"
  proof (cases "status_Code (logClient c) e \<noteq> codes_OK \<and> status_Code (logClient c) e \<noteq> codes_AlreadyExists \<or> n = 0")
    case True
    then have "s' = s1 \<and> \<not> is_panic r \<and> (\<forall>st. r = Ok st \<longrightarrow> \<not> IsSequenced st)"
      using assms(3) q by (auto simp: TrillianClient_AddLeaf_def Let_def split: if_splits)
    then show ?thesis by blast
  next
    case False
    then have "s' = s2 \<and> \<not> is_panic r \<and> (\<forall>st. r = Ok st \<longrightarrow> IsSequenced st \<longrightarrow>
        is_ok r2 \<or> r2 = Err ErrEmptyInclusionProof)"
      using assms(3) q p incl(2)
      by (cases r2) (auto simp: TrillianClient_AddLeaf_def Let_def split: if_splits)
    then show ?thesis by blast
  qed
  have "s' = s1 \<or> s' = s2" using cases by metis
  then show "view_grows v s s'" using g1 view_grows_trans [OF g1 incl(1)] by metis
  show "\<not> is_panic r" using cases by metis
  show "\<exists>i < unat n. i < length (tv_leaves v s') \<and> leaf_hash cd (tv_leaves v s' ! i) = leaf_hash cd l"
    if "r = Ok st" "IsSequenced st"
    using cases that incl(4) by (auto simp: leaf_hash_def)
qed

lemma trillian_add_sequenced_retry:
  assumes "trillian_inv c cd ms v s" and "list_all leaf_wf ls" and "k + length ls < capacity"
    and "add_sequenced_retry c (trilLeaves cd ls (of_nat k)) w s = (s', r)"
  shows "view_grows v s s' \<and> \<not> is_panic r \<and> tv_acc v s' \<subseteq> tv_acc v s \<union> {(k + j, ls ! j) | j. j < length ls}"
  using assms(1,4)
proof (induction c "trilLeaves cd ls (of_nat k)" w s rule: add_sequenced_retry.induct)
  case (1 c wait s)
  have ok: "trillian_ok (logClient c) (treeID c) cd ms v" "tv_inv v s"
    using "1.prems"(1) by (simp_all add: trillian_inv_def)
  obtain s1 rsp e where rpc:
      "rpc_AddSequencedLeaves (logClient c) (treeID c) (trilLeaves cd ls (of_nat k)) s = (s1, rsp, e)"
    by (metis prod_cases3)
  have g: "view_grows v s s1" "tv_acc v s1 \<subseteq> tv_acc v s \<union> {(k + j, ls ! j) | j. j < length ls}"
    using trillian_okD(7,12) [OF ok assms(2,3)] rpc by simp_all
  consider (give_up) "\<not> (0 < wait \<and> wait < 30)"
    | (retry) "0 < wait \<and> wait < 30" "status_Code (logClient c) e = codes_ResourceExhausted"
    | (finished) "0 < wait \<and> wait < 30" "status_Code (logClient c) e \<noteq> codes_ResourceExhausted"
    by blast
  then show ?case
  proof cases
    case give_up
    then show ?thesis
      using "1.prems"(2) ok(2) by (subst (asm) add_sequenced_retry.simps) (auto simp: view_grows_def)
  next
    case retry
    let ?s2 = "elapse (logClient c) wait s1"
    have s1: "tv_inv v s1" using g(1) by (simp add: view_grows_def)
    have g2: "view_grows v s1 ?s2" "tv_acc v ?s2 \<subseteq> tv_acc v s1"
      using trillian_okD(8,11) [OF ok(1) s1] by simp_all
    have "add_sequenced_retry c (trilLeaves cd ls (of_nat k)) (wait * 2) ?s2 = (s', r)"
      using "1.prems"(2) retry rpc by (subst (asm) add_sequenced_retry.simps) (simp add: Let_def)
    moreover have "trillian_inv c cd ms v ?s2"
      using trillian_inv_grows [OF trillian_inv_grows [OF "1.prems"(1) g(1)] g2(1)] .
    ultimately have "view_grows v ?s2 s' \<and> \<not> is_panic r
        \<and> tv_acc v s' \<subseteq> tv_acc v ?s2 \<union> {(k + j, ls ! j) | j. j < length ls}"
      using "1.hyps" [OF retry(1) rpc [symmetric] refl refl retry(2)] by simp
    then show ?thesis
      using g(2) g2(2) view_grows_trans [OF view_grows_trans [OF g(1) g2(1)]] by blast
  next
    case finished
    then have "s' = s1 \<and> \<not> is_panic r"
      using "1.prems"(2) rpc by (subst (asm) add_sequenced_retry.simps) (auto simp: Let_def split: if_splits)
    then show ?thesis using g by simp
  qed
qed

lemma trillian_GetLeaves:
  assumes "trillian_inv c cd ms v s" and "TrillianClient_GetLeaves cd c req s = (s', r)"
  shows "view_grows v s s'" and "\<not> is_panic r"
    and "r = Ok ls \<Longrightarrow> StartIndex req < EndIndex req \<Longrightarrow> unat (EndIndex req) \<le> length (tv_leaves v s')
      \<and> ls = leaf_slice (tv_leaves v s') (StartIndex req) (EndIndex req)"
proof -
  let ?a = "StartIndex req" and ?b = "EndIndex req" and ?L = "tv_leaves v s'"
  have ok: "trillian_ok (logClient c) (treeID c) cd ms v" "tv_inv v s"
    using assms(1) by (simp_all add: trillian_inv_def)
  have "s' = fst (GetLeavesByRange (logClient c) (treeID c) ?a (?b - ?a) s)"
    using assms(2) by (auto simp: TrillianClient_GetLeaves_def split: prod.splits option.splits)
  then show g: "view_grows v s s'" using trillian_okD(6) [OF ok] by simp
  have cdk: "codec_ok cd" using trillian_ok_wire(1) [OF ok(1)] .
  show "\<not> is_panic r"
    using assms(2) trillian_ok_wire(3) [OF ok(1)] check_leaves_not_panic [of _ cd] codec_okD(5) [OF cdk]
    by (auto simp: TrillianClient_GetLeaves_def split: prod.splits option.splits if_splits)
  assume "r = Ok ls" and ab: "?a < ?b"
  then obtain rs where rs: "GetLeavesByRange (logClient c) (treeID c) ?a (?b - ?a) s = (s', Some rs, None)"
      "int (length ls) = sint (?b - ?a)" "length rs = length ls"
      "\<forall>i < length ls. \<exists>r. rs ! i = Some r \<and> LeafIndex r = ?a + of_nat i \<and> FromBinary cd (LeafValue r) = Ok (ls ! i)"
    using assms(2) by (metis TrillianClient_GetLeaves_OkE)
  have len: "length ls = unat (?b - ?a)" using unat_of_sint [OF rs(2) [symmetric]] by simp
  have nth: "unat ?a + i < length ?L \<and> ls ! i = ?L ! (unat ?a + i)" if i: "i < length ls" for i
  proof -
    obtain r where r: "Some r \<in> set rs" "LeafIndex r = ?a + of_nat i" "FromBinary cd (LeafValue r) = Ok (ls ! i)"
      using rs(3,4) i by (metis nth_mem)
    have u: "unat (LeafIndex r) = unat ?a + i"
      using unat_add_of_nat(1) [of i ?b ?a] i len ab r(2) by simp
    have L: "unat (LeafIndex r) < length ?L" "LeafValue r = ToBinary cd (?L ! unat (LeafIndex r))"
      using trillian_okD(15) [OF ok rs(1) r(1)] by simp_all
    have "leaf_wf (?L ! unat (LeafIndex r))"
      using trillian_okD(1) [OF ok(1)] g L(1) by (auto simp: view_grows_def list_all_length)
    then have "FromBinary cd (LeafValue r) = Ok (?L ! unat (LeafIndex r))"
      using L(2) codec_okD(2) [OF cdk] by simp
    then show ?thesis using r(3) u L(1) by simp
  qed
  have d: "unat (?b - ?a) = unat ?b - unat ?a" "unat ?a < unat ?b"
    using ab unat_sub [of ?a ?b] word_less_nat_alt by (auto simp: less_imp_le)
  then have "length ls - 1 < length ls" using len by simp
  from nth [OF this] have "unat ?b \<le> length ?L" using len d by linarith
  moreover have "ls = leaf_slice ?L ?a ?b"
    using nth len d calculation by (auto simp: leaf_slice_def intro!: nth_equalityI)
  ultimately show "unat ?b \<le> length ?L \<and> ls = leaf_slice ?L ?a ?b" by simp
qed

lemma trillian_step:
  assumes "trillian_inv c cd ms v s" and "view_grows v s s'" and "\<not> is_panic r"
  shows "prefix (tv_leaves v s) (tv_leaves v s') \<and>
    (length (tv_leaves v s') < capacity \<longrightarrow> trillian_inv c cd ms v s') \<and> \<not> is_panic r"
  using assms trillian_inv_grows [OF assms(1,2)] by (auto simp: view_grows_def)

interpretation tril: replica_db "Trillian_Client cd c" "trillian_inv c cd ms v" "tv_leaves v" cd ms "tv_acc v"
  for cd :: leaf_codec and c :: "'s TrillianClient" and ms :: merkle_spec and v :: "'s trillian_view"
proof
  fix s s' :: 's and ls k r
  assume *: "trillian_inv c cd ms v s" "list_all leaf_wf ls" "k + length ls < capacity"
    "db_AddSequencedLeaves (Trillian_Client cd c) ls (of_nat k) s = (s', r)"
  then have "add_sequenced_retry c (trilLeaves cd ls (of_nat k)) 1 s = (s', r)"
    by (simp add: Trillian_Client_def TrillianClient_AddSequencedLeaves_def)
  from trillian_add_sequenced_retry [OF *(1-3) this]
  show "prefix (tv_leaves v s) (tv_leaves v s') \<and>
      (length (tv_leaves v s') < capacity \<longrightarrow> trillian_inv c cd ms v s') \<and> \<not> is_panic r"
    and "trillian_inv c cd ms v s' \<and> tv_acc v s' \<subseteq> tv_acc v s \<union> {(k + j, ls ! j) | j. j < length ls}"
    using trillian_step [OF *(1)] trillian_inv_grows [OF *(1)] by blast+
next
  fix s s' :: 's and l n r
  assume *: "trillian_inv c cd ms v s" "leaf_wf l" "db_AddLeaf (Trillian_Client cd c) l n s = (s', r)"
  then show "prefix (tv_leaves v s) (tv_leaves v s') \<and>
      (length (tv_leaves v s') < capacity \<longrightarrow> trillian_inv c cd ms v s') \<and> \<not> is_panic r"
    using trillian_step [OF *(1) trillian_AddLeaf(1,2) [OF *(1,2)]] *(3) by (simp add: Trillian_Client_def)
next
  fix s s' :: 's and r
  assume *: "trillian_inv c cd ms v s" "db_GetTreeHead (Trillian_Client cd c) s = (s', r)"
  then show "prefix (tv_leaves v s) (tv_leaves v s') \<and>
      (length (tv_leaves v s') < capacity \<longrightarrow> trillian_inv c cd ms v s') \<and> \<not> is_panic r"
    using trillian_step [OF *(1) trillian_GetTreeHead(1,2) [OF *(1)]] *(2) by (simp add: Trillian_Client_def)
next
  fix s s' :: 's and cr r
  assume *: "trillian_inv c cd ms v s" "db_GetConsistencyProof (Trillian_Client cd c) cr s = (s', r)"
  then show "prefix (tv_leaves v s) (tv_leaves v s') \<and>
      (length (tv_leaves v s') < capacity \<longrightarrow> trillian_inv c cd ms v s') \<and> \<not> is_panic r"
    using trillian_step [OF *(1) trillian_GetConsistencyProof(1,2) [OF *(1)]] *(2) by (simp add: Trillian_Client_def)
next
  fix s s' :: 's and ir r
  assume *: "trillian_inv c cd ms v s" "db_GetInclusionProof (Trillian_Client cd c) ir s = (s', r)"
  then show "prefix (tv_leaves v s) (tv_leaves v s') \<and>
      (length (tv_leaves v s') < capacity \<longrightarrow> trillian_inv c cd ms v s') \<and> \<not> is_panic r"
    using trillian_step [OF *(1) trillian_GetInclusionProof(1,2) [OF *(1)]] *(2) by (simp add: Trillian_Client_def)
next
  fix s s' :: 's and req r
  assume *: "trillian_inv c cd ms v s" "db_GetLeaves (Trillian_Client cd c) req s = (s', r)"
  then show "prefix (tv_leaves v s) (tv_leaves v s') \<and>
      (length (tv_leaves v s') < capacity \<longrightarrow> trillian_inv c cd ms v s') \<and> \<not> is_panic r"
    using trillian_step [OF *(1) trillian_GetLeaves(1,2) [OF *(1)]] *(2) by (simp add: Trillian_Client_def)
next
  fix s :: 's
  assume "trillian_inv c cd ms v s"
  then show "list_all leaf_wf (tv_leaves v s) \<and> distinct (map (leaf_hash cd) (tv_leaves v s))
      \<and> length (tv_leaves v s) < capacity"
    using trillian_okD(1) [of "logClient c" "treeID c" cd ms v s] by (simp add: trillian_inv_def)
next
  fix s :: 's and i
  assume "trillian_inv c cd ms v s" "i < length (tv_leaves v s)"
  then show "(i, tv_leaves v s ! i) \<in> tv_acc v s"
    using trillian_okD(9) [of "logClient c" "treeID c" cd ms v s] by (simp add: trillian_inv_def)
next
  fix s s' :: 's and th :: TreeHead
  assume "trillian_inv c cd ms v s" "db_GetTreeHead (Trillian_Client cd c) s = (s', Ok th)"
  then show "is_head_of ms cd (tv_leaves v s') th"
    using trillian_GetTreeHead(4) [of c cd ms v s s' "Ok th"] by (simp add: Trillian_Client_def)
next
  fix s s' :: 's and l n and st :: AddLeafStatus
  assume "trillian_inv c cd ms v s" "leaf_wf l" "db_AddLeaf (Trillian_Client cd c) l n s = (s', Ok st)" "IsSequenced st"
  then show "\<exists>i < unat n. i < length (tv_leaves v s') \<and> leaf_hash cd (tv_leaves v s' ! i) = leaf_hash cd l"
    using trillian_AddLeaf(3) [of c cd ms v s l n s' "Ok st"] by (simp add: Trillian_Client_def)
next
  fix s s' :: 's and ir p
  assume "trillian_inv c cd ms v s" "db_GetInclusionProof (Trillian_Client cd c) ir s = (s', Ok p)"
  then show "ip_LeafIndex p < ir_Size ir \<and> unat (ip_LeafIndex p) < length (tv_leaves v s')
      \<and> leaf_hash cd (tv_leaves v s' ! unat (ip_LeafIndex p)) = ir_LeafHash ir"
    using trillian_GetInclusionProof(3) [of c cd ms v s ir s' "Ok p"] by (simp add: Trillian_Client_def)
next
  fix s s' :: 's and req ls
  assume "trillian_inv c cd ms v s" "StartIndex req < EndIndex req"
    "db_GetLeaves (Trillian_Client cd c) req s = (s', Ok ls)"
  then show "unat (EndIndex req) \<le> length (tv_leaves v s')
      \<and> ls = leaf_slice (tv_leaves v s') (StartIndex req) (EndIndex req)"
    using trillian_GetLeaves(3) [of c cd ms v s req s' "Ok ls"] by (simp add: Trillian_Client_def)
next
  fix s s' :: 's and r
  assume "trillian_inv c cd ms v s" "db_GetTreeHead (Trillian_Client cd c) s = (s', r)"
  then show "trillian_inv c cd ms v s' \<and> tv_acc v s' \<subseteq> tv_acc v s"
    using trillian_GetTreeHead(1,3) [of c cd ms v s s' r] trillian_inv_grows [of c cd ms v s s']
    by (simp add: Trillian_Client_def)
qed

section \<open>A service that integrates and recognises leaves\<close>

text \<open>
  Trillian integrates submitted leaves with a separate process, the log signer, which runs periodically.
  \<open>due s\<close> bounds the calls until its next run in the state \<open>s\<close>, and \<open>D\<close> those between two
  runs.  A run integrates all leaves that can be: none is left that was submitted for the next index.
\<close>

definition signer_runs :: "'s trillian_view \<Rightarrow> ('s \<Rightarrow> nat) \<Rightarrow> 's \<Rightarrow> 's \<Rightarrow> bool" where
  "signer_runs v due s s' \<longleftrightarrow> due s' < due s \<or> (\<forall>l. (length (tv_leaves v s'), l) \<notin> tv_acc v s')"

definition integrates :: "'s TrillianClient \<Rightarrow> leaf_codec \<Rightarrow> 's trillian_view \<Rightarrow> ('s \<Rightarrow> nat) \<Rightarrow> nat \<Rightarrow> bool" where
  \<comment> \<open>the service answers, its latest root is current, it keeps the leaves submitted for the end of the tree, and its signer runs\<close>
  "integrates c cd v due D \<longleftrightarrow> (\<forall>s. tv_inv v s \<longrightarrow> due s \<le> D
     \<and> (\<exists>s' root lr. GetLatestSignedLogRoot (logClient c) (treeID c) s = (s', Some (Some (Some root)), None)
          \<and> UnmarshalLogRoot (logClient c) root = Ok lr \<and> length (lr_RootHash lr) = HashSize
          \<and> unat (lr_TreeSize lr) = length (tv_leaves v s') \<and> tv_acc v s \<subseteq> tv_acc v s' \<and> signer_runs v due s s')
     \<and> (\<forall>ls. list_all leaf_wf ls \<longrightarrow> distinct (map (leaf_hash cd) (tv_leaves v s @ ls)) \<longrightarrow>
          length (tv_leaves v s @ ls) < capacity \<longrightarrow>
          (\<exists>s' e. rpc_AddSequencedLeaves (logClient c) (treeID c) (trilLeaves cd ls (of_nat (length (tv_leaves v s)))) s
              = (s', Some (), e) \<and> status_Code (logClient c) e = codes_OK
            \<and> (\<forall>j < length ls. (length (tv_leaves v s) + j, ls ! j) \<in> tv_acc v s') \<and> signer_runs v due s s')))"

lemma integrates_GetTreeHead:
  assumes "integrates c cd v due D" and "tv_inv v s"
  shows "\<exists>s' th. TrillianClient_GetTreeHead c s = (s', Ok th) \<and> unat (Size th) = length (tv_leaves v s')
    \<and> tv_acc v s \<subseteq> tv_acc v s' \<and> signer_runs v due s s'"
proof -
  obtain s' root lr where "GetLatestSignedLogRoot (logClient c) (treeID c) s = (s', Some (Some (Some root)), None)"
      "UnmarshalLogRoot (logClient c) root = Ok lr" "length (lr_RootHash lr) = HashSize"
      "unat (lr_TreeSize lr) = length (tv_leaves v s')" "tv_acc v s \<subseteq> tv_acc v s'" "signer_runs v due s s'"
    using assms unfolding integrates_def by blast
  then show ?thesis by (simp add: TrillianClient_GetTreeHead_def treeHeadFromLogRoot_def)
qed

lemma integrates_AddSequencedLeaves:
  assumes "integrates c cd v due D" and "tv_inv v s" and "list_all leaf_wf ls"
    and "distinct (map (leaf_hash cd) (tv_leaves v s @ ls))" and "length (tv_leaves v s @ ls) < capacity"
  shows "\<exists>s'. TrillianClient_AddSequencedLeaves cd c ls (of_nat (length (tv_leaves v s))) s = (s', Ok ())
    \<and> (\<forall>j < length ls. (length (tv_leaves v s) + j, ls ! j) \<in> tv_acc v s') \<and> signer_runs v due s s'"
proof -
  have "\<exists>s' e. rpc_AddSequencedLeaves (logClient c) (treeID c) (trilLeaves cd ls (of_nat (length (tv_leaves v s)))) s
      = (s', Some (), e) \<and> status_Code (logClient c) e = codes_OK
    \<and> (\<forall>j < length ls. (length (tv_leaves v s) + j, ls ! j) \<in> tv_acc v s') \<and> signer_runs v due s s'"
    using assms(1) [unfolded integrates_def, rule_format, OF assms(2)] assms(3-5) by blast
  then show ?thesis
    by (auto simp: TrillianClient_AddSequencedLeaves_def add_sequenced_retry.simps [of c _ "Suc 0"] Let_def)
qed

definition trillian_working ::
    "'s TrillianClient \<Rightarrow> leaf_codec \<Rightarrow> merkle_spec \<Rightarrow> 's trillian_view \<Rightarrow> ('s \<Rightarrow> nat) \<Rightarrow> nat \<Rightarrow> 's \<Rightarrow> bool" where
  "trillian_working c cd ms v due D s \<longleftrightarrow> trillian_inv c cd ms v s \<and> integrates c cd v due D"

interpretation trilw: integrating_db "Trillian_Client cd c" "trillian_working c cd ms v due D" "tv_leaves v" cd ms "tv_acc v" due D
  for cd :: leaf_codec and c :: "'s TrillianClient" and ms :: merkle_spec and v :: "'s trillian_view"
    and due :: "'s \<Rightarrow> nat" and D :: nat
proof (rule integrating_db.intro)
  have "trillian_working c cd ms v due D = (\<lambda>s. trillian_inv c cd ms v s \<and> integrates c cd v due D)"
    by (simp add: fun_eq_iff trillian_working_def)
  then show "replica_db (Trillian_Client cd c) (trillian_working c cd ms v due D) (tv_leaves v) cd ms (tv_acc v)"
    using tril.restricted [of cd c ms v "integrates c cd v due D"] by metis
  show "integrating_db_axioms (Trillian_Client cd c) (trillian_working c cd ms v due D) (tv_leaves v) cd (tv_acc v) due D"
  proof
    fix s assume s: "trillian_working c cd ms v due D s"
    then have i: "integrates c cd v due D" "tv_inv v s" by (simp_all add: trillian_working_def trillian_inv_def)
    then show "due s \<le> D" by (simp add: integrates_def)
    show "\<exists>s' th. db_GetTreeHead (Trillian_Client cd c) s = (s', Ok th) \<and> unat (Size th) = length (tv_leaves v s')
        \<and> tv_acc v s \<subseteq> tv_acc v s' \<and> (due s' < due s \<or> (\<forall>l. (length (tv_leaves v s'), l) \<notin> tv_acc v s'))"
      using integrates_GetTreeHead [OF i] by (simp add: Trillian_Client_def signer_runs_def)
    show "\<exists>s'. db_AddSequencedLeaves (Trillian_Client cd c) ls (of_nat (length (tv_leaves v s))) s = (s', Ok ())
        \<and> (\<forall>j < length ls. (length (tv_leaves v s) + j, ls ! j) \<in> tv_acc v s')
        \<and> (due s' < due s \<or> (\<forall>l. (length (tv_leaves v s'), l) \<notin> tv_acc v s'))"
      if "list_all leaf_wf ls" "distinct (map (leaf_hash cd) (tv_leaves v s @ ls))" "length (tv_leaves v s @ ls) < capacity" for ls
      using integrates_AddSequencedLeaves [OF i that] by (simp add: Trillian_Client_def signer_runs_def)
  qed
qed

text \<open>
  Queueing a leaf that the service was given before is answered with \<open>AlreadyExists\<close>.
\<close>

definition dedups :: "'s TrillianClient \<Rightarrow> leaf_codec \<Rightarrow> 's trillian_view \<Rightarrow> ('s \<Rightarrow> hash set) \<Rightarrow> bool" where
  "dedups c cd v known \<longleftrightarrow>
     (\<forall>s s' l e. tv_inv v s \<longrightarrow> leaf_wf l \<longrightarrow> QueueLeaf (logClient c) (treeID c) (ToBinary cd l) s = (s', e) \<longrightarrow>
        (status_Code (logClient c) e = codes_AlreadyExists \<longrightarrow> leaf_hash cd l \<in> known s \<and> known s' = known s)
      \<and> (status_Code (logClient c) e = codes_OK \<longrightarrow> leaf_hash cd l \<notin> known s \<and> known s' = insert (leaf_hash cd l) (known s)))
   \<and> (\<forall>s h n. tv_inv v s \<longrightarrow> known (fst (GetInclusionProofByHash (logClient c) (treeID c) h n s)) = known s)"

definition trillian_tracking ::
    "'s TrillianClient \<Rightarrow> leaf_codec \<Rightarrow> merkle_spec \<Rightarrow> 's trillian_view \<Rightarrow> ('s \<Rightarrow> hash set) \<Rightarrow> 's \<Rightarrow> bool" where
  "trillian_tracking c cd ms v known s \<longleftrightarrow> trillian_inv c cd ms v s \<and> dedups c cd v known"

lemma TrillianClient_AddLeaf_OkE:
  assumes "TrillianClient_AddLeaf cd c l n s = (s', Ok st)"
  obtains s1 e where "QueueLeaf (logClient c) (treeID c) (ToBinary cd l) s = (s1, e)"
    "status_Code (logClient c) e = codes_OK \<and> \<not> AlreadyExists st \<or> status_Code (logClient c) e = codes_AlreadyExists \<and> AlreadyExists st"
    "s' = s1 \<or> s' = fst (GetInclusionProofByHash (logClient c) (treeID c) (leaf_hash cd l) n s1)"
proof -
  obtain s1 e where q: "QueueLeaf (logClient c) (treeID c) (ToBinary cd l) s = (s1, e)" by fastforce
  obtain s2 r2 where p: "TrillianClient_GetInclusionProof c \<lparr>ir_Size = n, ir_LeafHash = leaf_hash cd l\<rparr> s1 = (s2, r2)" by fastforce
  have "s2 = fst (GetInclusionProofByHash (logClient c) (treeID c) (leaf_hash cd l) n s1)"
    using p by (auto simp: TrillianClient_GetInclusionProof_def split: prod.splits option.splits list.splits)
  then show ?thesis
    using assms q p by (intro that [OF q])
      (auto simp: TrillianClient_AddLeaf_def Let_def leaf_hash_def split: if_splits result.splits)
qed

interpretation trild: leaf_tracker "Trillian_Client cd c" "trillian_tracking c cd ms v known" cd known
  for cd :: leaf_codec and c :: "'s TrillianClient" and ms :: merkle_spec and v :: "'s trillian_view" and known :: "'s \<Rightarrow> hash set"
proof
  fix s s' :: 's and l n st
  assume s: "trillian_tracking c cd ms v known s" and l: "leaf_wf l"
    and add: "db_AddLeaf (Trillian_Client cd c) l n s = (s', Ok st)"
  then have add: "TrillianClient_AddLeaf cd c l n s = (s', Ok st)" by (simp add: Trillian_Client_def)
  have inv: "trillian_inv c cd ms v s" "tv_inv v s" and d: "dedups c cd v known"
    using s by (simp_all add: trillian_tracking_def trillian_inv_def)
  obtain s1 e where q: "QueueLeaf (logClient c) (treeID c) (ToBinary cd l) s = (s1, e)"
    "status_Code (logClient c) e = codes_OK \<and> \<not> AlreadyExists st \<or> status_Code (logClient c) e = codes_AlreadyExists \<and> AlreadyExists st"
    "s' = s1 \<or> s' = fst (GetInclusionProofByHash (logClient c) (treeID c) (leaf_hash cd l) n s1)"
    using TrillianClient_AddLeaf_OkE [OF add] by blast
  have s1: "tv_inv v s1"
    using trillian_okD(2) [of "logClient c" "treeID c" cd ms v s l] inv l q(1) by (simp add: trillian_inv_def view_grows_def)
  have "known s1 = insert (leaf_hash cd l) (known s) \<and> (AlreadyExists st \<longleftrightarrow> leaf_hash cd l \<in> known s)"
    using d [unfolded dedups_def, THEN conjunct1, rule_format, OF inv(2) l q(1)] q(2) by auto
  moreover have "known s' = known s1" using q(3) d s1 unfolding dedups_def by metis
  moreover have "trillian_tracking c cd ms v known s'"
    using trillian_inv_grows [OF inv(1) trillian_AddLeaf(1) [OF inv(1) l add]] d by (simp add: trillian_tracking_def)
  ultimately show "trillian_tracking c cd ms v known s' \<and> known s' = insert (leaf_hash cd l) (known s)
      \<and> (AlreadyExists st \<longleftrightarrow> leaf_hash cd l \<in> known s)" by simp
next
  fix s s' :: 's and l n e
  assume "db_AddLeaf (Trillian_Client cd c) l n s = (s', Err e)"
  then show "\<exists>m. e = Errorf m"
    by (auto simp: Trillian_Client_def TrillianClient_AddLeaf_def Let_def split: if_splits result.splits prod.splits)
qed

text \<open>
  A service at rest that works: reading does not change it, it returns the root of the whole tree and the leaves that are
  asked for (\<open>reads_at_rest\<close>); it recognises the leaves of the tree and has inclusion proofs for them, empty only in a tree with
  one leaf (\<open>answers_at_rest\<close>).
\<close>

definition reads_at_rest :: "'s TrillianClient \<Rightarrow> leaf_codec \<Rightarrow> 's trillian_view \<Rightarrow> 's \<Rightarrow> bool" where
  "reads_at_rest c cd v s \<longleftrightarrow>
     (\<exists>root lr. GetLatestSignedLogRoot (logClient c) (treeID c) s = (s, Some (Some (Some root)), None)
        \<and> UnmarshalLogRoot (logClient c) root = Ok lr \<and> length (lr_RootHash lr) = HashSize
        \<and> unat (lr_TreeSize lr) = length (tv_leaves v s))
   \<and> (\<forall>i n. 0 < n \<longrightarrow> i + n \<le> length (tv_leaves v s) \<longrightarrow>
        GetLeavesByRange (logClient c) (treeID c) (of_nat i) (of_nat n) s
        = (s, Some (map (\<lambda>j. Some \<lparr>LeafValue = ToBinary cd (tv_leaves v s ! j), LeafIndex = of_nat j\<rparr>) [i ..< i + n]), None))"

definition answers_at_rest :: "'s TrillianClient \<Rightarrow> leaf_codec \<Rightarrow> 's trillian_view \<Rightarrow> 's \<Rightarrow> bool" where
  "answers_at_rest c cd v s \<longleftrightarrow>
     (\<forall>l. leaf_wf l \<longrightarrow> leaf_hash cd l \<in> leaf_hash cd ` set (tv_leaves v s) \<longrightarrow>
        (\<exists>e. QueueLeaf (logClient c) (treeID c) (ToBinary cd l) s = (s, e) \<and> status_Code (logClient c) e = codes_AlreadyExists))
   \<and> (\<forall>i n. i < n \<longrightarrow> n \<le> length (tv_leaves v s) \<longrightarrow>
        (\<exists>pf. GetInclusionProofByHash (logClient c) (treeID c) (leaf_hash cd (tv_leaves v s ! i)) (of_nat n) s = (s, Some [Some pf], None)
           \<and> list_all (\<lambda>h. length h = HashSize) (pf_Hashes pf) \<and> (pf_Hashes pf = [] \<longrightarrow> n = 1)))"

lemma reads_at_rest_GetTreeHead:
  assumes "reads_at_rest c cd v s"
  shows "\<exists>th. TrillianClient_GetTreeHead c s = (s, Ok th) \<and> unat (Size th) = length (tv_leaves v s)"
  using assms by (auto simp: reads_at_rest_def TrillianClient_GetTreeHead_def treeHeadFromLogRoot_def)

lemma check_leaves_of_log:
  assumes "codec_ok cd" and "list_all leaf_wf L" and "i + n \<le> length L"
  shows "check_leaves cd (of_nat i) (map (\<lambda>j. Some \<lparr>LeafValue = ToBinary cd (L ! j), LeafIndex = of_nat j\<rparr>) [i ..< i + n])
    = Ok (take n (drop i L))"
  using assms(3)
proof (induction n arbitrary: i)
  case (Suc n)
  have IH: "check_leaves cd (of_nat i + 1) (map (\<lambda>j. Some \<lparr>LeafValue = ToBinary cd (L ! j), LeafIndex = of_nat j\<rparr>) [Suc i ..< Suc i + n])
      = Ok (take n (drop (Suc i) L))"
    using Suc.IH [of "Suc i"] Suc.prems by (simp add: add.commute)
  have "leaf_wf (L ! i)" using assms(2) Suc.prems by (simp add: list_all_length)
  moreover have "[i ..< i + Suc n] = i # [Suc i ..< Suc i + n]" by (simp add: upt_rec)
  moreover have "take (Suc n) (drop i L) = L ! i # take n (drop (Suc i) L)"
    using Suc.prems by (simp add: Cons_nth_drop_Suc [symmetric])
  ultimately show ?case using IH codec_okD(2) [OF assms(1)] by (simp add: outcome_simps)
qed simp

lemma reads_at_rest_GetLeaves:
  assumes "trillian_inv c cd ms v s" and "reads_at_rest c cd v s"
    and "StartIndex req < EndIndex req" and "unat (EndIndex req) \<le> length (tv_leaves v s)"
  shows "TrillianClient_GetLeaves cd c req s = (s, Ok (leaf_slice (tv_leaves v s) (StartIndex req) (EndIndex req)))"
proof -
  let ?a = "StartIndex req" and ?b = "EndIndex req" and ?L = "tv_leaves v s"
  have ok: "codec_ok cd" "list_all leaf_wf ?L" "length ?L < capacity"
    using assms(1) trillian_ok_wire(1) trillian_okD(1) by (fastforce simp: trillian_inv_def)+
  define n where "n = unat ?b - unat ?a"
  have lt: "unat ?a < unat ?b" using assms(3) by (simp only: word_less_nat_alt)
  have d: "unat (?b - ?a) = n" "0 < n" "unat ?a + n = unat ?b"
    using lt unat_sub [of ?a ?b] by (simp_all add: n_def word_le_nat_alt)
  have w: "of_nat (unat ?a) = ?a" "of_nat n = ?b - ?a" using d(1) by (simp_all flip: d(1))
  have sz: "sint (?b - ?a) = int n" using sint_capacity [of "?b - ?a"] d ok(3) assms(4) by simp
  have rpc: "GetLeavesByRange (logClient c) (treeID c) (of_nat (unat ?a)) (of_nat n) s
      = (s, Some (map (\<lambda>j. Some \<lparr>LeafValue = ToBinary cd (?L ! j), LeafIndex = of_nat j\<rparr>) [unat ?a ..< unat ?a + n]), None)"
    using assms(2) [unfolded reads_at_rest_def, THEN conjunct2, rule_format, of n "unat ?a"] assms(4) d(2,3) by metis
  have chk: "check_leaves cd ?a (map (\<lambda>j. Some \<lparr>LeafValue = ToBinary cd (?L ! j), LeafIndex = of_nat j\<rparr>) [unat ?a ..< unat ?a + n])
      = Ok (leaf_slice ?L ?a ?b)"
    using check_leaves_of_log [OF ok(1,2), of "unat ?a" n] d(3) assms(4) w(1) by (simp add: leaf_slice_def n_def)
  show ?thesis
    using rpc chk sz unfolding w TrillianClient_GetLeaves_def by simp
qed

lemma answers_at_rest_AddLeaf:
  assumes "trillian_inv c cd ms v s" and "answers_at_rest c cd v s"
    and "leaf_wf l" and "leaf_hash cd l \<in> leaf_hash cd ` set (tv_leaves v s)" and "unat n = length (tv_leaves v s)"
  shows "TrillianClient_AddLeaf cd c l n s = (s, Ok \<lparr>AlreadyExists = True, IsSequenced = True\<rparr>)"
proof -
  let ?L = "tv_leaves v s"
  obtain i where i: "i < length ?L" "leaf_hash cd (?L ! i) = leaf_hash cd l" using assms(4) by (auto simp: in_set_conv_nth)
  have n: "of_nat (length ?L) = n" "n \<noteq> 0" using i(1) by (auto simp: assms(5) [symmetric])
  obtain e where e: "QueueLeaf (logClient c) (treeID c) (ToBinary cd l) s = (s, e)" "status_Code (logClient c) e = codes_AlreadyExists"
    using assms(2,3,4) unfolding answers_at_rest_def by blast
  obtain pf where pf: "GetInclusionProofByHash (logClient c) (treeID c) (leaf_hash cd l) n s = (s, Some [Some pf], None)"
      "list_all (\<lambda>h. length h = HashSize) (pf_Hashes pf)" "pf_Hashes pf = [] \<longrightarrow> length ?L = 1"
    using assms(2) i n(1) unfolding answers_at_rest_def by (metis order_refl)
  have "nodePathFromHashes (pf_Hashes pf) = Ok (pf_Hashes pf)" using pf(2) nodePathFromHashes_iff by blast
  then show ?thesis
    using e pf n
    by (auto simp: TrillianClient_AddLeaf_def TrillianClient_GetInclusionProof_def Let_def leaf_hash_def)
qed

section \<open>A service that meets the description\<close>

text \<open>
  A log service that keeps the leaves in a list and integrates them at once, to exhibit that the
  hypotheses of the properties can hold together.
\<close>

fun sample_status_Code :: "go_error option \<Rightarrow> nat" where
  "sample_status_Code None = codes_OK"
| "sample_status_Code (Some (RpcError c)) = c"
| "sample_status_Code (Some _) = 2"

definition sample_can_add :: "leaf_codec \<Rightarrow> Leaf list \<Rightarrow> Leaf list \<Rightarrow> bool" where
  "sample_can_add cd s ls \<longleftrightarrow> list_all leaf_wf ls \<and> distinct (map (leaf_hash cd) (s @ ls)) \<and> length (s @ ls) < capacity"

definition sample_trillian :: "leaf_codec \<Rightarrow> merkle_spec \<Rightarrow> Leaf list trillian" where
  "sample_trillian cd ms = \<lparr>
     QueueLeaf = (\<lambda>tid b s. case FromBinary cd b of
         Ok l \<Rightarrow> if leaf_hash cd l \<in> leaf_hash cd ` set s then (s, Some (RpcError codes_AlreadyExists))
                 else if sample_can_add cd s [l] then (s @ [l], None) else (s, Some (RpcError codes_ResourceExhausted))
       | _ \<Rightarrow> (s, Some (RpcError 3))),
     rpc_AddSequencedLeaves = (\<lambda>tid leaves s. case mapM_result (\<lambda>r. FromBinary cd (LeafValue r)) leaves of
         Ok ls \<Rightarrow> if map LeafIndex leaves = map (\<lambda>j. of_nat (length s + j)) [0 ..< length ls] \<and> sample_can_add cd s ls
                 then (s @ ls, Some (), None) else (s, None, Some (RpcError 3))
       | _ \<Rightarrow> (s, None, Some (RpcError 3))),
     GetLatestSignedLogRoot = (\<lambda>tid s.
       (s, Some (Some (Some (mroot ms (map (leaf_hash cd) s) @ replicate (length s) CHR ''1''))), None)),
     rpc_GetConsistencyProof = (\<lambda>tid m n s. (s, Some (Some (map (leaf_hash cd) (take (unat n) s))), None)),
     GetInclusionProofByHash = (\<lambda>tid h n s.
       let i = leaf_position cd s h in
       if i < length s \<and> i < unat n
       then (s, Some [Some \<lparr>pf_LeafIndex = of_nat i,
               pf_Hashes = (if n = 1 then [] else map (leaf_hash cd) (take (unat n) s))\<rparr>], None)
       else (s, None, Some (RpcError codes_NotFound))),
     GetLeavesByRange = (\<lambda>tid i n s. (s, Some (map (\<lambda>j. Some \<lparr>LeafValue = ToBinary cd (s ! j), LeafIndex = of_nat j\<rparr>)
       [unat i ..< min (unat i + unat n) (length s)]), None)),
     UnmarshalLogRoot = (\<lambda>b. Ok \<lparr>lr_TreeSize = of_nat (length b - HashSize), lr_RootHash = take HashSize b\<rparr>),
     status_Code = sample_status_Code,
     elapse = (\<lambda>w s. s)\<rparr>"

definition sample_view :: "leaf_codec \<Rightarrow> Leaf list trillian_view" where
  "sample_view cd = \<lparr>tv_inv = sample_can_add cd [], tv_leaves = (\<lambda>s. s), tv_acc = (\<lambda>s. {(i, s ! i) | i. i < length s})\<rparr>"

lemma sample_view_simps [simp]:
  "tv_leaves (sample_view cd) s = s"
  "tv_inv (sample_view cd) s \<longleftrightarrow> list_all leaf_wf s \<and> distinct (map (leaf_hash cd) s) \<and> length s < capacity"
  "view_grows (sample_view cd) s s' \<longleftrightarrow>
     prefix s s' \<and> list_all leaf_wf s' \<and> distinct (map (leaf_hash cd) s') \<and> length s' < capacity"
  by (auto simp: sample_view_def sample_can_add_def view_grows_def)

lemma sample_decode:
  assumes "codec_ok cd" and "list_all leaf_wf ls"
  shows "mapM_result (\<lambda>r. FromBinary cd (LeafValue r)) (trilLeaves cd ls k) = Ok ls"
  using assms
  by (auto simp: mapM_result_Ok_iff trilLeaves_def list_all2_conv_all_nth list_all_length codec_okD)

lemma sample_AddSequencedLeaves:
  assumes "codec_ok cd" and "list_all leaf_wf ls" and "list_all leaf_wf s" and "length s < capacity" and "k + length ls < capacity"
  shows "fst (rpc_AddSequencedLeaves (sample_trillian cd ms) tid (trilLeaves cd ls (of_nat k)) s) = s
    \<or> fst (rpc_AddSequencedLeaves (sample_trillian cd ms) tid (trilLeaves cd ls (of_nat k)) s) = s @ ls
      \<and> sample_can_add cd s ls \<and> (ls = [] \<or> k = length s)"
proof -
  have "ls = [] \<or> k = length s"
    if "map LeafIndex (trilLeaves cd ls (of_nat k)) = map (\<lambda>j. of_nat (length s + j)) [0 ..< length ls]"
  proof (cases "ls = []")
    case False
    then have "(of_nat k :: u64) = of_nat (length s)"
      using arg_cong [OF that, of hd] by (auto simp: trilLeaves_def hd_map upt_rec)
    then have "unat (of_nat k :: u64) = unat (of_nat (length s) :: u64)" by simp
    then show ?thesis using assms(4,5) by simp
  qed simp
  then show ?thesis
    using sample_decode [OF assms(1,2)] by (simp add: sample_trillian_def)
qed

lemma sample_QueueLeaf:
  assumes "codec_ok cd" and "tv_inv (sample_view cd) s" and "leaf_wf l"
  shows "view_grows (sample_view cd) s (fst (QueueLeaf (sample_trillian cd ms) tid (ToBinary cd l) s))"
  using assms by (auto simp: sample_trillian_def codec_okD sample_can_add_def)

lemma sample_reads:
  "fst (GetLatestSignedLogRoot (sample_trillian cd ms) tid s) = s"
  "fst (rpc_GetConsistencyProof (sample_trillian cd ms) tid m n s) = s"
  "fst (GetInclusionProofByHash (sample_trillian cd ms) tid h n s) = s"
  "fst (GetLeavesByRange (sample_trillian cd ms) tid m n s) = s"
  "elapse (sample_trillian cd ms) w s = s"
  by (simp_all add: sample_trillian_def Let_def)

lemma sample_GetInclusionProofByHash:
  assumes "GetInclusionProofByHash (sample_trillian cd ms) tid h n s = (s', Some [Some p], None)"
    and "length s < capacity"
  shows "pf_LeafIndex p < n \<and> unat (pf_LeafIndex p) < length s' \<and> leaf_hash cd (s' ! unat (pf_LeafIndex p)) = h"
proof -
  let ?i = "leaf_position cd s h"
  have *: "s' = s" "?i < length s" "?i < unat n" "pf_LeafIndex p = of_nat ?i"
    using assms(1) by (auto simp: sample_trillian_def Let_def split: if_splits)
  then have "unat (pf_LeafIndex p) = ?i" using assms(2) by simp
  with * show ?thesis using leaf_position_nth [OF *(2)] by (simp add: word_less_nat_alt)
qed

lemma sample_GetLeavesByRange:
  assumes "GetLeavesByRange (sample_trillian cd ms) tid m n s = (s', Some rs, None)" and "Some r \<in> set rs"
    and "length s < capacity"
  shows "unat (LeafIndex r) < length s' \<and> LeafValue r = ToBinary cd (s' ! unat (LeafIndex r))"
  using assms by (auto simp: sample_trillian_def)

lemma trillian_ok_sample:
  assumes cd: "codec_ok cd" and root: "\<And>xs. length (mroot ms xs) = HashSize"
  shows "trillian_ok (sample_trillian cd ms) tid cd ms (sample_view cd)"
proof -
  have head: "is_head_of ms cd s' \<lparr>Size = lr_TreeSize lr, RootHash = lr_RootHash lr\<rparr>"
    if "length s < capacity" "GetLatestSignedLogRoot (sample_trillian cd ms) tid s = (s', Some (Some (Some b)), None)"
      "UnmarshalLogRoot (sample_trillian cd ms) b = Ok lr" for s s' b lr
    using that root by (auto simp: sample_trillian_def is_head_of_def)
  have wire: "None \<notin> set rs" if "GetLeavesByRange (sample_trillian cd ms) tid m n s = (s', Some rs, e)" for m n s s' rs e
    using that by (auto simp: sample_trillian_def)
  have wire': "None \<notin> set ps"
    if "GetInclusionProofByHash (sample_trillian cd ms) tid h n s = (s', Some ps, e)" for h n s s' ps e
    using that by (auto simp: sample_trillian_def Let_def split: if_splits)
  have seq: "view_grows (sample_view cd) s s'
      \<and> tv_acc (sample_view cd) s' \<subseteq> tv_acc (sample_view cd) s \<union> {(k + j, ls ! j) | j. j < length ls}"
    if "tv_inv (sample_view cd) s" "list_all leaf_wf ls" "k + length ls < capacity"
      "s' = fst (rpc_AddSequencedLeaves (sample_trillian cd ms) tid (trilLeaves cd ls (of_nat k)) s)" for s s' ls k
  proof -
    have "s' = s \<or> s' = s @ ls \<and> sample_can_add cd s ls \<and> k = length s"
      using sample_AddSequencedLeaves [OF cd that(2) _ _ that(3), of s ms tid] that(1,4) by auto
    then show ?thesis
    proof
      assume *: "s' = s @ ls \<and> sample_can_add cd s ls \<and> k = length s"
      have "tv_acc (sample_view cd) s' \<subseteq> tv_acc (sample_view cd) s \<union> {(k + j, ls ! j) | j. j < length ls}"
      proof
        fix p assume "p \<in> tv_acc (sample_view cd) s'"
        then obtain i where i: "p = (i, s' ! i)" "i < length s'" by (auto simp: sample_view_def)
        show "p \<in> tv_acc (sample_view cd) s \<union> {(k + j, ls ! j) | j. j < length ls}"
        proof (cases "i < length s")
          case False
          then have "p = (k + (i - k), ls ! (i - k))" "i - k < length ls" using i * by (auto simp: nth_append)
          then show ?thesis by blast
        qed (use i * in \<open>auto simp: sample_view_def nth_append\<close>)
      qed
      then show ?thesis using * that(1) by (auto simp: sample_can_add_def)
    qed (use that(1) in auto)
  qed
  show ?thesis
    unfolding trillian_ok_def
  proof (intro conjI allI impI)
    show "\<not> is_panic (UnmarshalLogRoot (sample_trillian cd ms) b)" for b
      by (simp add: sample_trillian_def)
    show "is_head_of ms cd (tv_leaves (sample_view cd) s') \<lparr>Size = lr_TreeSize lr, RootHash = lr_RootHash lr\<rparr>"
      if "tv_inv (sample_view cd) s" "GetLatestSignedLogRoot (sample_trillian cd ms) tid s = (s', Some (Some (Some b)), None)"
        "UnmarshalLogRoot (sample_trillian cd ms) b = Ok lr" for s s' b lr
      using head [OF _ that(2,3)] that(1) by simp
    show "(i, tv_leaves (sample_view cd) s ! i) \<in> tv_acc (sample_view cd) s"
      if "i < length (tv_leaves (sample_view cd) s)" for i s
      using that by (auto simp: sample_view_def)
  qed (use cd sample_QueueLeaf [OF cd] seq head wire wire' sample_GetInclusionProofByHash sample_GetLeavesByRange in
      \<open>simp_all add: sample_reads\<close>)
qed

lemma integrates_sample:
  assumes cd: "codec_ok cd" and root: "\<And>xs. length (mroot ms xs) = HashSize"
  shows "integrates \<lparr>treeID = tid, logClient = sample_trillian cd ms\<rparr> cd (sample_view cd) (\<lambda>s. 0) 0"
  unfolding integrates_def
proof (intro allI impI conjI)
  let ?c = "\<lparr>treeID = tid, logClient = sample_trillian cd ms\<rparr>" and ?v = "sample_view cd"
  fix s assume s: "tv_inv ?v s"
  have none: "signer_runs ?v (\<lambda>s. 0) s' s''" for s' s'' by (simp add: signer_runs_def sample_view_def)
  show "\<exists>s' b lr. GetLatestSignedLogRoot (logClient ?c) (treeID ?c) s = (s', Some (Some (Some b)), None)
      \<and> UnmarshalLogRoot (logClient ?c) b = Ok lr \<and> length (lr_RootHash lr) = HashSize
      \<and> unat (lr_TreeSize lr) = length (tv_leaves ?v s') \<and> tv_acc ?v s \<subseteq> tv_acc ?v s' \<and> signer_runs ?v (\<lambda>s. 0) s s'"
    using s root none by (simp add: sample_trillian_def)
  fix ls assume ls: "list_all leaf_wf ls" "distinct (map (leaf_hash cd) (tv_leaves ?v s @ ls))" "length (tv_leaves ?v s @ ls) < capacity"
  have "map LeafIndex (trilLeaves cd ls (of_nat (length s))) = map (\<lambda>j. of_nat (length s + j)) [0 ..< length ls]"
    by (simp add: trilLeaves_def)
  then have "rpc_AddSequencedLeaves (sample_trillian cd ms) tid (trilLeaves cd ls (of_nat (length s))) s = (s @ ls, Some (), None)"
    using sample_decode [OF cd ls(1)] ls by (simp add: sample_trillian_def sample_can_add_def)
  then show "\<exists>s' e. rpc_AddSequencedLeaves (logClient ?c) (treeID ?c) (trilLeaves cd ls (of_nat (length (tv_leaves ?v s)))) s = (s', Some (), e)
      \<and> status_Code (logClient ?c) e = codes_OK
      \<and> (\<forall>j < length ls. (length (tv_leaves ?v s) + j, ls ! j) \<in> tv_acc ?v s') \<and> signer_runs ?v (\<lambda>s. 0) s s'"
    using none by (auto simp: sample_trillian_def sample_view_def nth_append)
qed simp

lemma dedups_sample:
  assumes "codec_ok cd"
  shows "dedups \<lparr>treeID = tid, logClient = sample_trillian cd ms\<rparr> cd (sample_view cd) (\<lambda>s. leaf_hash cd ` set s)"
  unfolding dedups_def using assms
  by (auto simp: sample_trillian_def codec_okD Let_def split: if_splits)

lemma at_rest_sample:
  assumes "codec_ok cd" and root: "\<And>xs. length (mroot ms xs) = HashSize" and s: "tv_inv (sample_view cd) s"
  shows "reads_at_rest \<lparr>treeID = tid, logClient = sample_trillian cd ms\<rparr> cd (sample_view cd) s"
    and "answers_at_rest \<lparr>treeID = tid, logClient = sample_trillian cd ms\<rparr> cd (sample_view cd) s"
proof -
  show "reads_at_rest \<lparr>treeID = tid, logClient = sample_trillian cd ms\<rparr> cd (sample_view cd) s"
    using root s by (auto simp: reads_at_rest_def sample_trillian_def)
  have pos: "leaf_position cd s (leaf_hash cd (s ! i)) \<le> i" if "i < length s" for i
  proof (rule ccontr)
    let ?t = "takeWhile (\<lambda>l. leaf_hash cd l \<noteq> leaf_hash cd (s ! i)) s"
    assume "\<not> leaf_position cd s (leaf_hash cd (s ! i)) \<le> i"
    then have "i < length ?t" by (simp add: leaf_position_def)
    then have "s ! i \<in> set ?t" using takeWhile_nth nth_mem by metis
    then show False by (auto dest: set_takeWhileD)
  qed
  show "answers_at_rest \<lparr>treeID = tid, logClient = sample_trillian cd ms\<rparr> cd (sample_view cd) s"
    unfolding answers_at_rest_def
  proof (intro conjI allI impI)
    fix i n assume n: "i < n" "n \<le> length (tv_leaves (sample_view cd) s)"
    then have "leaf_position cd s (leaf_hash cd (s ! i)) < n" "(of_nat n :: u64) = 1 \<longrightarrow> n = 1"
      using pos [of i] s unat_of_nat_capacity [of n] by (auto simp del: unat_of_nat_capacity)
    then show "\<exists>pf. GetInclusionProofByHash (logClient \<lparr>treeID = tid, logClient = sample_trillian cd ms\<rparr>)
        (treeID \<lparr>treeID = tid, logClient = sample_trillian cd ms\<rparr>) (leaf_hash cd (tv_leaves (sample_view cd) s ! i)) (of_nat n) s
        = (s, Some [Some pf], None) \<and> list_all (\<lambda>h. length h = HashSize) (pf_Hashes pf) \<and> (pf_Hashes pf = [] \<longrightarrow> n = 1)"
      using n s assms(1)
      by (auto simp: sample_trillian_def Let_def list_all_iff codec_okD leaf_hash_def)
  qed (use assms(1) in \<open>auto simp: sample_trillian_def codec_okD\<close>)
qed

text \<open>
  C11: The Trillian backend under the documented behaviour of the service: a tree head that
  \<open>GetTreeHead\<close> returned stays the head of a prefix of the log through every later
  sequence of calls, the log only grows, and a later successful \<open>GetLeaves\<close> for a range
  under that head returns exactly the leaves the log had at those indices when the head was
  returned.
\<close>

theorem TrillianClient_append_only:
  assumes "trillian_ok (logClient c) (treeID c) cd ms v" and "tv_inv v s"
    and "TrillianClient_GetTreeHead c s = (s1, Ok th)"
    and "calls_fit (Trillian_Client cd c) (tv_leaves v) cs s1"
    and "StartIndex req < EndIndex req" and "EndIndex req \<le> Size th"
    and "TrillianClient_GetLeaves cd c req (run_calls (Trillian_Client cd c) cs s1) = (s3, r)"
  shows "prefix (tv_leaves v s1) (tv_leaves v (run_calls (Trillian_Client cd c) cs s1))
    \<and> is_head_of ms cd (tv_leaves v (run_calls (Trillian_Client cd c) cs s1)) th
    \<and> (r = Ok ls \<longrightarrow> ls = leaf_slice (tv_leaves v s1) (StartIndex req) (EndIndex req))"
proof -
  let ?db = "Trillian_Client cd c"
  have inv: "trillian_inv c cd ms v s" using assms(1,2) by (simp add: trillian_inv_def)
  have th: "db_GetTreeHead ?db s = (s1, Ok th)" using assms(3) by (simp add: Trillian_Client_def)
  have inv1: "trillian_inv c cd ms v s1"
    using trillian_inv_grows [OF inv trillian_GetTreeHead(1) [OF inv assms(3)]] .
  have cap: "length (tv_leaves v s1) < capacity" using tril.inv_leaves [OF inv1] by simp
  have run: "trillian_inv c cd ms v (run_calls ?db cs s1)"
      "prefix (tv_leaves v s1) (tv_leaves v (run_calls ?db cs s1))"
    using tril.run_calls_grows [OF inv1 assms(4)] by auto
  have "unat (EndIndex req) \<le> length (tv_leaves v s1)"
    using tril.GetTreeHead_head [OF inv th cap] assms(6) by (simp add: is_head_of_def word_le_nat_alt)
  moreover have "prefix (tv_leaves v s1) (tv_leaves v s3)"
    using run(2) trillian_GetLeaves(1) [OF run(1) assms(7)] by (auto simp: view_grows_def)
  ultimately have "leaf_slice (tv_leaves v s3) (StartIndex req) (EndIndex req)
      = leaf_slice (tv_leaves v s1) (StartIndex req) (EndIndex req)"
    by (intro leaf_slice_prefix)
  then show ?thesis
    using run(2) tril.head_stays [OF inv th cap assms(4)] trillian_GetLeaves(3) [OF run(1) assms(7) _ assms(5)]
    by auto
qed

definition sample_client :: "Leaf list TrillianClient" where
  "sample_client = \<lparr>treeID = 17, logClient = sample_trillian concat_codec list_merkle_spec\<rparr>"

lemma sample_client_GetLeaves:
  "TrillianClient_GetLeaves concat_codec sample_client \<lparr>StartIndex = 0, EndIndex = 1\<rparr>
     [sample_leaf CHR ''a'', sample_leaf CHR ''b'']
   = ([sample_leaf CHR ''a'', sample_leaf CHR ''b''], Ok [sample_leaf CHR ''a''])"
  by (simp add: TrillianClient_GetLeaves_def sample_client_def sample_trillian_def)

theorem TrillianClient_GetLeaves_checked_witness:
  "\<exists>rs. GetLeavesByRange (logClient sample_client) (treeID sample_client) 0 1
      [sample_leaf CHR ''a'', sample_leaf CHR ''b'']
    = ([sample_leaf CHR ''a'', sample_leaf CHR ''b''], Some rs, None) \<and> length rs = 1"
  using TrillianClient_GetLeaves_checked [OF sample_client_GetLeaves] by auto

theorem TrillianClient_append_only_witness:
  "is_head_of list_merkle_spec concat_codec [sample_leaf CHR ''a'', sample_leaf CHR ''b'']
     \<lparr>Size = 1, RootHash = replicate 32 CHR ''a''\<rparr>"
proof -
  let ?s = "[sample_leaf CHR ''a'']" and ?v = "sample_view concat_codec"
  let ?th = "\<lparr>Size = 1, RootHash = replicate 32 CHR ''a''\<rparr>"
  let ?req = "\<lparr>StartIndex = 0, EndIndex = 1\<rparr>" and ?cs = "[CallAddLeaf (sample_leaf CHR ''b'') 1]"
  let ?db = "Trillian_Client concat_codec sample_client"
  have ok: "trillian_ok (logClient sample_client) (treeID sample_client) concat_codec list_merkle_spec ?v"
    unfolding sample_client_def TrillianClient.simps
    by (rule trillian_ok_sample) (simp_all add: list_merkle_spec_def)
  have q: "fst (TrillianClient_AddLeaf concat_codec sample_client (sample_leaf CHR ''b'') 1 ?s)
      = [sample_leaf CHR ''a'', sample_leaf CHR ''b'']"
    by (simp add: TrillianClient_AddLeaf_def TrillianClient_GetInclusionProof_def sample_client_def
        sample_trillian_def sample_can_add_def Let_def leaf_position_def capacity_def)
  have run: "run_calls ?db ?cs ?s = [sample_leaf CHR ''a'', sample_leaf CHR ''b'']"
    using q by (simp add: Trillian_Client_def)
  have "calls_fit ?db (tv_leaves ?v) ?cs ?s"
    using q by (simp add: Trillian_Client_def capacity_def)
  moreover have "TrillianClient_GetTreeHead sample_client ?s = (?s, Ok ?th)"
    by (simp add: TrillianClient_GetTreeHead_def sample_client_def sample_trillian_def list_merkle_spec_def
        treeHeadFromLogRoot_def)
  moreover have "tv_inv ?v ?s" by (simp add: capacity_def)
  ultimately show ?thesis
    using TrillianClient_append_only [OF ok, of ?s ?s ?th ?cs ?req] run sample_client_GetLeaves by simp
qed

end
