(* ===== verification/Primary_Node.thy ===== *)
theory Primary_Node
  imports Limiter Trillian_Client Memory_Db
begin

text \<open>
  The request handlers of the primary (\<open>internal/node/primary\<close>).  A handler gets the
  tree heads that the state manager returns when it is called as arguments, and passes the state
  of the rate limiter and of the database along.  Signature and token checks are code outside of
  this repository: the parameters \<open>req_Verify\<close> and \<open>TokenVerifier\<close>.  What the
  handlers rely on of a rate limiter is the locale \<open>rate_limiter\<close>.
\<close>

section \<open>The rate limiter interface\<close>

locale rate_limiter =
  fixes allowed :: "'l \<Rightarrow> time \<Rightarrow> string option \<Rightarrow> hash \<Rightarrow> 'l \<times> 't option result"
    and relax :: "'l \<Rightarrow> 't \<Rightarrow> 'l"
    and ok :: "'l \<Rightarrow> bool"
    and due :: "'l \<Rightarrow> time \<Rightarrow> 'l" \<comment> \<open>a reset that is due at the given time\<close>
    and used :: "'l \<Rightarrow> 'u" \<comment> \<open>what has been used up\<close>
  assumes allowed_ok: "ok l \<Longrightarrow> allowed l now d k = (l', r) \<Longrightarrow> ok l' \<and> is_ok r"
    and relax_ok: "ok l \<Longrightarrow> allowed l now d k = (l', Ok (Some t)) \<Longrightarrow> ok (relax l' t)"
    and relax_used: "ok l \<Longrightarrow> allowed l now d k = (l', Ok (Some t)) \<Longrightarrow> used (relax l' t) = used (due l now)"
    and refused_used: "ok l \<Longrightarrow> allowed l now d k = (l', Ok None) \<Longrightarrow> used l' = used (due l now)"

definition limiter_ok :: "(string \<Rightarrow> string result) \<Rightarrow> limiter \<Rightarrow> bool" where
  \<comment> \<open>well-formed, and the normalization of domain names does not panic\<close>
  "limiter_ok norm l \<longleftrightarrow> limiter_wf l \<and> (\<forall>d. \<not> is_panic (norm d))"

lemma limiter_access_eq:
  assumes "limiter_ok norm l"
  shows "limiter_AccessAllowed norm l now d k =
    (case applicable norm (reset_if_time l now) d k of
       None \<Rightarrow> (reset_if_time l now, Ok None)
     | Some (t, n) \<Rightarrow> (case limiter_allow (reset_if_time l now) t n of (l', r) \<Rightarrow> (l', Ok r)))"
  using assms by (auto simp: limiter_ok_def limiter_AccessAllowed_applicable Let_def split: option.splits prod.splits)

interpretation nolimit: rate_limiter NoLimit_AccessAllowed "\<lambda>l t. l" "\<lambda>l. True" "\<lambda>l now. l" "\<lambda>l. ()"
  by unfold_locales (auto simp: NoLimit_AccessAllowed_def)

lemma limiter_granted:
  assumes "limiter_ok norm l" and "limiter_AccessAllowed norm l now d k = (l', Ok (Some t))"
  shows "limiter_count l' = (limiter_count (reset_if_time l now))(t := limiter_count (reset_if_time l now) t + 1)"
    and "limiter_count (run_relax l' t) = limiter_count (reset_if_time l now)"
proof -
  let ?l = "reset_if_time l now"
  obtain u n where u: "limiter_allow ?l u n = (l', Some t)"
    using assms by (auto simp: limiter_access_eq split: option.splits prod.splits)
  have a: "limiter_allow ?l t n = (l', Some t)" using u limiter_allow_ticket [OF u] by simp
  have lt: "limiter_count ?l t < n"
    using a lim.allow_refuse [of n ?l t] by (cases "limiter_count ?l t < n") auto
  then show c: "limiter_count l' = (limiter_count ?l)(t := limiter_count ?l t + 1)"
    using a lim.allow_grant [of ?l t n] by auto
  have "limiter_wf ?l" using assms(1) limiter_wf_reset by (simp add: limiter_ok_def)
  then show "limiter_count (run_relax l' t) = limiter_count ?l"
    using c limiter_wfD(1) [of ?l t] by (simp add: lim.relax_count)
qed

lemma limiter_refused:
  assumes "limiter_ok norm l" and "limiter_AccessAllowed norm l now d k = (l', Ok None)"
  shows "limiter_count l' = limiter_count (reset_if_time l now)"
proof (cases "applicable norm (reset_if_time l now) d k")
  case None
  then show ?thesis using assms by (auto simp: limiter_access_eq)
next
  case (Some tn)
  obtain t n where tn: "tn = (t, n)" by (cases tn)
  then have a: "limiter_allow (reset_if_time l now) t n = (l', None)"
    using assms Some by (auto simp: limiter_access_eq split: prod.splits)
  then show ?thesis
    using lim.allow_grant [of "reset_if_time l now" t n] lim.allow_refuse [of n "reset_if_time l now" t]
    by (cases "limiter_count (reset_if_time l now) t < n") auto
qed

interpretation limited: rate_limiter "limiter_AccessAllowed norm" run_relax "limiter_ok norm" reset_if_time limiter_count
  for norm :: "string \<Rightarrow> string result"
proof
  fix l now d k l' and r :: "ticket option result"
  assume *: "limiter_ok norm l" "limiter_AccessAllowed norm l now d k = (l', r)"
  have "is_ok r" using * by (auto simp: limiter_access_eq is_ok_iff split: option.splits prod.splits)
  then show "limiter_ok norm l' \<and> is_ok r"
    using limiter_wf_access [OF _ _ *(2)] *(1) by (auto simp: limiter_ok_def)
next
  fix l now d k l' and t :: ticket
  assume *: "limiter_ok norm l" "limiter_AccessAllowed norm l now d k = (l', Ok (Some t))"
  then show "limiter_ok norm (run_relax l' t)"
    using limiter_wf_access [OF _ _ *(2)] limiter_wf_relax by (auto simp: limiter_ok_def)
qed (simp_all add: limiter_granted limiter_refused)

section \<open>Handlers\<close>

record ('l, 't, 's) Primary =
  MaxRange :: i64
  DbClient :: "'s Client"
  TokenVerifier :: "(SubmitHeader \<Rightarrow> go_error option) option"
  AccessAllowed :: "'l \<Rightarrow> time \<Rightarrow> string option \<Rightarrow> hash \<Rightarrow> 'l \<times> 't option result" \<comment> \<open>of \<open>RateLimiter\<close>\<close>
  call_relax :: "'l \<Rightarrow> 't \<Rightarrow> 'l" \<comment> \<open>calling the function it returned\<close>

definition checked_domain :: "('l, 't, 's) Primary \<Rightarrow> SubmitHeader option \<Rightarrow> string option result" where
  "checked_domain p t =
     (case (t, TokenVerifier p) of
        (Some h, Some verify) \<Rightarrow>
          (case verify h of Some e \<Rightarrow> Err (ApiError StatusBadRequest e) | None \<Rightarrow> Ok (Some (Domain h)))
      | _ \<Rightarrow> Ok None)"

definition Primary_AddLeaf ::
    "(bytes \<Rightarrow> hash) \<Rightarrow> (LeafRequest \<Rightarrow> Leaf result) \<Rightarrow> ('l, 't, 's) Primary \<Rightarrow> SignedTreeHead \<Rightarrow> time
     \<Rightarrow> LeafRequest \<Rightarrow> SubmitHeader option \<Rightarrow> 'l \<times> 's \<Rightarrow> ('l \<times> 's) \<times> bool result" where
  "Primary_AddLeaf HashBytes req_Verify p sth now req t st =
     (case st of (l, s) \<Rightarrow>
     (case checked_domain p t of
        Err e \<Rightarrow> ((l, s), Err e)
      | Panic m \<Rightarrow> ((l, s), Panic m)
      | Ok domain \<Rightarrow>
     (case AccessAllowed p l now domain (HashBytes (lr_PublicKey req)) of
        (l1, Panic m) \<Rightarrow> ((l1, s), Panic m)
      | (l1, Err e) \<Rightarrow> ((l1, s), Err e)
      | (l1, Ok None) \<Rightarrow>
          ((l1, s), Err (ApiError StatusTooManyRequests
             (if domain = None then Errorf ''rate-limit for unknown domain exceeded''
              else Errorf ''rate-limit for domain exceeded'')))
      | (l1, Ok (Some relax)) \<Rightarrow>
     (case req_Verify req of
        Err e \<Rightarrow> ((l1, s), Err (ApiError StatusForbidden e))
      | Panic m \<Rightarrow> ((l1, s), Panic m)
      | Ok leaf \<Rightarrow>
     (case db_AddLeaf (DbClient p) leaf (sth_Size sth) s of
        (s1, Err e) \<Rightarrow> ((l1, s1), Err e)
      | (s1, Panic m) \<Rightarrow> ((l1, s1), Panic m)
      | (s1, Ok status) \<Rightarrow>
          ((if AlreadyExists status then call_relax p l1 relax else l1, s1), Ok (IsSequenced status)))))))"

definition Primary_GetTreeHead :: "CosignedTreeHead \<Rightarrow> CosignedTreeHead result" where
  "Primary_GetTreeHead cth = Ok cth"

definition Primary_GetConsistencyProof ::
    "('l, 't, 's) Primary \<Rightarrow> CosignedTreeHead \<Rightarrow> ConsistencyRequest \<Rightarrow> 's \<Rightarrow> 's \<times> ConsistencyProof result" where
  "Primary_GetConsistencyProof p cth req s =
     (if cth_Size cth < NewSize req
      then (s, Err (ApiError StatusBadRequest (Errorf ''new_size outside of current tree'')))
      else db_GetConsistencyProof (DbClient p) req s)"

definition Primary_GetInclusionProof ::
    "('l, 't, 's) Primary \<Rightarrow> CosignedTreeHead \<Rightarrow> InclusionRequest \<Rightarrow> 's \<Rightarrow> 's \<times> InclusionProof result" where
  "Primary_GetInclusionProof p cth req s =
     (if cth_Size cth < ir_Size req
      then (s, Err (ApiError StatusBadRequest (Errorf ''tree_size outside of current tree'')))
      else case db_GetInclusionProof (DbClient p) req s of
             (s', r) \<Rightarrow> (s', if r = Err ErrNotIncluded then Err ApiErrNotFound else r))"

definition getLeavesGeneral ::
    "('l, 't, 's) Primary \<Rightarrow> LeavesRequest \<Rightarrow> u64 \<Rightarrow> bool \<Rightarrow> 's \<Rightarrow> 's \<times> Leaf list result" where
  "getLeavesGeneral p req0 maxIndex strictEnd s =
     (let req = req0 in
      if EndIndex req \<le> StartIndex req
      then (s, Err (ApiError StatusBadRequest (Errorf ''start_index must be less than end_index'')))
      else if maxIndex < StartIndex req \<or> (strictEnd \<and> maxIndex \<le> StartIndex req)
      then (s, Err (ApiError StatusBadRequest (Errorf ''start_index outside of current tree'')))
      else if maxIndex < EndIndex req \<and> strictEnd
      then (s, Err (ApiError StatusBadRequest (Errorf ''end_index outside of current tree'')))
      else
        let req = (if maxIndex < EndIndex req then req\<lparr>EndIndex := maxIndex\<rparr> else req);
            req = (if MaxRange p < EndIndex req - StartIndex req
                   then req\<lparr>EndIndex := StartIndex req + MaxRange p\<rparr> else req) in
        if StartIndex req = EndIndex req
        then (s, if strictEnd then Err (Errorf ''internal error, empty range'')
                 else Err (ApiError StatusNotFound (Errorf ''at end of tree'')))
        else case db_GetLeaves (DbClient p) req s of
               (s', Ok leaves) \<Rightarrow>
                 (s', if leaves = [] then Err (Errorf ''backend get leaves returned an empty list'') else Ok leaves)
             | (s', r) \<Rightarrow> (s', r))"

definition Primary_GetLeaves ::
    "('l, 't, 's) Primary \<Rightarrow> CosignedTreeHead \<Rightarrow> LeavesRequest \<Rightarrow> 's \<Rightarrow> 's \<times> Leaf list result" where
  "Primary_GetLeaves p cth req s = getLeavesGeneral p req (cth_Size cth) True s"

definition GetLeavesInternal ::
    "('l, 't, 's) Primary \<Rightarrow> LeavesRequest \<Rightarrow> 's \<Rightarrow> 's \<times> Leaf list result" where
  "GetLeavesInternal p req s =
     (case db_GetTreeHead (DbClient p) s of
        (s1, Err e) \<Rightarrow> (s1, Err (Errorf ''failed getting tree head''))
      | (s1, Panic m) \<Rightarrow> (s1, Panic m)
      | (s1, Ok th) \<Rightarrow> getLeavesGeneral p req (Size th) False s1)"

section \<open>Ranges\<close>

definition range_end :: "('l, 't, 's) Primary \<Rightarrow> LeavesRequest \<Rightarrow> u64 \<Rightarrow> nat" where
  \<comment> \<open>where the served range ends: the requested end, the end of the tree, or the maximal length\<close>
  "range_end p req maxIndex =
     min (min (unat (EndIndex req)) (unat maxIndex)) (unat (StartIndex req) + unat (MaxRange p))"

lemma clamp_range:
  fixes p :: "('l, 't, 's) Primary"
  assumes "StartIndex req < EndIndex req" and "StartIndex req \<le> m"
  defines "req1 \<equiv> (if m < EndIndex req then req\<lparr>EndIndex := m\<rparr> else req)"
  defines "req2 \<equiv> (if MaxRange p < EndIndex req1 - StartIndex req1
                   then req1\<lparr>EndIndex := StartIndex req1 + MaxRange p\<rparr> else req1)"
  shows "StartIndex req2 = StartIndex req" and "unat (EndIndex req2) = range_end p req m"
    and "StartIndex req2 = EndIndex req2 \<longleftrightarrow> StartIndex req = m \<or> MaxRange p = 0"
proof -
  have s1: "StartIndex req1 = StartIndex req" by (simp add: req1_def)
  then show s2: "StartIndex req2 = StartIndex req" by (simp add: req2_def)
  have e1: "unat (EndIndex req1) = min (unat (EndIndex req)) (unat m)" "StartIndex req \<le> EndIndex req1"
    using assms(1,2) by (auto simp: req1_def word_less_nat_alt word_le_nat_alt)
  have d: "unat (EndIndex req1 - StartIndex req) = unat (EndIndex req1) - unat (StartIndex req)"
    using e1(2) by (simp add: unat_sub)
  have add: "unat (StartIndex req + MaxRange p) = unat (StartIndex req) + unat (MaxRange p)"
    if "MaxRange p < EndIndex req1 - StartIndex req"
  proof -
    have "unat (StartIndex req) + unat (MaxRange p) < 2 ^ 64"
      using that d unat_less_word [of "EndIndex req1"] by (simp add: word_less_nat_alt)
    then show ?thesis by (simp add: unat_word_ariths(1))
  qed
  show e2: "unat (EndIndex req2) = range_end p req m"
    using e1 d add s1 by (auto simp: req2_def range_end_def word_less_nat_alt word_le_nat_alt min_def)
  show "StartIndex req2 = EndIndex req2 \<longleftrightarrow> StartIndex req = m \<or> MaxRange p = 0"
    unfolding word_unat_eq_iff s2 e2 using assms(1,2) by (auto simp: range_end_def word_less_nat_alt word_le_nat_alt)
qed

lemma getLeavesGeneral_cases:
  fixes p :: "('l, 't, 's) Primary"
  shows "getLeavesGeneral p req m strict s =
    (if EndIndex req \<le> StartIndex req
     then (s, Err (ApiError StatusBadRequest (Errorf ''start_index must be less than end_index'')))
     else if m < StartIndex req \<or> (strict \<and> m \<le> StartIndex req)
     then (s, Err (ApiError StatusBadRequest (Errorf ''start_index outside of current tree'')))
     else if m < EndIndex req \<and> strict
     then (s, Err (ApiError StatusBadRequest (Errorf ''end_index outside of current tree'')))
     else if StartIndex req = m \<or> MaxRange p = 0
     then (s, if strict then Err (Errorf ''internal error, empty range'')
              else Err (ApiError StatusNotFound (Errorf ''at end of tree'')))
     else case db_GetLeaves (DbClient p) (req\<lparr>EndIndex := of_nat (range_end p req m)\<rparr>) s of
            (s', Ok leaves) \<Rightarrow>
              (s', if leaves = [] then Err (Errorf ''backend get leaves returned an empty list'') else Ok leaves)
          | (s', r) \<Rightarrow> (s', r))"
proof (cases "EndIndex req \<le> StartIndex req \<or> m < StartIndex req")
  case True
  then show ?thesis by (auto simp: getLeavesGeneral_def Let_def)
next
  case False
  then have *: "StartIndex req < EndIndex req" "StartIndex req \<le> m" by auto
  let ?req1 = "if m < EndIndex req then req\<lparr>EndIndex := m\<rparr> else req"
  let ?req2 = "if MaxRange p < EndIndex ?req1 - StartIndex ?req1
     then ?req1\<lparr>EndIndex := StartIndex ?req1 + MaxRange p\<rparr> else ?req1"
  note clamp = clamp_range [OF *, of p]
  have "EndIndex ?req2 = of_nat (range_end p req m)" using clamp(2) by (metis of_nat_unat ucast_id)
  moreover have "?req2 = req\<lparr>EndIndex := EndIndex ?req2\<rparr>" by simp
  ultimately have "?req2 = req\<lparr>EndIndex := of_nat (range_end p req m)\<rparr>" by metis
  then show ?thesis
    unfolding getLeavesGeneral_def Let_def clamp(3) by (simp only:)
qed

section \<open>What the handlers make of the database contract\<close>

context db_contract
begin

lemma served_slice:
  assumes "inv s" and "DbClient p = db" and "getLeavesGeneral p req m strict s = (s', Ok ls)"
  shows "prefix (lvs s) (lvs s') \<and> ls \<noteq> [] \<and> unat (StartIndex req) + length ls = range_end p req m
    \<and> range_end p req m \<le> length (lvs s') \<and> ls = take (length ls) (drop (unat (StartIndex req)) (lvs s'))"
proof -
  let ?req = "req\<lparr>EndIndex := of_nat (range_end p req m)\<rparr>"
  have g: "db_GetLeaves db ?req s = (s', Ok ls)" "ls \<noteq> []" "StartIndex req < EndIndex req" "StartIndex req < m"
      "MaxRange p \<noteq> 0"
    using assms(2,3) unfolding getLeavesGeneral_cases
    by (auto simp: not_le not_less order.order_iff_strict split: if_splits prod.splits result.splits)
  have e: "unat (of_nat (range_end p req m) :: u64) = range_end p req m"
    using unat_less_word [of m] by (intro unat_of_nat_word) (simp add: range_end_def)
  have "unat (StartIndex req) < range_end p req m"
    using g(3-5) by (auto simp: range_end_def word_less_nat_alt unat_gt_0)
  then have lt: "StartIndex ?req < EndIndex ?req" using e by (simp add: word_less_nat_alt)
  have sl: "range_end p req m \<le> length (lvs s')" "ls = leaf_slice (lvs s') (StartIndex req) (of_nat (range_end p req m))"
    using GetLeaves_slice [OF assms(1) lt g(1)] e by auto
  then have "length ls = range_end p req m - unat (StartIndex req)"
    using length_leaf_slice [of "of_nat (range_end p req m)" "lvs s'"] e by simp
  with sl e \<open>unat (StartIndex req) < range_end p req m\<close> show ?thesis
    using g(2) GetLeaves_grows [OF assms(1) g(1)] by (auto simp: leaf_slice_def)
qed

lemma AddLeaf_sequenced_sound:
  assumes "inv s" and "DbClient p = db" and "\<And>r l. rv r = Ok l \<Longrightarrow> leaf_wf l"
    and "Primary_AddLeaf H rv p sth now req t (l, s) = ((l', s'), Ok True)"
  shows "\<exists>leaf i. rv req = Ok leaf \<and> i < unat (sth_Size sth) \<and> i < length (lvs s')
    \<and> leaf_hash cd (lvs s' ! i) = leaf_hash cd leaf"
proof -
  obtain leaf st where "rv req = Ok leaf" "db_AddLeaf db leaf (sth_Size sth) s = (s', Ok st)" "IsSequenced st"
    using assms(2,4) by (auto simp: Primary_AddLeaf_def split: result.splits prod.splits option.splits if_splits)
  then show ?thesis using AddLeaf_sequenced [OF assms(1)] assms(3) by blast
qed

end

section \<open>What is counted\<close>

text \<open>
  A sequence of \<open>add-leaf\<close> requests: for each the signed tree head and the time when it is handled.
\<close>

type_synonym add_request = "SignedTreeHead \<times> time \<times> LeafRequest \<times> SubmitHeader option"

abbreviation (input) handled_at :: "add_request \<Rightarrow> time" where
  "handled_at x \<equiv> fst (snd x)"

fun AddLeaf_sequence ::
    "(bytes \<Rightarrow> hash) \<Rightarrow> (LeafRequest \<Rightarrow> Leaf result) \<Rightarrow> ('l, 't, 's) Primary \<Rightarrow> add_request list \<Rightarrow> 'l \<times> 's
     \<Rightarrow> ('l \<times> 's) \<times> bool result list" where
  "AddLeaf_sequence H rv p [] st = (st, [])"
| "AddLeaf_sequence H rv p ((sth, now, req, t) # rs) st =
     (case Primary_AddLeaf H rv p sth now req t st of
        (st1, r) \<Rightarrow> (case AddLeaf_sequence H rv p rs st1 of (st2, out) \<Rightarrow> (st2, r # out)))"

fun request_leaf :: "leaf_codec \<Rightarrow> (LeafRequest \<Rightarrow> Leaf result) \<Rightarrow> add_request \<Rightarrow> hash option" where
  "request_leaf cd rv (sth, now, req, t) = (case rv req of Ok leaf \<Rightarrow> Some (leaf_hash cd leaf) | _ \<Rightarrow> None)"

fun request_counter ::
    "(string \<Rightarrow> string result) \<Rightarrow> limiter \<Rightarrow> (bytes \<Rightarrow> hash) \<Rightarrow> ('l, 't, 's) Primary \<Rightarrow> add_request \<Rightarrow> ticket option" where
  \<comment> \<open>the counter that the allow-lists select for a request\<close>
  "request_counter norm l H p (sth, now, req, t) =
     (case checked_domain p t of Ok d \<Rightarrow> map_option fst (applicable norm l d (H (lr_PublicKey req))) | _ \<Rightarrow> None)"

fun first_requests ::
    "leaf_codec \<Rightarrow> (LeafRequest \<Rightarrow> Leaf result) \<Rightarrow> hash option set \<Rightarrow> (add_request \<times> bool result) list \<Rightarrow> add_request list" where
  \<comment> \<open>the accepted requests that are the first ones for their leaf, given the leaves that are known before\<close>
  "first_requests cd rv K [] = []"
| "first_requests cd rv K ((x, r) # rest) =
     (if is_ok r \<and> request_leaf cd rv x \<notin> K then x # first_requests cd rv (insert (request_leaf cd rv x) K) rest
      else first_requests cd rv K rest)"

definition answered :: "bool result \<Rightarrow> bool" where
  \<comment> \<open>accepted or logged, or refused for its token (400) or by the rate limiter (429)\<close>
  "answered r \<longleftrightarrow> is_ok r \<or> (\<exists>e. r = Err (ApiError StatusTooManyRequests e)) \<or> (\<exists>e. r = Err (ApiError StatusBadRequest e))"


text \<open>The cost of one request, on every branch of the handler.\<close>

lemma Primary_AddLeaf_cost:
  fixes norm :: "string \<Rightarrow> string result"
  assumes "limiter_ok norm l" and "AccessAllowed p = limiter_AccessAllowed norm" and "call_relax p = run_relax"
    and "checked_domain p t = Ok d"
    and "limiter_AccessAllowed norm l now d (H (lr_PublicKey req)) = (l1, Ok r1)"
    and "Primary_AddLeaf H rv p sth now req t (l, s) = ((l', s'), r)"
  defines "base \<equiv> limiter_count (reset_if_time l now)"
  shows "limiter_ok norm l' \<and>
    (case r1 of
       None \<Rightarrow> (\<exists>e. r = Err (ApiError StatusTooManyRequests e)) \<and> s' = s \<and> limiter_count l' = base
     | Some tk \<Rightarrow>
        (case rv req of
           Err e \<Rightarrow> r = Err (ApiError StatusForbidden e) \<and> s' = s \<and> limiter_count l' = base(tk := base tk + 1)
         | Panic m \<Rightarrow> r = Panic m
         | Ok leaf \<Rightarrow>
            (case db_AddLeaf (DbClient p) leaf (sth_Size sth) s of
               (s1, Err e) \<Rightarrow> r = Err e \<and> s' = s1 \<and> limiter_count l' = base(tk := base tk + 1)
             | (s1, Panic m) \<Rightarrow> r = Panic m
             | (s1, Ok st) \<Rightarrow> r = Ok (IsSequenced st) \<and> s' = s1
                 \<and> limiter_count l' = (if AlreadyExists st then base else base(tk := base tk + 1)))))"
proof (cases r1)
  case None
  then show ?thesis
    using assms limited.refused_used [OF assms(1), of now d _ l1] limited.allowed_ok [OF assms(1,5)]
    by (auto simp: Primary_AddLeaf_def)
next
  case (Some tk)
  have l1: "limiter_AccessAllowed norm l now d (H (lr_PublicKey req)) = (l1, Ok (Some tk))" using assms(5) Some by simp
  note acc = limited.allowed_ok [OF assms(1) l1] limited.relax_ok [OF assms(1) l1]
    limited.relax_used [OF assms(1) l1] limiter_granted(1) [OF assms(1) l1]
  show ?thesis
    using assms(2-4,6) l1 acc Some unfolding base_def
    by (auto simp: Primary_AddLeaf_def split: result.splits prod.splits if_splits)
qed

lemma limiter_access_frame:
  assumes "limiter_ok norm l" and "now < sch_next (resetSchedule l)" and "limiter_AccessAllowed norm l now d k = (l', Ok r)"
  shows "same_config l l'" and "resetSchedule l' = resetSchedule l"
    and "r = Some tk \<Longrightarrow> map_option fst (applicable norm l d k) = Some tk"
proof -
  have reset: "reset_if_time l now = l" using reset_if_time_cases [of l now] assms(2) by auto
  consider "l' = l" "r = None" | t n where "applicable norm l d k = Some (t, n)" "limiter_allow l t n = (l', r)"
    using assms(3) limiter_access_eq [OF assms(1)] reset by (auto split: option.splits prod.splits)
  then have "same_config l l' \<and> resetSchedule l' = resetSchedule l
      \<and> (r = Some tk \<longrightarrow> map_option fst (applicable norm l d k) = Some tk)"
  proof cases
    case (2 t n)
    then show ?thesis
      using same_config_ops(2) [of l t n] resetSchedule_ops(1) [of l t n] limiter_allow_ticket [of l t n l' tk] by auto
  qed simp
  then show "same_config l l'" "resetSchedule l' = resetSchedule l"
    "r = Some tk \<Longrightarrow> map_option fst (applicable norm l d k) = Some tk" by auto
qed

lemma same_config_counter: "same_config l l' \<Longrightarrow> request_counter norm l' H p = request_counter norm l H p"
  using same_config_applicable [of l l' norm] by (auto simp: fun_eq_iff split: result.splits)

context leaf_tracker
begin

lemma AddLeaf_counted:
  assumes l: "limiter_ok norm l" "now < sch_next (resetSchedule l)" and s: "inv s"
    and p: "DbClient p = db" "AccessAllowed p = limiter_AccessAllowed norm" "call_relax p = run_relax"
    and wf: "\<forall>r l. rv r = Ok l \<longrightarrow> leaf_wf l"
    and add: "Primary_AddLeaf H rv p sth now req t (l, s) = ((l', s'), r)" and r: "answered r"
  defines "h \<equiv> request_leaf cd rv (sth, now, req, t)" and "b \<equiv> request_counter norm l H p (sth, now, req, t)"
  shows "limiter_ok norm l' \<and> same_config l l' \<and> resetSchedule l' = resetSchedule l \<and> inv s'
    \<and> (if is_ok r then Some ` known s' = insert h (Some ` known s)
         \<and> limiter_count l' = (\<lambda>u. limiter_count l u + (if h \<notin> Some ` known s \<and> b = Some u then 1 else 0))
       else s' = s \<and> limiter_count l' = limiter_count l)"
proof -
  have reset: "reset_if_time l now = l" using reset_if_time_cases [of l now] l(2) by auto
  show ?thesis
  proof (cases "checked_domain p t")
    case (Ok d)
    obtain l1 r1 where "limiter_AccessAllowed norm l now d (H (lr_PublicKey req)) = (l1, r1)" by fastforce
    then obtain r1 where l1: "limiter_AccessAllowed norm l now d (H (lr_PublicKey req)) = (l1, Ok r1)"
      using limited.allowed_ok [OF l(1)] is_ok_iff by metis
    note frame = limiter_access_frame [OF l l1]
    note cost = Primary_AddLeaf_cost [where H = H, OF l(1) p(2,3) Ok l1 add, unfolded reset]
    have l': "l' = l1 \<or> (\<exists>tk. l' = run_relax l1 tk)"
      using add p Ok l1 by (auto simp: Primary_AddLeaf_def split: result.splits prod.splits option.splits if_splits)
    then have sc: "same_config l l'" "resetSchedule l' = resetSchedule l"
      using frame(1,2) same_config_trans [OF frame(1) same_config_ops(3)] by auto
    show ?thesis
    proof (cases r1)
      case None
      then show ?thesis using cost sc s by auto
    next
      case (Some tk)
      obtain leaf where leaf: "rv req = Ok leaf"
        using cost r Some by (cases "rv req") (auto simp: answered_def)
      obtain s1 rd where db: "db_AddLeaf db leaf (sth_Size sth) s = (s1, rd)" by fastforce
      obtain st where st: "rd = Ok st"
        using cost r Some leaf db p(1) AddLeaf_failed [OF s wf [rule_format, OF leaf]] by (cases rd) (auto simp: answered_def)
      have "b = Some tk" using frame(3) [OF Some] Ok by (simp add: b_def)
      moreover have "h = Some (leaf_hash cd leaf)" using leaf by (simp add: h_def)
      ultimately show ?thesis
        using cost Some leaf db st p(1) sc AddLeaf_tracked [OF s wf [rule_format, OF leaf]] by (auto simp: fun_eq_iff)
    qed
  next
    case (Err e)
    then have "r = Err e" "l' = l" "s' = s" using add by (auto simp: Primary_AddLeaf_def)
    then show ?thesis using l s by simp
  next
    case (Panic m)
    then show ?thesis by (auto simp: checked_domain_def split: option.splits prod.splits)
  qed
qed

lemma AddLeaf_sequence_counted:
  assumes "limiter_ok norm l" and "inv s"
    and p: "DbClient p = db" "AccessAllowed p = limiter_AccessAllowed norm" "call_relax p = run_relax"
    and wf: "\<forall>r l. rv r = Ok l \<longrightarrow> leaf_wf l"
    and "\<forall>x \<in> set rs. handled_at x < sch_next (resetSchedule l)"
    and "AddLeaf_sequence H rv p rs (l, s) = ((l', s'), out)" and "list_all answered out"
  shows "limiter_ok norm l' \<and> (\<forall>u. limiter_count l' u = limiter_count l u
    + int (count_list (map (request_counter norm l H p) (first_requests cd rv (Some ` known s) (zip rs out))) (Some u)))"
  using assms(1,2,7-9)
proof (induction rs arbitrary: l s out)
  case (Cons x rs)
  obtain sth now req t where x: "x = (sth, now, req, t)" by (metis prod_cases4)
  obtain l1 s1 r where add: "Primary_AddLeaf H rv p sth now req t (l, s) = ((l1, s1), r)" by (metis prod_cases3 surj_pair)
  obtain out' where rest: "AddLeaf_sequence H rv p rs (l1, s1) = ((l', s'), out')" "out = r # out'"
    using Cons.prems(4) x add by (auto split: prod.splits)
  have r: "answered r" "list_all answered out'" using Cons.prems(5) rest(2) by simp_all
  have now: "now < sch_next (resetSchedule l)" using Cons.prems(3) x by simp
  note one = AddLeaf_counted [where rv = rv and H = H, OF Cons.prems(1) now Cons.prems(2) p wf add r(1)]
  have "\<forall>x \<in> set rs. handled_at x < sch_next (resetSchedule l1)" using Cons.prems(3) one by simp
  note IH = Cons.IH [OF _ _ this rest(1) r(2)]
  have "request_counter norm l1 H p = request_counter norm l H p"
    using same_config_counter one by blast
  then show ?case using one IH x rest(2) by (auto split: if_splits)
qed simp

end

section \<open>A concrete primary\<close>

definition sample_primary :: "u64 \<Rightarrow> (unit, unit, Leaf list) Primary" where
  "sample_primary n = \<lparr>MaxRange = n, DbClient = Trillian_Client concat_codec sample_client, TokenVerifier = None,
     AccessAllowed = NoLimit_AccessAllowed, call_relax = \<lambda>l t. l\<rparr>"

definition sample_published :: "u64 \<Rightarrow> CosignedTreeHead" where
  "sample_published n = \<lparr>cth_SignedTreeHead = \<lparr>sth_TreeHead = \<lparr>Size = n, RootHash = replicate 32 CHR ''r''\<rparr>,
     sth_Signature = replicate 64 CHR ''s''\<rparr>, cth_Cosignatures = []\<rparr>"

definition sample_log :: "Leaf list" where
  "sample_log = [sample_leaf CHR ''a'', sample_leaf CHR ''b'']"

lemma sample_client_ok:
  "trillian_ok (logClient sample_client) (treeID sample_client) concat_codec list_merkle_spec (sample_view concat_codec)"
  "tv_inv (sample_view concat_codec) sample_log"
proof -
  show "trillian_ok (logClient sample_client) (treeID sample_client) concat_codec list_merkle_spec (sample_view concat_codec)"
    unfolding sample_client_def TrillianClient.simps
    by (rule trillian_ok_sample) (simp_all add: list_merkle_spec_def)
qed (simp add: sample_log_def capacity_def)

lemma sample_primary_GetLeaves:
  "Primary_GetLeaves (sample_primary 10) (sample_published 1) \<lparr>StartIndex = 0, EndIndex = 1\<rparr> sample_log
   = (sample_log, Ok [sample_leaf CHR ''a''])"
proof -
  have "range_end (sample_primary 10) \<lparr>StartIndex = 0, EndIndex = 1\<rparr> 1 = 1"
    by (simp add: range_end_def sample_primary_def)
  then show ?thesis
    using sample_client_GetLeaves
    by (simp add: Primary_GetLeaves_def getLeavesGeneral_cases sample_published_def sample_log_def)
      (simp add: sample_primary_def Trillian_Client_def)
qed

lemma sample_primary_AddLeaf:
  "Primary_AddLeaf (\<lambda>b. b) (\<lambda>r. Ok (sample_leaf CHR ''a'')) (sample_primary 10) (cth_SignedTreeHead (sample_published 2)) 0
     \<lparr>lr_Message = [], lr_Signature = [], lr_PublicKey = ''k''\<rparr> None ((), sample_log) = (((), sample_log), Ok True)"
proof -
  have "TrillianClient_AddLeaf concat_codec sample_client (sample_leaf CHR ''a'') 2 sample_log
      = (sample_log, Ok \<lparr>AlreadyExists = True, IsSequenced = True\<rparr>)"
    by (simp add: TrillianClient_AddLeaf_def TrillianClient_GetInclusionProof_def sample_client_def sample_log_def
        sample_trillian_def Let_def leaf_position_def nodePathFromHashes_def)
  then show ?thesis
    by (simp add: Primary_AddLeaf_def checked_domain_def sample_primary_def NoLimit_AccessAllowed_def Trillian_Client_def
        sample_published_def)
qed

section \<open>Properties\<close>

text \<open>
  C14: What \<open>get-leaves\<close> serves, with the Trillian backend.  A successful answer is a
  non-empty run of consecutive leaves of the log from \<open>StartIndex\<close> on, not longer than
  \<open>MaxRange\<close>, and it never reaches beyond the requested end or beyond the published
  (cosigned) tree, however many leaves the backend already has.
\<close>

theorem Primary_GetLeaves_published:
  assumes "trillian_ok (logClient c) (treeID c) cd ms v" and "tv_inv v s"
    and "DbClient p = Trillian_Client cd c"
    and "Primary_GetLeaves p cth req s = (s', Ok ls)"
  shows "ls \<noteq> [] \<and> length ls \<le> unat (MaxRange p)
    \<and> unat (StartIndex req) + length ls \<le> unat (EndIndex req)
    \<and> unat (StartIndex req) + length ls \<le> unat (cth_Size cth)
    \<and> ls = take (length ls) (drop (unat (StartIndex req)) (tv_leaves v s'))"
proof -
  have "trillian_inv c cd ms v s" using assms(1,2) by (simp add: trillian_inv_def)
  from tril.served_slice [OF this assms(3) assms(4) [unfolded Primary_GetLeaves_def]] show ?thesis
    by (auto simp: range_end_def)
qed

theorem Primary_GetLeaves_published_witness:
  "length [sample_leaf CHR ''a''] \<le> unat (MaxRange (sample_primary 10))"
  using Primary_GetLeaves_published [OF sample_client_ok _ sample_primary_GetLeaves] by (simp add: sample_primary_def)

text \<open>
  C16: Requests beyond the published tree are answered with status 400 and do not reach the
  backend: a consistency proof to a larger size, an inclusion proof in a larger tree, and leaves
  past the end (or an empty range).
\<close>

theorem Primary_beyond_tree_refused:
  "(cth_Size cth < NewSize creq \<longrightarrow>
      (\<exists>e. Primary_GetConsistencyProof p cth creq s = (s, Err (ApiError StatusBadRequest e))))
   \<and> (cth_Size cth < ir_Size ireq \<longrightarrow>
      (\<exists>e. Primary_GetInclusionProof p cth ireq s = (s, Err (ApiError StatusBadRequest e))))
   \<and> (cth_Size cth < EndIndex lreq \<or> EndIndex lreq \<le> StartIndex lreq \<longrightarrow>
      (\<exists>e. Primary_GetLeaves p cth lreq s = (s, Err (ApiError StatusBadRequest e))))"
  by (auto simp: Primary_GetConsistencyProof_def Primary_GetInclusionProof_def Primary_GetLeaves_def
      getLeavesGeneral_cases)

theorem Primary_beyond_tree_refused_witness:
  "\<exists>e. Primary_GetLeaves (sample_primary 10) (sample_published 1) \<lparr>StartIndex = 0, EndIndex = 2\<rparr> sample_log
     = (sample_log, Err (ApiError StatusBadRequest e))"
proof -
  have "cth_Size (sample_published 1) < EndIndex \<lparr>StartIndex = 0, EndIndex = 2\<rparr>"
    by (simp add: sample_published_def word_less_nat_alt)
  then show ?thesis
    using Primary_beyond_tree_refused [of "sample_published 1" "\<lparr>OldSize = 0, NewSize = 0\<rparr>" "sample_primary 10" sample_log
        "\<lparr>ir_Size = 0, ir_LeafHash = []\<rparr>"
        "\<lparr>StartIndex = 0, EndIndex = 2\<rparr>"] by simp
qed

text \<open>
  C13: When \<open>add-leaf\<close> answers that a leaf is in the log (HTTP 200), it is: its hash is
  among the leaves covered by the signed tree head, with the Trillian backend under the
  documented behaviour of the service.
\<close>

theorem Primary_AddLeaf_sound:
  assumes "trillian_ok (logClient c) (treeID c) cd ms v" and "tv_inv v s"
    and "DbClient p = Trillian_Client cd c" and "\<And>r l. rv r = Ok l \<Longrightarrow> leaf_wf l"
    and "Primary_AddLeaf H rv p sth now req t (l, s) = ((l', s'), Ok True)"
  shows "\<exists>leaf i. rv req = Ok leaf \<and> i < unat (sth_Size sth) \<and> i < length (tv_leaves v s')
    \<and> leaf_hash cd (tv_leaves v s' ! i) = leaf_hash cd leaf"
proof -
  have "trillian_inv c cd ms v s" using assms(1,2) by (simp add: trillian_inv_def)
  from tril.AddLeaf_sequenced_sound [OF this assms(3) assms(4,5)] show ?thesis .
qed

theorem Primary_AddLeaf_sound_witness:
  "\<exists>i < 2. i < length sample_log \<and> leaf_hash concat_codec (sample_log ! i) = leaf_hash concat_codec (sample_leaf CHR ''a'')"
  using Primary_AddLeaf_sound [OF sample_client_ok _ _ sample_primary_AddLeaf]
  by (auto simp: sample_primary_def sample_published_def)


definition sample_limited :: "(limiter, ticket, hash list MemoryDb) Primary" where
  "sample_limited = \<lparr>MaxRange = 10, DbClient = MemoryDb_Client concat_codec list_merkle, TokenVerifier = None,
     AccessAllowed = limiter_AccessAllowed Ok, call_relax = run_relax\<rparr>"






text \<open>
  The "empty range" error is not only for the internal endpoint.  With
  \<open>max-range = 0\<close> every well-formed external request inside the tree ends in the internal
  error, although the range is checked strictly.
\<close>

theorem getLeaves_empty_range_when_strict:
  assumes "MaxRange p = 0" and "StartIndex req < EndIndex req" and "EndIndex req \<le> cth_Size cth"
  shows "Primary_GetLeaves p cth req s = (s, Err (Errorf ''internal error, empty range''))"
  using assms by (auto simp: Primary_GetLeaves_def getLeavesGeneral_cases)

theorem getLeaves_empty_range_when_strict_witness:
  "snd (Primary_GetLeaves (sample_primary 0) (sample_published 1) \<lparr>StartIndex = 0, EndIndex = 1\<rparr> sample_log)
   = Err (Errorf ''internal error, empty range'')"
  using getLeaves_empty_range_when_strict [of "sample_primary 0" "\<lparr>StartIndex = 0, EndIndex = 1\<rparr>" "sample_published 1" sample_log]
  by (simp add: sample_primary_def sample_published_def)

end
