(* ===== verification/Secondary_Node.thy ===== *)
theory Secondary_Node
  imports Trillian_Client Memory_Db
begin

text \<open>
  The secondary (\<open>internal/node/secondary\<close>): it copies the leaves of the primary, in
  order, and reports its own tree head.  Its database state is \<open>'s\<close>; the primary is reached
  through an HTTP client, an operation on the state \<open>'w\<close> of everything else.  The copying
  loop may run as long as the primary has more leaves: a loop that does not end is \<open>None\<close>.
\<close>

section \<open>Operations\<close>

definition leavesBatchSize :: u64 where
  "leavesBatchSize = 100"

record ('s, 'w) Secondary =
  sec_DbClient :: "'s Client"
  sec_Sign :: "TreeHead \<Rightarrow> SignedTreeHead result" \<comment> \<open>\<open>th.Sign(s.Signer)\<close>\<close>
  sec_GetLeaves :: "LeavesRequest \<Rightarrow> 'w \<Rightarrow> 'w \<times> Leaf list result" \<comment> \<open>\<open>s.Primary.GetLeaves\<close>\<close>

definition GetSecondaryTreeHead :: "('s, 'w) Secondary \<Rightarrow> 's \<Rightarrow> 's \<times> SignedTreeHead result" where
  "GetSecondaryTreeHead sec s =
     (case db_GetTreeHead (sec_DbClient sec) s of
        (s', Err e) \<Rightarrow> (s', Err (Wrapf ''getting tree head'' e))
      | (s', Panic m) \<Rightarrow> (s', Panic m)
      | (s', Ok th) \<Rightarrow> (s', sec_Sign sec th))"

datatype fetch_step = FetchMore | FetchDone | FetchPanic string

definition fetch_round :: "('s, 'w) Secondary \<Rightarrow> 's \<times> 'w \<Rightarrow> ('s \<times> 'w) \<times> fetch_step" where
  \<comment> \<open>the body of the loop; all errors are logged and end the loop\<close>
  "fetch_round sec st =
     (case st of (s, w) \<Rightarrow>
     (case db_GetTreeHead (sec_DbClient sec) s of
        (s1, Err e) \<Rightarrow> ((s1, w), FetchDone)
      | (s1, Panic m) \<Rightarrow> ((s1, w), FetchPanic m)
      | (s1, Ok curTH) \<Rightarrow>
     (case sec_GetLeaves sec \<lparr>StartIndex = Size curTH, EndIndex = Size curTH + leavesBatchSize\<rparr> w of
        (w1, Err e) \<Rightarrow> ((s1, w1), FetchDone)
      | (w1, Panic m) \<Rightarrow> ((s1, w1), FetchPanic m)
      | (w1, Ok leaves) \<Rightarrow>
     (case db_AddSequencedLeaves (sec_DbClient sec) leaves (Size curTH) s1 of
        (s2, Err e) \<Rightarrow> ((s2, w1), FetchDone)
      | (s2, Panic m) \<Rightarrow> ((s2, w1), FetchPanic m)
      | (s2, Ok _) \<Rightarrow> ((s2, w1), FetchMore)))))"

partial_function (option) fetchLeavesFromPrimary ::
    "('s, 'w) Secondary \<Rightarrow> 's \<times> 'w \<Rightarrow> (('s \<times> 'w) \<times> unit result) option" where
  "fetchLeavesFromPrimary sec st =
     (case fetch_round sec st of
        (st', FetchMore) \<Rightarrow> fetchLeavesFromPrimary sec st'
      | (st', FetchDone) \<Rightarrow> Some (st', Ok ())
      | (st', FetchPanic m) \<Rightarrow> Some (st', Panic m))"

fun Secondary_Run :: "('s, 'w) Secondary \<Rightarrow> nat \<Rightarrow> 's \<times> 'w \<Rightarrow> (('s \<times> 'w) \<times> unit result) option" where
  \<comment> \<open>\<open>Run\<close> until the context is cancelled after the given number of ticks\<close>
  "Secondary_Run sec 0 st = Some (st, Ok ())"
| "Secondary_Run sec (Suc n) st =
     (case fetchLeavesFromPrimary sec st of
        None \<Rightarrow> None
      | Some (st', Panic m) \<Rightarrow> Some (st', Panic m)
      | Some (st', _) \<Rightarrow> Secondary_Run sec n st')"

lemma fetch_More: "fetch_round sec st = (st', FetchMore) \<Longrightarrow> fetchLeavesFromPrimary sec st = fetchLeavesFromPrimary sec st'"
  by (subst fetchLeavesFromPrimary.simps) simp

lemma fetch_Done: "fetch_round sec st = (st', FetchDone) \<Longrightarrow> fetchLeavesFromPrimary sec st = Some (st', Ok ())"
  by (subst fetchLeavesFromPrimary.simps) simp

lemma fetch_induct [consumes 1, case_names Done Panic More]:
  assumes "fetchLeavesFromPrimary sec st = Some (res, r)"
    and "\<And>st st'. fetch_round sec st = (st', FetchDone) \<Longrightarrow> P st st' (Ok ())"
    and "\<And>st st' m. fetch_round sec st = (st', FetchPanic m) \<Longrightarrow> P st st' (Panic m)"
    and "\<And>st st' res r. fetch_round sec st = (st', FetchMore) \<Longrightarrow> P st' res r \<Longrightarrow> P st res r"
  shows "P st res r"
proof -
  have "sec = sec \<longrightarrow> P st (fst (res, r)) (snd (res, r))"
  proof (rule fetchLeavesFromPrimary.raw_induct [of "\<lambda>sec' st x. sec' = sec \<longrightarrow> P st (fst x) (snd x)", OF _ assms(1)], intro impI)
    fix f sec' st x
    assume IH: "\<And>sec' st x. f sec' st = Some x \<Longrightarrow> sec' = sec \<longrightarrow> P st (fst x) (snd x)" and eq: "sec' = sec"
      and body: "(case fetch_round sec' st of (st', FetchMore) \<Rightarrow> f sec' st' | (st', FetchDone) \<Rightarrow> Some (st', Ok ())
        | (st', FetchPanic m) \<Rightarrow> Some (st', Panic m)) = Some x"
    obtain st1 k where k: "fetch_round sec st = (st1, k)" by fastforce
    show "P st (fst x) (snd x)"
    proof (cases k)
      case FetchMore
      then have "f sec st1 = Some x" using body k eq by simp
      then show ?thesis using IH assms(4) k FetchMore by metis
    next
      case FetchDone
      then show ?thesis using body k eq assms(2) [of st st1] by auto
    next
      case (FetchPanic m)
      then show ?thesis using body k eq assms(3) [of st st1 m] by auto
    qed
  qed
  then show ?thesis by simp
qed

section \<open>What the secondary relies on of the primary\<close>

definition serves_log ::
    "(LeavesRequest \<Rightarrow> 'w \<Rightarrow> 'w \<times> Leaf list result) \<Rightarrow> ('w \<Rightarrow> bool) \<Rightarrow> ('w \<Rightarrow> Leaf list) \<Rightarrow> bool" where
  \<comment> \<open>the primary only appends to its log, and what it serves are consecutive leaves of it\<close>
  "serves_log get pinv plog \<longleftrightarrow>
     (\<forall>req w w' r. pinv w \<longrightarrow> get req w = (w', r) \<longrightarrow> pinv w' \<and> prefix (plog w) (plog w') \<and> \<not> is_panic r)
   \<and> (\<forall>req w w' ls. pinv w \<longrightarrow> get req w = (w', Ok ls) \<longrightarrow> unat (StartIndex req) + length ls \<le> length (plog w')
        \<and> ls = take (length ls) (drop (unat (StartIndex req)) (plog w')))
   \<and> (\<forall>w. pinv w \<longrightarrow> list_all leaf_wf (plog w) \<and> length (plog w) < capacity)"

lemma serves_logD:
  assumes "serves_log get pinv plog" and "pinv w"
  shows "get req w = (w', r) \<Longrightarrow> pinv w' \<and> prefix (plog w) (plog w') \<and> \<not> is_panic r"
    and "get req w = (w', Ok ls) \<Longrightarrow> unat (StartIndex req) + length ls \<le> length (plog w')
        \<and> ls = take (length ls) (drop (unat (StartIndex req)) (plog w'))"
    and "list_all leaf_wf (plog w) \<and> length (plog w) < capacity"
  using assms unfolding serves_log_def by meson+

definition serves_all ::
    "(LeavesRequest \<Rightarrow> 'w \<Rightarrow> 'w \<times> Leaf list result) \<Rightarrow> 'w \<Rightarrow> Leaf list \<Rightarrow> bool" where
  \<comment> \<open>a primary at rest with the log \<open>P\<close>, which answers every request for leaves it has\<close>
  "serves_all get w P \<longleftrightarrow> (\<forall>req. StartIndex req < EndIndex req \<longrightarrow>
     (if unat (StartIndex req) < length P then \<exists>ls. get req w = (w, Ok ls) \<and> ls \<noteq> [] else \<exists>e. get req w = (w, Err e)))"

definition log_pairs :: "Leaf list \<Rightarrow> (nat \<times> Leaf) set" where
  "log_pairs P = {(i, P ! i) | i. i < length P}"

lemma log_pairs_prefix: "prefix P Q \<Longrightarrow> log_pairs P \<subseteq> log_pairs Q"
  by (auto simp: log_pairs_def prefix_def nth_append)

context replica_db
begin

lemma replica_prefix: "inv s \<Longrightarrow> acc s \<subseteq> log_pairs P \<Longrightarrow> prefix (lvs s) P"
  using acc_of_prefix [of s P] by (simp add: log_pairs_def)

lemma fetch_round_safe:
  assumes serve: "serves_log (sec_GetLeaves sec) pinv plog" and db: "sec_DbClient sec = db"
    and inv: "inv s" "acc s \<subseteq> log_pairs (plog w)" "pinv w"
    and round: "fetch_round sec (s, w) = ((s', w'), k)"
  shows "inv s' \<and> acc s' \<subseteq> log_pairs (plog w') \<and> pinv w' \<and> prefix (plog w) (plog w')
    \<and> prefix (lvs s) (lvs s') \<and> (\<forall>m. k \<noteq> FetchPanic m)"
proof -
  obtain s1 r1 where 1: "db_GetTreeHead db s = (s1, r1)" by fastforce
  have g1: "inv s1" "acc s1 \<subseteq> log_pairs (plog w)" "prefix (lvs s) (lvs s1)" "\<not> is_panic r1"
    using GetTreeHead_acc [OF inv(1) 1] GetTreeHead_grows [OF inv(1) 1] inv(2) by auto
  show ?thesis
  proof (cases r1)
    case (Ok th)
    let ?req = "\<lparr>StartIndex = Size th, EndIndex = Size th + leavesBatchSize\<rparr>"
    obtain w1 r2 where 2: "sec_GetLeaves sec ?req w = (w1, r2)" by fastforce
    have g2: "prefix (plog w) (plog w1)" "\<not> is_panic r2" "pinv w1" using serves_logD(1) [OF serve inv(3) 2] by auto
    have a1: "acc s1 \<subseteq> log_pairs (plog w1)" using g1(2) log_pairs_prefix [OF g2(1)] by blast
    show ?thesis
    proof (cases r2)
      case (Ok ls)
      have sl: "unat (Size th) + length ls \<le> length (plog w1)" "ls = take (length ls) (drop (unat (Size th)) (plog w1))"
        using serves_logD(2) [OF serve inv(3)] 2 Ok by fastforce+
      have wf: "list_all leaf_wf (plog w1)" "length (plog w1) < capacity" using serves_logD(3) [OF serve g2(3)] by auto
      have lw: "list_all leaf_wf ls"
        using sl(2) wf(1) by (metis (no_types, lifting) in_set_dropD in_set_takeD list.pred_set)
      have cap: "unat (Size th) + length ls < capacity" using sl(1) wf(2) by simp
      obtain s2 r3 where 3: "db_AddSequencedLeaves db ls (Size th) s1 = (s2, r3)" by fastforce
      then have aq: "db_AddSequencedLeaves db ls (of_nat (unat (Size th))) s1 = (s2, r3)" by simp
      have new: "{(unat (Size th) + j, ls ! j) | j. j < length ls} \<subseteq> log_pairs (plog w1)"
        using sl by (auto simp: log_pairs_def) (metis add_leD1 nth_drop nth_take)
      have "inv s2" "acc s2 \<subseteq> log_pairs (plog w1)"
        using AddSequencedLeaves_acc [OF g1(1) lw cap aq] order_trans [OF _ Un_least [OF a1 new]] by blast+
      moreover have "prefix (lvs s) (lvs s2)" "\<not> is_panic r3"
        using AddSequencedLeaves_grows [OF g1(1) lw cap aq] g1(3) prefix_order.trans by blast+
      moreover have "s' = s2" "w' = w1" "k = (case r3 of Ok _ \<Rightarrow> FetchMore | Err _ \<Rightarrow> FetchDone | Panic m \<Rightarrow> FetchPanic m)"
        using round 1 2 3 db \<open>r1 = Ok th\<close> Ok by (auto simp: fetch_round_def split: result.splits)
      ultimately show ?thesis using g2(1,3) by (auto split: result.splits)
    next
      case (Err e)
      then show ?thesis using round 1 2 db \<open>r1 = Ok th\<close> g1 g2 a1 by (auto simp: fetch_round_def)
    qed (use g2 in simp)
  next
    case (Err e)
    then show ?thesis using round 1 db g1 inv(3) by (auto simp: fetch_round_def)
  qed (use g1 in simp)
qed

lemma fetch_safe:
  assumes "fetchLeavesFromPrimary sec st = Some (st', r)" and "serves_log (sec_GetLeaves sec) pinv plog" and "sec_DbClient sec = db"
    and "inv (fst st)" and "acc (fst st) \<subseteq> log_pairs (plog (snd st))" and "pinv (snd st)"
  shows "inv (fst st') \<and> acc (fst st') \<subseteq> log_pairs (plog (snd st')) \<and> pinv (snd st') \<and> prefix (plog (snd st)) (plog (snd st'))
    \<and> prefix (lvs (fst st)) (lvs (fst st')) \<and> r = Ok ()"
  using assms
proof (induction rule: fetch_induct)
  case (Done st st')
  then show ?case using fetch_round_safe [of sec pinv plog "fst st" "snd st" "fst st'" "snd st'"] by simp
next
  case (Panic st st' m)
  then show ?case using fetch_round_safe [of sec pinv plog "fst st" "snd st" "fst st'" "snd st'"] by simp
next
  case (More st st1 st' r)
  have 1: "inv (fst st1) \<and> acc (fst st1) \<subseteq> log_pairs (plog (snd st1)) \<and> pinv (snd st1) \<and> prefix (plog (snd st)) (plog (snd st1))
      \<and> prefix (lvs (fst st)) (lvs (fst st1))"
    using More fetch_round_safe [of sec pinv plog "fst st" "snd st" "fst st1" "snd st1"] by simp
  with More show ?case using prefix_order.trans by (metis (no_types, lifting))
qed

lemma Secondary_Run_safe:
  assumes "Secondary_Run sec n st = Some (st', r)" and "serves_log (sec_GetLeaves sec) pinv plog" and "sec_DbClient sec = db"
    and "inv (fst st)" and "acc (fst st) \<subseteq> log_pairs (plog (snd st))" and "pinv (snd st)"
  shows "inv (fst st') \<and> acc (fst st') \<subseteq> log_pairs (plog (snd st')) \<and> pinv (snd st') \<and> prefix (plog (snd st)) (plog (snd st'))
    \<and> prefix (lvs (fst st)) (lvs (fst st')) \<and> r = Ok ()"
  using assms
proof (induction n arbitrary: st)
  case (Suc n)
  then obtain st1 r1 where 1: "fetchLeavesFromPrimary sec st = Some (st1, r1)" by (auto split: option.splits)
  note safe = fetch_safe [OF 1 Suc.prems(2-6)]
  then have "Secondary_Run sec n st1 = Some (st', r)" using Suc.prems(1) 1 by simp
  from Suc.IH [OF this Suc.prems(2,3)] safe show ?case using prefix_order.trans by blast
qed simp

end

context integrating_db
begin

text \<open>
  One round of copying from a primary at rest: the secondary has everything and the loop ends, or the secondary's tree
  gets longer or its lag shorter.
\<close>

lemma fetch_round_progress:
  assumes serve: "serves_log (sec_GetLeaves sec) pinv plog" and all: "serves_all (sec_GetLeaves sec) w (plog w)"
    and db: "sec_DbClient sec = db" and w: "pinv w" "distinct (map (leaf_hash cd) (plog w))"
    and inv: "inv s" "acc s \<subseteq> log_pairs (plog w)"
  obtains (finished) s1 where "fetch_round sec (s, w) = ((s1, w), FetchDone)" "inv s1" "acc s1 \<subseteq> log_pairs (plog w)" "lvs s1 = plog w"
  | (progress) s2 where "fetch_round sec (s, w) = ((s2, w), FetchMore)" "inv s2" "acc s2 \<subseteq> log_pairs (plog w)"
      "prefix (lvs s) (lvs s2)" "length (lvs s) < length (lvs s2) \<or> lag s2 < lag s"
proof -
  obtain s1 th where th: "db_GetTreeHead db s = (s1, Ok th)" "unat (Size th) = length (lvs s1)"
    using GetTreeHead_current [OF inv(1)] by blast
  have s1: "inv s1" "acc s1 \<subseteq> log_pairs (plog w)" using GetTreeHead_acc [OF inv(1) th(1)] inv(2) by auto
  have pre: "prefix (lvs s1) (plog w)" using replica_prefix [OF s1] .
  have cap: "length (plog w) < capacity" "list_all leaf_wf (plog w)" using serves_logD(3) [OF serve w(1)] by auto
  let ?req = "\<lparr>StartIndex = Size th, EndIndex = Size th + leavesBatchSize\<rparr>"
  have "unat (Size th) + 100 < 2 ^ 64" using th(2) cap(1) prefix_length_le [OF pre] by (simp add: capacity_def)
  then have req: "StartIndex ?req < EndIndex ?req"
    by (simp add: word_less_nat_alt leavesBatchSize_def unat_word_ariths(1))
  have ans: "if length (lvs s1) < length (plog w) then \<exists>ls. sec_GetLeaves sec ?req w = (w, Ok ls) \<and> ls \<noteq> []
      else \<exists>e. sec_GetLeaves sec ?req w = (w, Err e)"
    using all [unfolded serves_all_def, rule_format, OF req] th(2) by simp
  show ?thesis
  proof (cases "length (lvs s1) < length (plog w)")
    case False
    then have eq: "lvs s1 = plog w" using pre by (metis linorder_not_le prefix_length_le prefix_length_prefix prefix_order.eq_iff)
    obtain e where "sec_GetLeaves sec ?req w = (w, Err e)" using ans False by auto
    then have "fetch_round sec (s, w) = ((s1, w), FetchDone)" using th db by (simp add: fetch_round_def)
    then show ?thesis using finished s1 eq by blast
  next
    case True
    obtain ls where ls: "sec_GetLeaves sec ?req w = (w, Ok ls)" "ls \<noteq> []" using ans True by auto
    have sl: "length (lvs s1) + length ls \<le> length (plog w)" "ls = take (length ls) (drop (length (lvs s1)) (plog w))"
      using serves_logD(2) [OF serve w(1) ls(1)] th(2) by auto
    have app: "lvs s1 @ ls = take (length (lvs s1) + length ls) (plog w)"
      using pre sl(2) by (metis append_eq_conv_conj prefix_def take_add)
    have "list_all leaf_wf ls" using sl(2) cap(2) by (metis in_set_dropD in_set_takeD list.pred_set)
    moreover have "distinct (map (leaf_hash cd) (lvs s1 @ ls))" unfolding app using w(2) by (metis distinct_take take_map)
    moreover have "length (lvs s1 @ ls) < capacity" using sl(1) cap(1) by simp
    ultimately obtain s2 where s2: "db_AddSequencedLeaves db ls (of_nat (length (lvs s1))) s1 = (s2, Ok ())"
        "prefix (lvs s) (lvs s2)" "length (lvs s) < length (lvs s2) \<or> lag s2 < lag s"
      using submission_progress [OF inv(1) th(1)] ls(2) by blast
    have "of_nat (length (lvs s1)) = Size th" using th(2) by (metis of_nat_unat ucast_id)
    then have round: "fetch_round sec (s, w) = ((s2, w), FetchMore)"
      using th db ls s2(1) by (simp add: fetch_round_def)
    then show ?thesis using progress s2 fetch_round_safe [OF serve db inv w(1) round] by blast
  qed
qed

lemma fetch_completes:
  assumes "serves_log (sec_GetLeaves sec) pinv plog" and "serves_all (sec_GetLeaves sec) w (plog w)"
    and "sec_DbClient sec = db" and "pinv w" and "distinct (map (leaf_hash cd) (plog w))"
    and "inv s" and "acc s \<subseteq> log_pairs (plog w)"
  shows "\<exists>s'. fetchLeavesFromPrimary sec (s, w) = Some ((s', w), Ok ()) \<and> lvs s' = plog w \<and> inv s'
    \<and> acc s' \<subseteq> log_pairs (plog w)"
  using assms(6,7)
proof (induction s rule: wf_induct [OF wf_measures [of "[\<lambda>s. length (plog w) - length (lvs s), lag]"]])
  case (1 s)
  from assms(1-5) 1(2,3) show ?case
  proof (cases rule: fetch_round_progress)
    case (finished s1)
    then show ?thesis using fetch_Done by blast
  next
    case (progress s2)
    have "length (lvs s2) \<le> length (plog w)" using prefix_length_le [OF replica_prefix [OF progress(2,3)]] .
    then have "(s2, s) \<in> measures [\<lambda>s. length (plog w) - length (lvs s), lag]"
      using progress(5) prefix_length_le [OF progress(4)] by auto
    then show ?thesis using 1(1) progress(2,3) fetch_More [OF progress(1)] by metis
  qed
qed

end

end
