(* ===== verification/Log_System.thy ===== *)
theory Log_System
  imports Primary_Node Secondary_Node State_Manager Witness
begin

text \<open>
  Primary, secondary and state manager together.  The contract of the world in which the state
  manager rotates tree heads is the locale \<open>replicated_world\<close>; it is interpreted for a
  primary and a secondary on Trillian backends, with client requests and copying rounds
  interleaved at every call.
\<close>

section \<open>What the primary serves to the secondary\<close>

context db_contract
begin

lemma internal_serves_log:
  assumes "DbClient p = db"
    and head: "\<And>s s' r. inv s \<Longrightarrow> db_GetTreeHead db s = (s', r) \<Longrightarrow> inv s'"
    and leaves: "\<And>req s s' r. inv s \<Longrightarrow> db_GetLeaves db req s = (s', r) \<Longrightarrow> inv s'"
  shows "serves_log (GetLeavesInternal p) inv lvs"
proof -
  have general: "inv s' \<and> prefix (lvs s) (lvs s') \<and> \<not> is_panic r"
    if "inv s" "getLeavesGeneral p req m strict s = (s', r)" for req m strict s s' r
  proof -
    obtain s1 r1 where g: "db_GetLeaves db (req\<lparr>EndIndex := of_nat (range_end p req m)\<rparr>) s = (s1, r1)" by fastforce
    have "(s' = s \<or> s' = s1) \<and> \<not> is_panic r"
      using that(2) assms(1) g GetLeaves_grows [OF that(1) g] unfolding getLeavesGeneral_cases
      by (cases r1) (auto split: if_splits)
    then show ?thesis using that(1) leaves [OF that(1) g] GetLeaves_grows [OF that(1) g] by auto
  qed
  have internal: "(\<exists>s1 th. db_GetTreeHead db s = (s1, Ok th) \<and> getLeavesGeneral p req (Size th) False s1 = (s', r))
      \<or> (\<exists>e. db_GetTreeHead db s = (s', Err e) \<and> (\<exists>e'. r = Err e'))"
    if "inv s" "GetLeavesInternal p req s = (s', r)" for req s s' r
    using that assms(1) GetTreeHead_grows [OF that(1)]
    by (auto simp: GetLeavesInternal_def split: prod.splits result.splits)
  have 1: "inv s' \<and> prefix (lvs s) (lvs s') \<and> \<not> is_panic r"
    if "inv s" "GetLeavesInternal p req s = (s', r)" for req s s' r
    using internal [OF that] general GetTreeHead_grows [OF that(1)] head [OF that(1)] prefix_order.trans
    by (metis is_panic.simps(3))
  have 2: "unat (StartIndex req) + length ls \<le> length (lvs s') \<and> ls = take (length ls) (drop (unat (StartIndex req)) (lvs s'))"
    if s: "inv s" "GetLeavesInternal p req s = (s', Ok ls)" for req s s' ls
  proof -
    obtain s1 th where "db_GetTreeHead db s = (s1, Ok th)" "getLeavesGeneral p req (Size th) False s1 = (s', Ok ls)"
      using internal [OF s] by auto
    then show ?thesis using served_slice [OF head [OF s(1)] assms(1)] by auto
  qed
  show ?thesis
    unfolding serves_log_def using 1 2 inv_leaves by blast
qed

text \<open>A primary whose backend is at rest and answers serves every leaf it has.\<close>

lemma internal_serves_all:
  assumes p: "DbClient p = db" "MaxRange p \<noteq> 0"
    and th: "db_GetTreeHead db w = (w, Ok th)" "unat (Size th) = length (lvs w)"
    and leaves: "\<And>req. StartIndex req < EndIndex req \<Longrightarrow> unat (EndIndex req) \<le> length (lvs w) \<Longrightarrow>
      db_GetLeaves db req w = (w, Ok (leaf_slice (lvs w) (StartIndex req) (EndIndex req)))"
  shows "serves_all (GetLeavesInternal p) w (lvs w)"
  unfolding serves_all_def
proof (intro allI impI)
  fix req :: LeavesRequest
  assume req: "StartIndex req < EndIndex req"
  have "\<exists>ls. GetLeavesInternal p req w = (w, Ok ls) \<and> ls \<noteq> []" if start: "StartIndex req < Size th"
  proof -
    let ?e = "range_end p req (Size th)"
    have pos: "0 < unat (MaxRange p)" using p(2) by (simp add: unat_gt_0)
    have e: "unat (StartIndex req) < ?e" "?e \<le> length (lvs w)"
      using req start pos th(2) by (auto simp: range_end_def word_less_nat_alt)
    have u: "unat (of_nat ?e :: u64) = ?e"
      using e(2) th(2) by (intro unat_of_nat_word) (metis order_le_less_trans unat_less_word)
    have "db_GetLeaves db (req\<lparr>EndIndex := of_nat ?e\<rparr>) w = (w, Ok (leaf_slice (lvs w) (StartIndex req) (of_nat ?e)))"
      using leaves [of "req\<lparr>EndIndex := of_nat ?e\<rparr>"] e u by (simp add: word_less_nat_alt)
    moreover have "leaf_slice (lvs w) (StartIndex req) (of_nat ?e) \<noteq> []"
      using length_leaf_slice [of "of_nat ?e" "lvs w" "StartIndex req"] e u by force
    ultimately show ?thesis
      using p th(1) req start by (auto simp: GetLeavesInternal_def getLeavesGeneral_cases)
  qed
  then show "if unat (StartIndex req) < length (lvs w) then \<exists>ls. GetLeavesInternal p req w = (w, Ok ls) \<and> ls \<noteq> []
      else \<exists>e. GetLeavesInternal p req w = (w, Err e)"
    using th p req
    by (auto simp: GetLeavesInternal_def getLeavesGeneral_cases word_less_nat_alt word_unat_eq_iff)
qed

end

section \<open>The world of the state manager\<close>

locale replicated_world =
  fixes rs :: "'w ReplicationState"
    and I :: "'w \<Rightarrow> bool"
    and plvs slvs :: "'w \<Rightarrow> Leaf list" \<comment> \<open>the leaves of primary and secondary\<close>
    and cd :: leaf_codec
    and ms :: merkle_spec
  assumes has_secondary: "rs_secondary rs \<noteq> None"
    and replica: "I w \<Longrightarrow> prefix (slvs w) (plvs w)"
    and primary_head: "I w \<Longrightarrow> pt_GetTreeHead (rs_primary rs) w = (w', rT) \<Longrightarrow>
      I w' \<and> prefix (plvs w) (plvs w') \<and> prefix (slvs w) (slvs w') \<and> (\<forall>th. rT = Ok th \<longrightarrow> is_head_of ms cd (plvs w') th)"
    and primary_proof: "I w \<Longrightarrow> pt_GetConsistencyProof (rs_primary rs) req w = (w', rC) \<Longrightarrow>
      I w' \<and> prefix (plvs w) (plvs w') \<and> prefix (slvs w) (slvs w')"
    and secondary_head: "I w \<Longrightarrow> rs_secondary rs = Some sec \<Longrightarrow> sec w = (w', rS) \<Longrightarrow>
      I w' \<and> prefix (plvs w) (plvs w') \<and> prefix (slvs w) (slvs w')
      \<and> (\<forall>sth. rS = Ok sth \<longrightarrow> is_head_of ms cd (slvs w') (sth_TreeHead sth))"
begin

definition replicated :: "'w \<Rightarrow> TreeHead \<Rightarrow> bool" where
  "replicated w th \<longleftrightarrow> is_head_of ms cd (slvs w) th"

definition grows :: "'w \<Rightarrow> 'w \<Rightarrow> bool" where
  "grows w w' \<longleftrightarrow> I w' \<and> prefix (plvs w) (plvs w') \<and> prefix (slvs w) (slvs w')"

lemma grows_trans: "grows w w1 \<Longrightarrow> grows w1 w2 \<Longrightarrow> grows w w2"
  by (auto simp: grows_def)

lemma replicated_grows: "replicated w th \<Longrightarrow> grows w w' \<Longrightarrow> replicated w' th"
  using is_head_of_prefix by (auto simp: replicated_def grows_def)

lemma calls_grow:
  assumes "I w"
  shows "pt_GetTreeHead (rs_primary rs) w = (w', rT) \<Longrightarrow> grows w w'"
    and "pt_GetConsistencyProof (rs_primary rs) req w = (w', rC) \<Longrightarrow> grows w w'"
    and "rs_secondary rs = Some sec \<Longrightarrow> sec w = (w', rS) \<Longrightarrow> grows w w'"
  using primary_head [OF assms] primary_proof [OF assms] secondary_head [OF assms] unfolding grows_def by blast+

lemma ReplicatedTreeHead_grows:
  assumes "I w" and "ReplicatedTreeHead sp pv rs n w = (w', r)"
  shows "grows w w'"
proof -
  obtain w1 r1 where 1: "pt_GetTreeHead (rs_primary rs) w = (w1, r1)" by fastforce
  have g1: "grows w w1" "I w1" using calls_grow(1) [OF assms(1) 1] by (auto simp: grows_def)
  obtain sec where sec: "rs_secondary rs = Some sec" using has_secondary by auto
  obtain w2 r2 where 2: "sec w1 = (w2, r2)" by fastforce
  have g2: "grows w w2" "I w2" using calls_grow(3) [OF g1(2) sec 2] grows_trans [OF g1(1)] by (auto simp: grows_def)
  have 3: "grows w (fst (checkConsistency pv rs a b w2))" for a b
  proof -
    obtain w3 r3 where "pt_GetConsistencyProof (rs_primary rs) \<lparr>OldSize = Size a, NewSize = Size b\<rparr> w2 = (w3, r3)" by fastforce
    then show ?thesis
      using calls_grow(2) [OF g2(2)] grows_trans [OF g2(1)] g2(1)
      by (cases r3) (auto simp: checkConsistency_def split: option.splits)
  qed
  have p: "fst (getPrimaryTreeHead rs n w) = w1" using 1 by (cases r1) (auto simp: getPrimaryTreeHead_def)
  have s: "fst (getSecondaryTreeHead sp rs sec n m w1) = w2" for m
    using 2 by (cases r2) (auto simp: getSecondaryTreeHead_def)
  have "w' = w1 \<or> w' = w2 \<or> (\<exists>a b. w' = fst (checkConsistency pv rs a b w2))"
  proof (cases "snd (getPrimaryTreeHead rs n w)")
    case (Ok th)
    then have P: "getPrimaryTreeHead rs n w = (w1, Ok th)" using p by (metis prod.collapse)
    obtain r2' where S: "getSecondaryTreeHead sp rs sec n (Size th) w1 = (w2, r2')" using s [of "Size th"] by (metis prod.collapse)
    show ?thesis
    proof (cases r2')
      case (Ok a)
      obtain w3 r3 where C: "checkConsistency pv rs a th w2 = (w3, r3)" by fastforce
      then have "w' = w1 \<or> w' = w3"
        using assms(2) P S sec Ok by (cases r3) (auto simp: ReplicatedTreeHead_def split: if_splits)
      then show ?thesis using C by (metis fst_conv)
    qed (use assms(2) P S sec in \<open>auto simp: ReplicatedTreeHead_def split: if_splits\<close>)
  next
    case (Err e)
    then have "getPrimaryTreeHead rs n w = (w1, Err e)" using p by (metis prod.collapse)
    then show ?thesis using assms(2) by (simp add: ReplicatedTreeHead_def)
  next
    case (Panic m)
    then have "getPrimaryTreeHead rs n w = (w1, Panic m)" using p by (metis prod.collapse)
    then show ?thesis using assms(2) by (simp add: ReplicatedTreeHead_def)
  qed
  then show ?thesis using g1(1) g2(1) 3 by auto
qed

lemma next_tree_head_replicated:
  assumes "I w" and "sm_replicationState sm = rs" and "replicated w (sth_TreeHead (sm_signedTreeHead sm))"
    and "next_tree_head sp pv sm w = (w', Ok th)"
  shows "grows w w' \<and> replicated w' th"
proof -
  let ?cur = "sth_TreeHead (sm_signedTreeHead sm)"
  obtain r where r: "ReplicatedTreeHead sp pv rs (Size ?cur) w = (w', r)"
    and th: "r = Ok th \<or> (\<exists>e. r = Err e) \<and> th = ?cur"
    using assms(2,4) by (auto simp: next_tree_head_def SignedTreeHead_of_def Let_def split: prod.splits result.splits)
  have g: "grows w w'" using ReplicatedTreeHead_grows [OF assms(1) r] .
  then have cur: "replicated w' ?cur" using replicated_grows [OF assms(3)] by blast
  have "replicated w' th" if ok: "r = Ok th"
    using r unfolding ok
  proof (cases rule: ReplicatedTreeHead_OkE)
    case primary
    have "is_head_of ms cd (plvs w') th" using primary_head [OF assms(1) primary(1)] by blast
    moreover have "is_head_of ms cd (plvs w') ?cur"
      using cur replica g is_head_of_prefix by (auto simp: replicated_def grows_def)
    moreover have "Size th = Size ?cur" using has_secondary primary(3) by auto
    ultimately have "th = ?cur" using is_head_of_unique [of ms cd "plvs w'" th ?cur] by simp
    then show ?thesis using cur by simp
  next
    case (secondary sec w1 w2 p sth pf)
    have "I w1" using calls_grow(1) [OF assms(1) secondary(1)] by (simp add: grows_def)
    then have h: "I w2" "is_head_of ms cd (slvs w2) th" using secondary_head secondary(3,4,6) by blast+
    then show ?thesis
      using replicated_grows calls_grow(2) [OF h(1) secondary(9)] unfolding replicated_def by blast
  qed
  then show ?thesis using th g cur by auto
qed

definition env_steady :: "'w round_env \<Rightarrow> bool" where
  \<comment> \<open>signing keeps the tree head, and collecting cosignatures leaves the logs growing\<close>
  "env_steady env \<longleftrightarrow> (\<forall>th sth. re_sign env th = Ok sth \<longrightarrow> sth_TreeHead sth = th)
     \<and> (\<forall>sth w. I w \<longrightarrow> grows w (fst (re_getCosignatures env sth w)))"

definition published :: "'w StateManagerSingle \<Rightarrow> 'w \<Rightarrow> bool" where
  "published sm w \<longleftrightarrow> sm_replicationState sm = rs \<and> I w
     \<and> replicated w (sth_TreeHead (sm_signedTreeHead sm))
     \<and> replicated w (sth_TreeHead (cth_SignedTreeHead (sm_cosignedTreeHead sm)))"

lemma run_round_published:
  assumes "env_steady env" and "published sm w" and "run_round sp pv env (sm, fs, w) = Ok (sm', fs', w')"
  shows "published sm' w' \<and> grows w w'"
proof -
  have pre: "sm_replicationState sm = rs" "I w" "replicated w (sth_TreeHead (sm_signedTreeHead sm))"
      "replicated w (sth_TreeHead (cth_SignedTreeHead (sm_cosignedTreeHead sm)))"
    using assms(2) by (auto simp: published_def)
  obtain w1 th where th: "next_tree_head sp pv sm w = (w1, Ok th)"
    using assms(3) by (auto simp: run_round_def split: prod.splits result.splits)
  have n: "grows w w1" "replicated w1 th" "I w1"
    using next_tree_head_replicated [OF pre(2,1,3) th] by (auto simp: grows_def)
  obtain sm1 fs1 r where sg: "signTreeHead sp (re_safefile env) (re_sign env) th sm fs = (sm1, fs1, r)" by (metis prod_cases3)
  have sm1: "(sm1 = sm \<and> (\<forall>sth. r \<noteq> Ok sth)) \<or>
      (\<exists>sth. r = Ok sth \<and> sm1 = sm\<lparr>sm_signedTreeHead := sth\<rparr> \<and> sth_TreeHead sth = th)"
  proof (cases "re_sign env th")
    case (Ok sth)
    then have th_sth: "sth_TreeHead sth = th" using assms(1) by (simp add: env_steady_def)
    obtain fs2 rf where st: "sthFile_Store sp (re_safefile env) (sm_sthFile sm) sth fs = (fs2, rf)" by fastforce
    then consider "sm1 = sm" "\<forall>x. r \<noteq> Ok x" | "r = Ok sth" "sm1 = sm\<lparr>sm_signedTreeHead := sth\<rparr>"
      using sg unfolding signTreeHead_def Ok by (cases rf) (auto split: if_splits)
    then show ?thesis using th_sth by cases auto
  qed (use sg in \<open>auto simp: signTreeHead_def\<close>)
  show ?thesis
  proof (cases "\<exists>sth. r = Ok sth")
    case False
    then have "sm' = sm" "w' = w1"
      using assms(3) th rotate_after_sign [OF sg] sm1 by (auto simp: run_round_def split: result.splits)
    then show ?thesis using pre n replicated_grows by (auto simp: published_def)
  next
    case True
    then obtain sth where sth: "r = Ok sth" "sm1 = sm\<lparr>sm_signedTreeHead := sth\<rparr>" "sth_TreeHead sth = th" using sm1 by auto
    have w': "w' = fst (re_getCosignatures env sth w1)"
      and sm': "sm' = sm1\<lparr>sm_cosignedTreeHead := \<lparr>cth_SignedTreeHead = sth, cth_Cosignatures = snd (re_getCosignatures env sth w1)\<rparr>\<rparr>"
      using assms(3) th rotate_after_sign [OF sg] sth(1) by (auto simp: run_round_def)
    have g: "grows w1 w'" using assms(1) n(3) w' by (simp add: env_steady_def)
    then show ?thesis
      using sm' sth pre n grows_trans [OF n(1) g] replicated_grows [OF n(2) g] by (simp add: published_def grows_def)
  qed
qed

lemma Run_published:
  assumes "list_all env_steady envs" and "published sm w" and "Run sp pv envs (sm, fs, w) = Ok (sm', fs', w')"
  shows "published sm' w' \<and> grows w w'"
  using assms
proof (induction envs arbitrary: sm fs w)
  case Nil
  then show ?case by (auto simp: published_def grows_def)
next
  case (Cons env envs)
  then obtain sm1 fs1 w1 where 1: "run_round sp pv env (sm, fs, w) = Ok (sm1, fs1, w1)"
      "Run sp pv envs (sm1, fs1, w1) = Ok (sm', fs', w')"
    by (auto simp: outcome_simps)
  have "published sm1 w1 \<and> grows w w1" using run_round_published 1(1) Cons.prems by auto
  then show ?case using Cons.IH [OF _ _ 1(2)] Cons.prems(1) grows_trans by auto
qed

end

section \<open>Primary and secondary on Trillian\<close>

text \<open>
  The two nodes run concurrently with the state manager.  The schedule of the world holds, for each
  call that the state manager makes, what happened on the nodes before it: requests that reach the primary's
  backend, and rounds of the copying loop of the secondary.
\<close>

datatype action = ClientCall db_call | CopyRound

record ('p, 's) world =
  w_primary :: 'p
  w_secondary :: 's
  w_schedule :: "action list list"

fun do_action :: "'p Client \<Rightarrow> ('s, 'p) Secondary \<Rightarrow> action \<Rightarrow> 'p \<times> 's \<Rightarrow> 'p \<times> 's" where
  "do_action db sec (ClientCall c) (p, s) = (exec_call db c p, s)"
| "do_action db sec CopyRound (p, s) = prod.swap (fst (fetch_round sec (s, p)))"

definition advance :: "'p Client \<Rightarrow> ('s, 'p) Secondary \<Rightarrow> ('p, 's) world \<Rightarrow> ('p, 's) world" where
  "advance db sec w = (case w_schedule w of
      [] \<Rightarrow> w
    | seg # rest \<Rightarrow> (case fold (do_action db sec) seg (w_primary w, w_secondary w) of
        (p, s) \<Rightarrow> \<lparr>w_primary = p, w_secondary = s, w_schedule = rest\<rparr>))"

definition on_primary :: "('p \<Rightarrow> 'p \<times> 'a) \<Rightarrow> ('p, 's) world \<Rightarrow> ('p, 's) world \<times> 'a" where
  "on_primary f w = (case f (w_primary w) of (p, r) \<Rightarrow> (w\<lparr>w_primary := p\<rparr>, r))"

definition on_secondary :: "('s \<Rightarrow> 's \<times> 'a) \<Rightarrow> ('p, 's) world \<Rightarrow> ('p, 's) world \<times> 'a" where
  "on_secondary f w = (case f (w_secondary w) of (s, r) \<Rightarrow> (w\<lparr>w_secondary := s\<rparr>, r))"

definition system_replication :: "'p Client \<Rightarrow> ('s, 'p) Secondary \<Rightarrow> pubkey \<Rightarrow> ('p, 's) world ReplicationState" where
  \<comment> \<open>the primary asks its own database, and the secondary's internal endpoint\<close>
  "system_replication db sec pub = \<lparr>
     rs_primary = \<lparr>pt_GetTreeHead = \<lambda>w. on_primary (db_GetTreeHead db) (advance db sec w),
                   pt_GetConsistencyProof = \<lambda>req w. on_primary (db_GetConsistencyProof db req) (advance db sec w)\<rparr>,
     rs_secondaryPub = pub,
     rs_secondary = Some (\<lambda>w. on_secondary (GetSecondaryTreeHead sec) (advance db sec w))\<rparr>"

fun action_wf :: "action \<Rightarrow> bool" where
  "action_wf (ClientCall c) \<longleftrightarrow> call_wf c"
| "action_wf CopyRound \<longleftrightarrow> True"

record ('p, 's) log_setup =
  ls_primary :: "'p TrillianClient"
  ls_secondary :: "'s TrillianClient"
  ls_pview :: "'p trillian_view"
  ls_sview :: "'s trillian_view"
  ls_node :: "(unit, unit, 'p) Primary"
  ls_sign :: "TreeHead \<Rightarrow> SignedTreeHead result"

abbreviation ls_db :: "leaf_codec \<Rightarrow> ('p, 's) log_setup \<Rightarrow> 'p Client" where
  "ls_db cd S \<equiv> Trillian_Client cd (ls_primary S)"

definition ls_sec :: "leaf_codec \<Rightarrow> ('p, 's) log_setup \<Rightarrow> ('s, 'p) Secondary" where
  "ls_sec cd S = \<lparr>sec_DbClient = Trillian_Client cd (ls_secondary S), sec_Sign = ls_sign S,
     sec_GetLeaves = GetLeavesInternal (ls_node S)\<rparr>"

definition nodes_inv :: "leaf_codec \<Rightarrow> merkle_spec \<Rightarrow> ('p, 's) log_setup \<Rightarrow> 'p \<times> 's \<Rightarrow> bool" where
  \<comment> \<open>the secondary has only been given leaves of the primary's log, at their own index\<close>
  "nodes_inv cd ms S ps \<longleftrightarrow> (case ps of (p, s) \<Rightarrow>
       DbClient (ls_node S) = ls_db cd S
     \<and> (\<forall>th sth. ls_sign S th = Ok sth \<longrightarrow> sth_TreeHead sth = th)
     \<and> trillian_inv (ls_primary S) cd ms (ls_pview S) p \<and> trillian_inv (ls_secondary S) cd ms (ls_sview S) s
     \<and> tv_acc (ls_sview S) s \<subseteq> log_pairs (tv_leaves (ls_pview S) p))"

definition nodes_grow :: "('p, 's) log_setup \<Rightarrow> 'p \<times> 's \<Rightarrow> 'p \<times> 's \<Rightarrow> bool" where
  "nodes_grow S a b \<longleftrightarrow> prefix (tv_leaves (ls_pview S) (fst a)) (tv_leaves (ls_pview S) (fst b))
     \<and> prefix (tv_leaves (ls_sview S) (snd a)) (tv_leaves (ls_sview S) (snd b))"

definition system_inv :: "leaf_codec \<Rightarrow> merkle_spec \<Rightarrow> ('p, 's) log_setup \<Rightarrow> ('p, 's) world \<Rightarrow> bool" where
  "system_inv cd ms S w \<longleftrightarrow> nodes_inv cd ms S (w_primary w, w_secondary w) \<and> list_all (list_all action_wf) (w_schedule w)"

lemma trillian_exec_closed:
  assumes inv: "trillian_inv c cd ms v s" and wf: "call_wf k"
  shows "trillian_inv c cd ms v (exec_call (Trillian_Client cd c) k s)
    \<and> prefix (tv_leaves v s) (tv_leaves v (exec_call (Trillian_Client cd c) k s))"
proof -
  have "view_grows v s (exec_call (Trillian_Client cd c) k s)"
  proof (cases k)
    case (CallAddLeaf l n)
    then show ?thesis using trillian_AddLeaf(1) [OF inv _ surjective_pairing] wf by (simp add: Trillian_Client_def)
  next
    case (CallAddSequencedLeaves ls i)
    then show ?thesis
      using trillian_add_sequenced_retry [OF inv _ _ surjective_pairing, of ls "unat i" 1] wf
      by (simp add: Trillian_Client_def TrillianClient_AddSequencedLeaves_def)
  next
    case CallGetTreeHead
    then show ?thesis using trillian_GetTreeHead(1) [OF inv surjective_pairing] by (simp add: Trillian_Client_def)
  next
    case (CallGetConsistencyProof req)
    then show ?thesis using trillian_GetConsistencyProof(1) [OF inv surjective_pairing] by (simp add: Trillian_Client_def)
  next
    case (CallGetInclusionProof req)
    then show ?thesis using trillian_GetInclusionProof(1) [OF inv surjective_pairing] by (simp add: Trillian_Client_def)
  next
    case (CallGetLeaves req)
    then show ?thesis using trillian_GetLeaves(1) [OF inv surjective_pairing] by (simp add: Trillian_Client_def)
  qed
  then show ?thesis using trillian_inv_grows [OF inv] by (simp add: view_grows_def)
qed

lemma trillian_serves_log:
  assumes "DbClient p = Trillian_Client cd c"
  shows "serves_log (GetLeavesInternal p) (trillian_inv c cd ms v) (tv_leaves v)"
proof (rule tril.internal_serves_log [OF assms])
  fix s s' r
  assume "trillian_inv c cd ms v s" "db_GetTreeHead (Trillian_Client cd c) s = (s', r)"
  then show "trillian_inv c cd ms v s'"
    using trillian_GetTreeHead(1) trillian_inv_grows by (fastforce simp: Trillian_Client_def)
next
  fix req s s' r
  assume "trillian_inv c cd ms v s" "db_GetLeaves (Trillian_Client cd c) req s = (s', r)"
  then show "trillian_inv c cd ms v s'"
    using trillian_GetLeaves(1) trillian_inv_grows by (fastforce simp: Trillian_Client_def)
qed

lemma do_action_safe:
  assumes "nodes_inv cd ms S ps" and "action_wf a"
  shows "nodes_inv cd ms S (do_action (ls_db cd S) (ls_sec cd S) a ps)
    \<and> nodes_grow S ps (do_action (ls_db cd S) (ls_sec cd S) a ps)"
proof (cases ps)
  case (Pair p s)
  show ?thesis
  proof (cases a)
    case (ClientCall c)
    then have "trillian_inv (ls_primary S) cd ms (ls_pview S) (exec_call (ls_db cd S) c p)
        \<and> prefix (tv_leaves (ls_pview S) p) (tv_leaves (ls_pview S) (exec_call (ls_db cd S) c p))"
      using trillian_exec_closed [of "ls_primary S" cd ms "ls_pview S" p c] assms Pair by (simp add: nodes_inv_def)
    then show ?thesis
      using assms Pair ClientCall log_pairs_prefix by (fastforce simp: nodes_inv_def nodes_grow_def)
  next
    case CopyRound
    obtain s' p' k where r: "fetch_round (ls_sec cd S) (s, p) = ((s', p'), k)" by (metis prod_cases3 surj_pair)
    have "serves_log (sec_GetLeaves (ls_sec cd S)) (trillian_inv (ls_primary S) cd ms (ls_pview S)) (tv_leaves (ls_pview S))"
      using assms(1) Pair trillian_serves_log [of "ls_node S" cd "ls_primary S" ms "ls_pview S"] by (simp add: ls_sec_def nodes_inv_def)
    from tril.fetch_round_safe [OF this _ _ _ _ r, of cd "ls_secondary S" ms "ls_sview S"] show ?thesis
      using assms(1) Pair CopyRound r by (simp add: nodes_inv_def nodes_grow_def ls_sec_def)
  qed
qed

lemma advance_safe:
  assumes "system_inv cd ms S w"
  shows "system_inv cd ms S (advance (ls_db cd S) (ls_sec cd S) w)
    \<and> nodes_grow S (w_primary w, w_secondary w)
       (w_primary (advance (ls_db cd S) (ls_sec cd S) w), w_secondary (advance (ls_db cd S) (ls_sec cd S) w))"
proof (cases "w_schedule w")
  case Nil
  then show ?thesis using assms by (simp add: advance_def nodes_grow_def)
next
  case (Cons seg rest)
  have run: "nodes_inv cd ms S (fold (do_action (ls_db cd S) (ls_sec cd S)) as ps)
      \<and> nodes_grow S ps (fold (do_action (ls_db cd S) (ls_sec cd S)) as ps)"
    if "nodes_inv cd ms S ps" "list_all action_wf as" for as ps
    using that
  proof (induction as arbitrary: ps)
    case (Cons a as)
    have "nodes_inv cd ms S (do_action (ls_db cd S) (ls_sec cd S) a ps)"
        "nodes_grow S ps (do_action (ls_db cd S) (ls_sec cd S) a ps)"
      using do_action_safe [of cd ms S ps a] Cons.prems by simp_all
    with Cons.IH [OF this(1)] Cons.prems(2) show ?case
      unfolding nodes_grow_def by (auto intro: prefix_order.trans)
  qed (simp add: nodes_grow_def)
  show ?thesis
    using run [of "(w_primary w, w_secondary w)" seg] assms Cons
    by (auto simp: advance_def system_inv_def split: prod.splits)
qed

definition system_grows :: "leaf_codec \<Rightarrow> merkle_spec \<Rightarrow> ('p, 's) log_setup \<Rightarrow> ('p, 's) world \<Rightarrow> ('p, 's) world \<Rightarrow> bool" where
  "system_grows cd ms S w w' \<longleftrightarrow> system_inv cd ms S w'
     \<and> prefix (tv_leaves (ls_pview S) (w_primary w)) (tv_leaves (ls_pview S) (w_primary w'))
     \<and> prefix (tv_leaves (ls_sview S) (w_secondary w)) (tv_leaves (ls_sview S) (w_secondary w'))"

lemma system_grows_trans: "system_grows cd ms S w w1 \<Longrightarrow> system_grows cd ms S w1 w2 \<Longrightarrow> system_grows cd ms S w w2"
  by (auto simp: system_grows_def)

lemma advance_grows:
  "system_inv cd ms S w \<Longrightarrow> system_grows cd ms S w (advance (ls_db cd S) (ls_sec cd S) w)"
  using advance_safe [of cd ms S w] by (simp add: system_grows_def nodes_grow_def)

lemma on_primary_grows:
  assumes "system_inv cd ms S w"
    and "on_primary (db_GetTreeHead (ls_db cd S)) w = (w', rT) \<or> on_primary (db_GetConsistencyProof (ls_db cd S) req) w = (w', rC)"
  shows "system_grows cd ms S w w'"
proof -
  have inv: "trillian_inv (ls_primary S) cd ms (ls_pview S) (w_primary w)"
    using assms(1) by (simp add: system_inv_def nodes_inv_def)
  obtain p where p: "w' = w\<lparr>w_primary := p\<rparr>"
      "p = exec_call (ls_db cd S) CallGetTreeHead (w_primary w) \<or> p = exec_call (ls_db cd S) (CallGetConsistencyProof req) (w_primary w)"
    using assms(2) by (auto simp: on_primary_def split: prod.splits)
  then have "trillian_inv (ls_primary S) cd ms (ls_pview S) p
      \<and> prefix (tv_leaves (ls_pview S) (w_primary w)) (tv_leaves (ls_pview S) p)"
    using trillian_exec_closed [OF inv, of CallGetTreeHead] trillian_exec_closed [OF inv, of "CallGetConsistencyProof req"]
    by auto
  then show ?thesis
    using assms(1) p(1) log_pairs_prefix by (fastforce simp: system_grows_def system_inv_def nodes_inv_def)
qed

lemma on_secondary_grows:
  assumes "system_inv cd ms S w" and "on_secondary (GetSecondaryTreeHead (ls_sec cd S)) w = (w', r)"
  shows "system_grows cd ms S w w'"
    and "r = Ok sth \<Longrightarrow> is_head_of ms cd (tv_leaves (ls_sview S) (w_secondary w')) (sth_TreeHead sth)"
proof -
  have inv: "trillian_inv (ls_secondary S) cd ms (ls_sview S) (w_secondary w)"
    and sign: "\<And>th sth. ls_sign S th = Ok sth \<Longrightarrow> sth_TreeHead sth = th"
    using assms(1) by (simp_all add: system_inv_def nodes_inv_def)
  obtain s' rh where h: "TrillianClient_GetTreeHead (ls_secondary S) (w_secondary w) = (s', rh)" by fastforce
  have w': "w' = w\<lparr>w_secondary := s'\<rparr>" "r = Ok sth \<Longrightarrow> \<exists>th. rh = Ok th \<and> sth_TreeHead sth = th" for sth
    using assms(2) h sign
    by (auto simp: on_secondary_def GetSecondaryTreeHead_def ls_sec_def Trillian_Client_def split: result.splits)
  note g = trillian_GetTreeHead [OF inv h]
  show "system_grows cd ms S w w'"
    using g(1,3) assms(1) w'(1) trillian_inv_grows [OF inv g(1)]
    by (auto simp: system_grows_def system_inv_def nodes_inv_def view_grows_def)
  show "r = Ok sth \<Longrightarrow> is_head_of ms cd (tv_leaves (ls_sview S) (w_secondary w')) (sth_TreeHead sth)"
    using w' g(4) by auto
qed

lemma on_primary_head:
  assumes "system_inv cd ms S w" and "on_primary (db_GetTreeHead (ls_db cd S)) w = (w', Ok th)"
  shows "is_head_of ms cd (tv_leaves (ls_pview S) (w_primary w')) th"
proof -
  obtain p where "TrillianClient_GetTreeHead (ls_primary S) (w_primary w) = (p, Ok th)" "w' = w\<lparr>w_primary := p\<rparr>"
    using assms(2) by (auto simp: on_primary_def Trillian_Client_def split: prod.splits)
  then show ?thesis
    using trillian_GetTreeHead(4) [of "ls_primary S" cd ms "ls_pview S" "w_primary w" p "Ok th" th] assms(1)
    by (simp add: system_inv_def nodes_inv_def)
qed

lemma system_replica:
  assumes "system_inv cd ms S w"
  shows "prefix (tv_leaves (ls_sview S) (w_secondary w)) (tv_leaves (ls_pview S) (w_primary w))"
  using tril.replica_prefix [of "ls_secondary S" cd ms "ls_sview S" "w_secondary w"] assms
  by (simp add: system_inv_def nodes_inv_def)

interpretation sys: replicated_world "system_replication (ls_db cd S) (ls_sec cd S) pub" "system_inv cd ms S"
    "\<lambda>w. tv_leaves (ls_pview S) (w_primary w)" "\<lambda>w. tv_leaves (ls_sview S) (w_secondary w)" cd ms
  for cd :: leaf_codec and ms :: merkle_spec and S :: "('p, 's) log_setup" and pub :: pubkey
proof
  fix w w' :: "('p, 's) world" and rT
  assume *: "system_inv cd ms S w"
    "pt_GetTreeHead (rs_primary (system_replication (ls_db cd S) (ls_sec cd S) pub)) w = (w', rT)"
  let ?a = "advance (ls_db cd S) (ls_sec cd S) w"
  have a: "system_grows cd ms S w ?a" "system_inv cd ms S ?a"
    using advance_grows [OF *(1)] by (simp_all add: system_grows_def)
  have o: "on_primary (db_GetTreeHead (ls_db cd S)) ?a = (w', rT)" using *(2) by (simp add: system_replication_def)
  show "system_inv cd ms S w' \<and> prefix (tv_leaves (ls_pview S) (w_primary w)) (tv_leaves (ls_pview S) (w_primary w')) \<and>
      prefix (tv_leaves (ls_sview S) (w_secondary w)) (tv_leaves (ls_sview S) (w_secondary w')) \<and>
      (\<forall>th. rT = Ok th \<longrightarrow> is_head_of ms cd (tv_leaves (ls_pview S) (w_primary w')) th)"
    using system_grows_trans [OF a(1) on_primary_grows [OF a(2) disjI1 [OF o]]] on_primary_head [OF a(2)] o
    by (simp add: system_grows_def)
next
  fix w w' :: "('p, 's) world" and req rC
  assume *: "system_inv cd ms S w"
    "pt_GetConsistencyProof (rs_primary (system_replication (ls_db cd S) (ls_sec cd S) pub)) req w = (w', rC)"
  let ?a = "advance (ls_db cd S) (ls_sec cd S) w"
  have a: "system_grows cd ms S w ?a" "system_inv cd ms S ?a"
    using advance_grows [OF *(1)] by (simp_all add: system_grows_def)
  have "on_primary (db_GetConsistencyProof (ls_db cd S) req) ?a = (w', rC)"
    using *(2) by (simp add: system_replication_def)
  then show "system_inv cd ms S w' \<and> prefix (tv_leaves (ls_pview S) (w_primary w)) (tv_leaves (ls_pview S) (w_primary w')) \<and>
      prefix (tv_leaves (ls_sview S) (w_secondary w)) (tv_leaves (ls_sview S) (w_secondary w'))"
    using system_grows_trans [OF a(1) on_primary_grows [OF a(2) disjI2]] by (simp add: system_grows_def)
next
  fix w w' :: "('p, 's) world" and sec rS
  assume *: "system_inv cd ms S w"
    "rs_secondary (system_replication (ls_db cd S) (ls_sec cd S) pub) = Some sec" "sec w = (w', rS)"
  let ?a = "advance (ls_db cd S) (ls_sec cd S) w"
  have a: "system_grows cd ms S w ?a" "system_inv cd ms S ?a"
    using advance_grows [OF *(1)] by (simp_all add: system_grows_def)
  have o: "on_secondary (GetSecondaryTreeHead (ls_sec cd S)) ?a = (w', rS)"
    using *(2,3) by (auto simp: system_replication_def)
  show "system_inv cd ms S w' \<and> prefix (tv_leaves (ls_pview S) (w_primary w)) (tv_leaves (ls_pview S) (w_primary w')) \<and>
      prefix (tv_leaves (ls_sview S) (w_secondary w)) (tv_leaves (ls_sview S) (w_secondary w')) \<and>
      (\<forall>sth. rS = Ok sth \<longrightarrow> is_head_of ms cd (tv_leaves (ls_sview S) (w_secondary w')) (sth_TreeHead sth))"
    using system_grows_trans [OF a(1) on_secondary_grows(1) [OF a(2) o]] on_secondary_grows(2) [OF a(2) o]
    by (simp add: system_grows_def)
qed (simp_all add: system_replica system_replication_def)

section \<open>Guarantees of the whole log\<close>

definition heads_replicated :: "leaf_codec \<Rightarrow> merkle_spec \<Rightarrow> ('p, 's) log_setup \<Rightarrow> ('p, 's) world StateManagerSingle \<Rightarrow> ('p, 's) world \<Rightarrow> bool" where
  \<comment> \<open>both published tree heads cover only leaves that the secondary holds\<close>
  "heads_replicated cd ms S sm w \<longleftrightarrow>
     is_head_of ms cd (tv_leaves (ls_sview S) (w_secondary w)) (sth_TreeHead (sm_signedTreeHead sm))
   \<and> is_head_of ms cd (tv_leaves (ls_sview S) (w_secondary w)) (sth_TreeHead (cth_SignedTreeHead (sm_cosignedTreeHead sm)))"

definition round_wf :: "leaf_codec \<Rightarrow> merkle_spec \<Rightarrow> ('p, 's) log_setup \<Rightarrow> ('p, 's) world round_env \<Rightarrow> bool" where
  \<comment> \<open>signing keeps the tree head; while cosignatures are collected the nodes go on working\<close>
  "round_wf cd ms S env \<longleftrightarrow> (\<forall>th sth. re_sign env th = Ok sth \<longrightarrow> sth_TreeHead sth = th)
     \<and> (\<forall>sth w. system_inv cd ms S w \<longrightarrow> system_grows cd ms S w (fst (re_getCosignatures env sth w)))"

lemma sys_published:
  "sys.published cd S pub ms sm w \<longleftrightarrow>
     sm_replicationState sm = system_replication (ls_db cd S) (ls_sec cd S) pub \<and> system_inv cd ms S w \<and> heads_replicated cd ms S sm w"
  by (simp add: sys.published_def sys.replicated_def heads_replicated_def)

lemma sys_env_steady: "sys.env_steady cd ms S env \<longleftrightarrow> round_wf cd ms S env"
  by (simp add: sys.env_steady_def sys.grows_def round_wf_def system_grows_def)

lemma Run_heads_replicated:
  assumes "system_inv cd ms S w" and "heads_replicated cd ms S sm w"
    and "sm_replicationState sm = system_replication (ls_db cd S) (ls_sec cd S) pub"
    and "list_all (round_wf cd ms S) envs"
    and "Run sp pv envs (sm, fs, w) = Ok (sm', fs', w')"
  shows "heads_replicated cd ms S sm' w'" and "system_grows cd ms S w w'"
    and "prefix (tv_leaves (ls_sview S) (w_secondary w')) (tv_leaves (ls_pview S) (w_primary w'))"
proof -
  have "list_all (sys.env_steady cd ms S) envs" using assms(4) by (simp add: sys_env_steady list_all_iff)
  moreover have "sys.published cd S pub ms sm w" using assms(1-3) by (simp add: sys_published)
  ultimately have "sys.published cd S pub ms sm' w' \<and> sys.grows cd ms S w w'" using sys.Run_published assms(5) by blast
  then show "heads_replicated cd ms S sm' w'" and "system_grows cd ms S w w'"
    and "prefix (tv_leaves (ls_sview S) (w_secondary w')) (tv_leaves (ls_pview S) (w_primary w'))"
    using system_replica by (auto simp: sys_published sys.grows_def system_grows_def)
qed

text \<open>
  C1: No tree head is published before the secondary has it.  Run the state manager for any number of
  rounds, while the two nodes interleave client requests and copying rounds in any order between its
  calls: the signed and the cosigned tree head are then heads of trees that hold a prefix of the
  secondary's leaves, these are a prefix of the primary's, and neither log lost a leaf.
\<close>

theorem published_heads_are_replicated:
  assumes "system_inv cd ms S w" and "heads_replicated cd ms S sm w"
    and "sm_replicationState sm = system_replication (ls_db cd S) (ls_sec cd S) pub"
    and "list_all (round_wf cd ms S) envs"
    and "Run sp pv envs (sm, fs, w) = Ok (sm', fs', w')"
  shows "heads_replicated cd ms S sm' w'
    \<and> prefix (tv_leaves (ls_sview S) (w_secondary w')) (tv_leaves (ls_pview S) (w_primary w'))
    \<and> system_grows cd ms S w w'"
  using Run_heads_replicated [OF assms] by blast

text \<open>
  C2: A leaf that the log acknowledges as logged is on the secondary.  When the add-leaf handler of the
  primary answers that the leaf is sequenced, in a state where the published heads are replicated, then
  the secondary already holds a leaf with its hash, below the size of the signed tree head.
\<close>

theorem acknowledged_leaf_is_replicated:
  assumes "system_inv cd ms S w" and "heads_replicated cd ms S sm w"
    and "DbClient p = ls_db cd S" and "\<And>r l. rv r = Ok l \<Longrightarrow> leaf_wf l"
    and "Primary_AddLeaf H rv p (SignedTreeHead_of sm) now req t (l, w_primary w) = ((l', p'), Ok True)"
  shows "\<exists>leaf i. rv req = Ok leaf \<and> i < unat (sth_Size (sm_signedTreeHead sm))
    \<and> i < length (tv_leaves (ls_sview S) (w_secondary w))
    \<and> leaf_hash cd (tv_leaves (ls_sview S) (w_secondary w) ! i) = leaf_hash cd leaf"
proof -
  let ?sl = "tv_leaves (ls_sview S) (w_secondary w)" and ?pl = "tv_leaves (ls_pview S)"
  have inv: "trillian_inv (ls_primary S) cd ms (ls_pview S) (w_primary w)"
    using assms(1) by (simp add: system_inv_def nodes_inv_def)
  obtain leaf i where l: "rv req = Ok leaf" "i < unat (sth_Size (sm_signedTreeHead sm))" "i < length (?pl p')"
      "leaf_hash cd (?pl p' ! i) = leaf_hash cd leaf"
    using tril.AddLeaf_sequenced_sound [where rv = rv, OF inv assms(3) _ assms(5)] assms(4) by (auto simp: SignedTreeHead_of_def)
  have i: "i < length ?sl" using assms(2) l(2) by (auto simp: heads_replicated_def is_head_of_def)
  obtain st where "db_AddLeaf (ls_db cd S) leaf (sth_Size (sm_signedTreeHead sm)) (w_primary w) = (p', Ok st)"
    using assms(3,5) l(1) by (auto simp: Primary_AddLeaf_def SignedTreeHead_of_def split: result.splits prod.splits option.splits if_splits)
  then have "prefix (?pl (w_primary w)) (?pl p')" using tril.AddLeaf_grows [OF inv assms(4) [OF l(1)]] by blast
  then have "prefix ?sl (?pl p')" using system_replica [OF assms(1)] prefix_order.trans by blast
  then have "?pl p' ! i = ?sl ! i" using i by (auto simp: prefix_def nth_append)
  then show ?thesis using l i by metis
qed

text \<open>
  C8: The secondary only ever holds what the primary serves.  However many times its copying loop is
  started, against a primary that goes on appending, the secondary's tree stays a prefix of the
  primary's, it only grows, and the loop neither panics nor truncates the primary's log.
\<close>

theorem secondary_replicates_prefix:
  assumes "nodes_inv cd ms S (p, s)" and "Secondary_Run (ls_sec cd S) n (s, p) = Some ((s', p'), r)"
  shows "nodes_inv cd ms S (p', s') \<and> nodes_grow S (p, s) (p', s') \<and> r = Ok ()
    \<and> prefix (tv_leaves (ls_sview S) s') (tv_leaves (ls_pview S) p')"
proof -
  have "serves_log (sec_GetLeaves (ls_sec cd S)) (trillian_inv (ls_primary S) cd ms (ls_pview S)) (tv_leaves (ls_pview S))"
    using assms(1) trillian_serves_log [of "ls_node S" cd "ls_primary S" ms "ls_pview S"] by (simp add: ls_sec_def nodes_inv_def)
  from tril.Secondary_Run_safe [OF assms(2) this, of cd "ls_secondary S" ms "ls_sview S"]
  have "nodes_inv cd ms S (p', s') \<and> nodes_grow S (p, s) (p', s') \<and> r = Ok ()"
    using assms(1) by (simp add: nodes_inv_def nodes_grow_def ls_sec_def)
  then show ?thesis
    using tril.replica_prefix [of "ls_secondary S" cd ms "ls_sview S" s'] by (simp add: nodes_inv_def)
qed

section \<open>A concrete log\<close>

text \<open>
  Two leaves on the primary, an empty secondary and a log that has published the empty tree; before
  the state manager asks the primary a client submits a third leaf, and before it asks the secondary
  that one has copied.
\<close>

definition sample_setup :: "(Leaf list, Leaf list) log_setup" where
  "sample_setup = \<lparr>ls_primary = sample_client, ls_secondary = sample_client, ls_pview = sample_view concat_codec,
     ls_sview = sample_view concat_codec, ls_node = sample_primary 10, ls_sign = sample_sign ''sec''\<rparr>"

definition sample_world :: "(Leaf list, Leaf list) world" where
  "sample_world = \<lparr>w_primary = sample_log, w_secondary = [],
     w_schedule = [[ClientCall (CallAddLeaf (sample_leaf CHR ''c'') 0)], [CopyRound]]\<rparr>"

definition sample_system_manager :: "(Leaf list, Leaf list) world StateManagerSingle" where
  "sample_system_manager = new_manager (copy_array 32) ''key'' \<lparr>sth_name = ''sth''\<rparr>
     (system_replication (ls_db concat_codec sample_setup) (ls_sec concat_codec sample_setup) ''sec'')
     \<lparr>sth_TreeHead = \<lparr>Size = 0, RootHash = mroot list_merkle_spec []\<rparr>, sth_Signature = copy_array 64 ''key''\<rparr>"

definition sample_round :: "(Leaf list, Leaf list) world round_env" where
  "sample_round = \<lparr>re_sign = sample_sign ''key'', re_safefile = sample_safefile, re_getCosignatures = \<lambda>sth w. (w, [])\<rparr>"

abbreviation (input) sample_three :: "Leaf list" where
  "sample_three \<equiv> [sample_leaf CHR ''a'', sample_leaf CHR ''b'', sample_leaf CHR ''c'']"

abbreviation (input) sample_three_head :: TreeHead where
  "sample_three_head \<equiv> \<lparr>Size = 3, RootHash = mroot list_merkle_spec (map (leaf_hash concat_codec) sample_three)\<rparr>"

lemma sample_submit:
  "exec_call (Trillian_Client concat_codec sample_client) (CallAddLeaf (sample_leaf CHR ''c'') 0) sample_log = sample_three"
  by (simp add: Trillian_Client_def TrillianClient_AddLeaf_def TrillianClient_GetInclusionProof_def sample_client_def sample_log_def
      sample_trillian_def sample_can_add_def Let_def leaf_position_def capacity_def)

lemma sample_client_head:
  "length s < 3 \<or> s = sample_three \<Longrightarrow> db_GetTreeHead (Trillian_Client concat_codec sample_client) s
    = (s, Ok \<lparr>Size = of_nat (length s), RootHash = mroot list_merkle_spec (map (leaf_hash concat_codec) s)\<rparr>)"
  by (auto simp: Trillian_Client_def TrillianClient_GetTreeHead_def sample_client_def sample_trillian_def list_merkle_spec_def
        treeHeadFromLogRoot_def)

lemma sample_serve:
  "GetLeavesInternal (sample_primary 10) \<lparr>StartIndex = 0, EndIndex = 100\<rparr> sample_three = (sample_three, Ok sample_three)"
proof -
  have "range_end (sample_primary 10) \<lparr>StartIndex = 0, EndIndex = 100\<rparr> 3 = 3"
    by (simp add: range_end_def sample_primary_def)
  moreover have "db_GetLeaves (Trillian_Client concat_codec sample_client) \<lparr>StartIndex = 0, EndIndex = 3\<rparr> sample_three = (sample_three, Ok sample_three)"
    by (simp add: Trillian_Client_def TrillianClient_GetLeaves_def sample_client_def sample_trillian_def upt_conv_Cons)
  ultimately show ?thesis
    using sample_client_head [of sample_three]
    by (simp add: GetLeavesInternal_def getLeavesGeneral_cases sample_primary_def)
qed

lemma sample_sequence:
  "TrillianClient_AddSequencedLeaves concat_codec sample_client sample_three 0 [] = (sample_three, Ok ())"
  unfolding TrillianClient_AddSequencedLeaves_def
  by (subst add_sequenced_retry.simps)
    (simp add: trilLeaves_def sample_client_def sample_trillian_def sample_can_add_def upt_conv_Cons capacity_def)

lemma sample_copy:
  "fetch_round (ls_sec concat_codec sample_setup) ([], sample_three) = ((sample_three, sample_three), FetchMore)"
  using sample_client_head [of "[]"] sample_serve sample_sequence
  by (simp add: fetch_round_def ls_sec_def sample_setup_def leavesBatchSize_def Trillian_Client_def)

lemma sample_world_replicated:
  "ReplicatedTreeHead sample_sth_pkg (\<lambda>_ _ _. None)
     (system_replication (ls_db concat_codec sample_setup) (ls_sec concat_codec sample_setup) ''sec'') 0 sample_world
   = (\<lparr>w_primary = sample_three, w_secondary = sample_three, w_schedule = []\<rparr>, Ok sample_three_head)"
proof -
  have proof_call: "db_GetConsistencyProof (Trillian_Client concat_codec sample_client) \<lparr>OldSize = 3, NewSize = 3\<rparr> sample_three
      = (sample_three, Ok \<lparr>cp_Path = []\<rparr>)"
    by (simp add: Trillian_Client_def TrillianClient_GetConsistencyProof_def)
  have "sth_Verify sample_sth_pkg ''sec'' \<lparr>sth_TreeHead = sample_three_head, sth_Signature = copy_array 64 ''sec''\<rparr>"
    by (simp add: sample_sth_pkg_def)
  then show ?thesis
    using sample_submit sample_client_head [of sample_three] sample_copy proof_call
    by (simp add: ReplicatedTreeHead_def getPrimaryTreeHead_def getSecondaryTreeHead_def checkConsistency_def
        system_replication_def on_primary_def on_secondary_def advance_def sample_world_def
        GetSecondaryTreeHead_def sample_setup_def ls_sec_def sample_sign_def)
qed

lemma sample_system_inv:
  assumes "tv_inv (sample_view concat_codec) p" and "prefix s p" and "list_all (list_all action_wf) sched"
  shows "system_inv concat_codec list_merkle_spec sample_setup \<lparr>w_primary = p, w_secondary = s, w_schedule = sched\<rparr>"
proof -
  have "tv_inv (sample_view concat_codec) s"
    using assms(1,2) by (auto simp: prefix_def)
  then show ?thesis
    using assms sample_client_ok(1) log_pairs_prefix [OF assms(2)]
    by (simp add: system_inv_def nodes_inv_def trillian_inv_def sample_setup_def sample_primary_def sample_sign_def
        sample_view_def log_pairs_def)
qed

lemma sample_three_inv: "tv_inv (sample_view concat_codec) sample_three"
  by (simp add: capacity_def)

lemma sample_world_inv: "system_inv concat_codec list_merkle_spec sample_setup sample_world"
  unfolding sample_world_def using sample_client_ok(2) by (intro sample_system_inv) simp_all

lemma sample_setup_views [simp]:
  "ls_sview sample_setup = sample_view concat_codec" "ls_pview sample_setup = sample_view concat_codec"
  "ls_primary sample_setup = sample_client" "ls_node sample_setup = sample_primary 10"
  by (simp_all add: sample_setup_def)

definition sample_three_sth :: SignedTreeHead where
  "sample_three_sth = \<lparr>sth_TreeHead = sample_three_head, sth_Signature = copy_array 64 ''key''\<rparr>"

definition sample_after :: "(Leaf list, Leaf list) world StateManagerSingle" where
  "sample_after = sample_system_manager\<lparr>sm_signedTreeHead := sample_three_sth,
     sm_cosignedTreeHead := \<lparr>cth_SignedTreeHead = sample_three_sth, cth_Cosignatures = []\<rparr>\<rparr>"

lemma sample_system_run:
  "\<exists>fs'. Run sample_sth_pkg (\<lambda>_ _ _. None) [sample_round] (sample_system_manager, sample_disk, sample_world)
   = Ok (sample_after, fs', \<lparr>w_primary = sample_three, w_secondary = sample_three, w_schedule = []\<rparr>)"
proof -
  have "next_tree_head sample_sth_pkg (\<lambda>_ _ _. None) sample_system_manager sample_world
      = (\<lparr>w_primary = sample_three, w_secondary = sample_three, w_schedule = []\<rparr>, Ok sample_three_head)"
    using sample_world_replicated
    by (simp add: next_tree_head_def SignedTreeHead_of_def sample_system_manager_def new_manager_def)
  then show ?thesis
    by (simp add: run_round_def sm_rotate_def signTreeHead_def sample_round_def sample_sign_def sthFile_Store_def
        sample_safefile_def sample_after_def sample_three_sth_def sample_system_manager_def new_manager_def outcome_simps)
qed

lemma sample_round_wf: "round_wf concat_codec list_merkle_spec sample_setup sample_round"
  by (simp add: round_wf_def sample_round_def sample_sign_def system_grows_def)

lemma sample_after_replicated:
  "heads_replicated concat_codec list_merkle_spec sample_setup sample_after
     \<lparr>w_primary = sample_three, w_secondary = sample_three, w_schedule = []\<rparr>"
  by (simp add: heads_replicated_def sample_after_def sample_three_sth_def is_head_of_def)

theorem published_heads_are_replicated_witness:
  "is_head_of list_merkle_spec concat_codec sample_three (sth_TreeHead (sm_signedTreeHead sample_after))"
proof -
  obtain fs' where run: "Run sample_sth_pkg (\<lambda>_ _ _. None) [sample_round] (sample_system_manager, sample_disk, sample_world)
      = Ok (sample_after, fs', \<lparr>w_primary = sample_three, w_secondary = sample_three, w_schedule = []\<rparr>)"
    using sample_system_run by blast
  have "heads_replicated concat_codec list_merkle_spec sample_setup sample_system_manager sample_world"
    by (simp add: heads_replicated_def sample_system_manager_def new_manager_def sample_world_def is_head_of_def)
  from published_heads_are_replicated [OF sample_world_inv this _ _ run, of "''sec''"] show ?thesis
    using sample_round_wf by (simp add: heads_replicated_def sample_system_manager_def new_manager_def)
qed

theorem acknowledged_leaf_is_replicated_witness:
  "\<exists>i < 3. leaf_hash concat_codec (sample_three ! i) = leaf_hash concat_codec (sample_leaf CHR ''b'')"
proof -
  let ?rv = "\<lambda>r :: LeafRequest. Ok (sample_leaf CHR ''b'')"
  have add: "db_AddLeaf (Trillian_Client concat_codec sample_client) (sample_leaf CHR ''b'') 3 sample_three
      = (sample_three, Ok \<lparr>AlreadyExists = True, IsSequenced = True\<rparr>)"
    by (simp add: Trillian_Client_def TrillianClient_AddLeaf_def TrillianClient_GetInclusionProof_def sample_client_def
      sample_trillian_def sample_can_add_def Let_def leaf_position_def capacity_def nodePathFromHashes_def)
  then have ack: "Primary_AddLeaf (copy_array 32) ?rv (sample_primary 10) (SignedTreeHead_of sample_after) 0
      \<lparr>lr_Message = [], lr_Signature = [], lr_PublicKey = []\<rparr> None
      ((), w_primary \<lparr>w_primary = sample_three, w_secondary = sample_three, w_schedule = []\<rparr>) = (((), sample_three), Ok True)"
    by (simp add: Primary_AddLeaf_def checked_domain_def sample_primary_def NoLimit_AccessAllowed_def SignedTreeHead_of_def
        sample_after_def sample_three_sth_def)
  have inv: "system_inv concat_codec list_merkle_spec sample_setup
      \<lparr>w_primary = sample_three, w_secondary = sample_three, w_schedule = []\<rparr>"
    by (rule sample_system_inv [OF sample_three_inv]) simp_all
  have "DbClient (sample_primary 10) = ls_db concat_codec sample_setup" by (simp add: sample_primary_def)
  from acknowledged_leaf_is_replicated [OF inv sample_after_replicated this _ ack] show ?thesis by (auto simp: numeral_3_eq_3)
qed

theorem secondary_replicates_prefix_witness:
  "Secondary_Run (ls_sec concat_codec sample_setup) 1 ([], sample_three) = Some ((sample_three, sample_three), Ok ())
   \<and> prefix sample_three sample_three"
proof -
  have "GetLeavesInternal (sample_primary 10) \<lparr>StartIndex = 3, EndIndex = 103\<rparr> sample_three
      = (sample_three, Err (ApiError StatusNotFound (Errorf ''at end of tree'')))"
    using sample_client_head [of sample_three]
    by (simp add: GetLeavesInternal_def getLeavesGeneral_cases sample_primary_def)
  then have "fetch_round (ls_sec concat_codec sample_setup) (sample_three, sample_three) = ((sample_three, sample_three), FetchDone)"
    using sample_client_head [of sample_three] by (simp add: fetch_round_def ls_sec_def sample_setup_def leavesBatchSize_def)
  then have run: "Secondary_Run (ls_sec concat_codec sample_setup) 1 ([], sample_three) = Some ((sample_three, sample_three), Ok ())"
    using fetch_More [OF sample_copy] fetch_Done [of "ls_sec concat_codec sample_setup" "(sample_three, sample_three)"]
    by (simp add: numeral_eq_Suc)
  have "nodes_inv concat_codec list_merkle_spec sample_setup (sample_three, [])"
    using sample_system_inv [OF sample_three_inv, of "[]" "[]"] by (simp add: system_inv_def)
  from secondary_replicates_prefix [OF this run] run show ?thesis by simp
qed

section \<open>Full replication\<close>

lemma memory_fetch_completes:
  assumes "memory_inv cd mk ms hs w" and "memory_inv cd mk ms hs s"
    and "prefix (memory_leaves cd s) (memory_leaves cd w)"
    and "DbClient p = MemoryDb_Client cd mk" and "MaxRange p \<noteq> 0"
    and "sec_DbClient sec = MemoryDb_Client cd mk" and "sec_GetLeaves sec = GetLeavesInternal p"
  shows "\<exists>s'. fetchLeavesFromPrimary sec (s, w) = Some ((s', w), Ok ())
    \<and> memory_leaves cd s' = memory_leaves cd w \<and> memory_inv cd mk ms hs s'"
proof -
  have "serves_log (sec_GetLeaves sec) (memory_inv cd mk ms hs) (memory_leaves cd)"
    unfolding assms(7) using assms(4)
    by (rule mem.internal_serves_log) (auto simp: MemoryDb_Client_def MemoryDb_GetTreeHead_log MemoryDb_GetLeaves_log)
  moreover have "serves_all (sec_GetLeaves sec) w (memory_leaves cd w)"
    unfolding assms(7)
  proof (rule mem.internal_serves_all [OF assms(4,5)])
    show "db_GetTreeHead (MemoryDb_Client cd mk) w = (w, Ok \<lparr>Size = of_nat (length (memory_leaves cd w)),
        RootHash = mroot ms (map (leaf_hash cd) (memory_leaves cd w))\<rparr>)"
      using MemoryDb_GetTreeHead_log [OF assms(1)] by (simp add: MemoryDb_Client_def)
  qed (use memory_inv_leaves [OF assms(1)] in \<open>auto simp: MemoryDb_Client_def MemoryDb_GetLeaves_log [OF assms(1)]\<close>)
  moreover have "memory_acc cd s \<subseteq> log_pairs (memory_leaves cd w)"
    using log_pairs_prefix [OF assms(3)] by (simp add: memory_acc_def log_pairs_def)
  ultimately show ?thesis
    using memp.fetch_completes [of sec "memory_inv cd mk ms hs" "memory_leaves cd" w cd mk ms hs s] assms memory_inv_leaves [OF assms(1)] by auto
qed






end
