(* ===== verification/Server_Setup.thy ===== *)
theory Server_Setup
  imports Server_Config Log_System
begin

text \<open>
  Setting up the nodes from a configuration (\<open>setupPrimaryFromFlags\<close>,
  \<open>setupSecondaryFromFlags\<close>, \<open>configuredWitnesses\<close>) and the tool that prepares the first
  start (\<open>sigsum-mktree\<close>).  Reading keys and policies, dialing, DNS and HTTP clients are code
  outside of this repository: the fields of the record \<open>setup_env\<close>.  A node runs on a
  \<open>store\<close>: what it reaches over the network, and the database of the ephemeral backend.
\<close>

section \<open>Backends\<close>

record ('s, 't) store =
  st_net :: 's
  st_memory :: "'t MemoryDb"

definition lift_client :: "('w \<Rightarrow> 's) \<Rightarrow> ('s \<Rightarrow> 'w \<Rightarrow> 'w) \<Rightarrow> 's Client \<Rightarrow> 'w Client" where
  \<comment> \<open>a client that works on one part of a larger state\<close>
  "lift_client get put db = \<lparr>
     db_AddLeaf = \<lambda>l n w. map_prod (\<lambda>s. put s w) id (db_AddLeaf db l n (get w)),
     db_AddSequencedLeaves = \<lambda>ls k w. map_prod (\<lambda>s. put s w) id (db_AddSequencedLeaves db ls k (get w)),
     db_GetTreeHead = \<lambda>w. map_prod (\<lambda>s. put s w) id (db_GetTreeHead db (get w)),
     db_GetConsistencyProof = \<lambda>req w. map_prod (\<lambda>s. put s w) id (db_GetConsistencyProof db req (get w)),
     db_GetInclusionProof = \<lambda>req w. map_prod (\<lambda>s. put s w) id (db_GetInclusionProof db req (get w)),
     db_GetLeaves = \<lambda>req w. map_prod (\<lambda>s. put s w) id (db_GetLeaves db req (get w))\<rparr>"

datatype 's backend = TrillianBackend "'s TrillianClient" | EphemeralBackend

fun backend_client :: "leaf_codec \<Rightarrow> 't merkle_pkg \<Rightarrow> 's backend \<Rightarrow> ('s, 't) store Client" where
  "backend_client cd mk (TrillianBackend c) = lift_client st_net (\<lambda>s w. w\<lparr>st_net := s\<rparr>) (Trillian_Client cd c)"
| "backend_client cd mk EphemeralBackend = lift_client st_memory (\<lambda>s w. w\<lparr>st_memory := s\<rparr>) (MemoryDb_Client cd mk)"

record ('s, 't, 'n) setup_env =
  se_codec :: leaf_codec
  se_merkle :: "'t merkle_pkg"
  se_HashBytes :: "bytes \<Rightarrow> hash"
  se_sth :: sth_pkg
  se_safefile :: safefile
  se_faults :: os_faults
  se_norm :: "string \<Rightarrow> string result" \<comment> \<open>normalization of domain names\<close>
  se_ReadPrivateKeyFile :: "string \<Rightarrow> (pubkey \<times> sign_fun) result" \<comment> \<open>a signer: its public key and \<open>Sign\<close>\<close>
  se_ReadPublicKeyFile :: "string \<Rightarrow> pubkey result"
  se_GetInt :: "bytes \<Rightarrow> string \<Rightarrow> u64 result"
  se_Dial :: "string \<Rightarrow> time \<Rightarrow> 's trillian result"
  se_GetTree :: "'s trillian \<Rightarrow> i64 \<Rightarrow> 's \<Rightarrow> TrillianTreeType result" \<comment> \<open>in the given state of the service\<close>
  se_secondary_client :: "string \<Rightarrow> ('s, 't) store \<Rightarrow> ('s, 't) store \<times> SignedTreeHead result"
  se_primary_client :: "string \<Rightarrow> LeavesRequest \<Rightarrow> 'n \<Rightarrow> 'n \<times> Leaf list result"
  se_DnsVerifier :: "pubkey \<Rightarrow> SubmitHeader \<Rightarrow> go_error option"
  se_ReadPolicyFile :: "string \<Rightarrow> Entity list result" \<comment> \<open>with \<open>GetWitnessesWithUrl\<close>\<close>
  se_SetLogFile :: "string \<Rightarrow> go_error option"
  se_SetLevelFromString :: "string \<Rightarrow> go_error option"

definition setup_backend ::
    "('s, 't, 'n) setup_env \<Rightarrow> TreeType \<Rightarrow> ServerConfig \<Rightarrow> fsys \<Rightarrow> ('s, 't) store \<Rightarrow> ('s, 't) store \<times> 's backend result" where
  "setup_backend E treeType conf fs w =
     (if Backend conf = ''ephemeral'' then (w\<lparr>st_memory := NewMemoryDb (se_merkle E)\<rparr>, Ok EphemeralBackend)
      else if Backend conf = ''trillian'' then
        (w, map_result TrillianBackend
              (DialTrillian (os_Open (se_faults E) fs) (se_GetInt E) (se_Dial E) (\<lambda>conn i. se_GetTree E conn i (st_net w))
                 (TrillianRpcServer conf) (Timeout conf) treeType (TrillianTreeIDFile conf)))
      else (w, Err (Errorf ''unknown backend'')))"

section \<open>The primary\<close>

datatype RateLimiter = NoLimit | RateLimited limiter

fun RateLimiter_AccessAllowed ::
    "(string \<Rightarrow> string result) \<Rightarrow> RateLimiter \<Rightarrow> time \<Rightarrow> string option \<Rightarrow> hash \<Rightarrow> RateLimiter \<times> ticket option option result" where
  \<comment> \<open>dispatch of the interface \<open>Limiter\<close>; for \<open>NoLimit\<close> the returned function does nothing\<close>
  "RateLimiter_AccessAllowed norm NoLimit now domain k = (NoLimit, Ok (Some None))"
| "RateLimiter_AccessAllowed norm (RateLimited l) now domain k =
     (case limiter_AccessAllowed norm l now domain k of
        (l', r) \<Rightarrow> (RateLimited l', map_result (map_option Some) r))"

fun RateLimiter_relax :: "RateLimiter \<Rightarrow> ticket option \<Rightarrow> RateLimiter" where
  "RateLimiter_relax (RateLimited l) (Some t) = RateLimited (run_relax l t)"
| "RateLimiter_relax l _ = l"

definition setup_secondary_client ::
    "('s, 't, 'n) setup_env \<Rightarrow> ServerConfig \<Rightarrow> (pubkey \<times> (('s, 't) store \<Rightarrow> ('s, 't) store \<times> SignedTreeHead result) option) result" where
  "setup_secondary_client E conf =
     (let p = cfg_Primary conf in
      if SecondaryURL p \<noteq> '''' \<and> SecondaryPubkeyFile p \<noteq> '''' then
        (case se_ReadPublicKeyFile E (SecondaryPubkeyFile p) of
           Err e \<Rightarrow> Err (Errorf ''failed to read secondary node pubkey'')
         | Panic m \<Rightarrow> Panic m
         | Ok secondaryPub \<Rightarrow> Ok (secondaryPub, Some (se_secondary_client E (SecondaryURL p))))
      else Ok (replicate 32 (CHR 0x00), None))"

definition setup_limiter :: "('s, 't, 'n) setup_env \<Rightarrow> ServerConfig \<Rightarrow> fsys \<Rightarrow> time \<Rightarrow> RateLimiter result" where
  "setup_limiter E conf fs now =
     (let p = cfg_Primary conf; os_open = (\<lambda>name. map_result (\<lambda>d. \<lparr>rd_data = d, rd_err = None\<rparr>) (os_Open (se_faults E) fs name)) in
      if RateLimitFile p \<noteq> '''' then
        (case os_open (RateLimitFile p) of
           Err e \<Rightarrow> Err (Errorf ''opening rate limit config file failed'')
         | Panic m \<Rightarrow> Panic m
         | Ok f \<Rightarrow>
             (case NewLimiter (se_norm E) os_open f (AllowTestDomain p) now of
                Err e \<Rightarrow> Err (Errorf ''initializing rate limiter failed'')
              | Panic m \<Rightarrow> Panic m
              | Ok l \<Rightarrow> Ok (RateLimited l)))
      else Ok NoLimit)"

record ('s, 't) PrimaryNode =
  pn_publicKey :: pubkey
  pn_backend :: "'s backend"
  pn_node :: "(RateLimiter, ticket option, ('s, 't) store) Primary"
  pn_Stateman :: "('s, 't) store StateManagerSingle"
  pn_RateLimiter :: RateLimiter

definition primary_replication ::
    "('s, 't) store Client \<Rightarrow> pubkey \<Rightarrow> (('s, 't) store \<Rightarrow> ('s, 't) store \<times> SignedTreeHead result) option
     \<Rightarrow> ('s, 't) store ReplicationState" where
  "primary_replication db secondaryPub secondary = \<lparr>
     rs_primary = \<lparr>pt_GetTreeHead = db_GetTreeHead db, pt_GetConsistencyProof = db_GetConsistencyProof db\<rparr>,
     rs_secondaryPub = secondaryPub, rs_secondary = secondary\<rparr>"

definition setupPrimaryFromFlags ::
    "('s, 't, 'n) setup_env \<Rightarrow> ServerConfig \<Rightarrow> time \<Rightarrow> fsys \<Rightarrow> ('s, 't) store
     \<Rightarrow> fsys \<times> ('s, 't) store \<times> ('s, 't) PrimaryNode result" where
  "setupPrimaryFromFlags E conf now fs w =
     (case se_ReadPrivateKeyFile E (KeyFile conf) of
        Err e \<Rightarrow> (fs, w, Err (Errorf ''failed reading private key''))
      | Panic m \<Rightarrow> (fs, w, Panic m)
      | Ok (publicKey, sign) \<Rightarrow>
     (case setup_backend E PrimaryTree conf fs w of
        (w1, Err e) \<Rightarrow> (fs, w1, Err e)
      | (w1, Panic m) \<Rightarrow> (fs, w1, Panic m)
      | (w1, Ok b) \<Rightarrow>
     (let db = backend_client (se_codec E) (se_merkle E) b in
      case setup_secondary_client E conf of
        Err e \<Rightarrow> (fs, w1, Err e)
      | Panic m \<Rightarrow> (fs, w1, Panic m)
      | Ok (secondaryPub, secondary) \<Rightarrow>
     (case NewStateManagerSingle (se_HashBytes E) (se_sth E) (se_safefile E) (se_faults E) sign publicKey
             (primary_replication db secondaryPub secondary) (SthFile (cfg_Primary conf)) fs w1 of
        (fs2, w2, Err e) \<Rightarrow> (fs2, w2, Err (Errorf ''NewStateManagerSingle''))
      | (fs2, w2, Panic m) \<Rightarrow> (fs2, w2, Panic m)
      | (fs2, w2, Ok sm) \<Rightarrow>
     (case setup_limiter E conf fs2 now of
        Err e \<Rightarrow> (fs2, w2, Err e)
      | Panic m \<Rightarrow> (fs2, w2, Panic m)
      | Ok lim \<Rightarrow> (fs2, w2, Ok \<lparr>
          pn_publicKey = publicKey, pn_backend = b,
          pn_node = \<lparr>MaxRange = cfg_MaxRange (cfg_Primary conf), DbClient = db,
            TokenVerifier = Some (se_DnsVerifier E publicKey),
            AccessAllowed = RateLimiter_AccessAllowed (se_norm E), call_relax = RateLimiter_relax\<rparr>,
          pn_Stateman = sm, pn_RateLimiter = lim\<rparr>))))))"

definition configuredWitnesses :: "('s, 't, 'n) setup_env \<Rightarrow> string \<Rightarrow> Entity list result" where
  "configuredWitnesses E policy_file = (if policy_file = '''' then Ok [] else se_ReadPolicyFile E policy_file)"

definition primary_startup ::
    "('s, 't, 'n) setup_env \<Rightarrow> toml_decoder \<Rightarrow> opt_parser \<Rightarrow> string option \<Rightarrow> string list \<Rightarrow> time \<Rightarrow> fsys \<Rightarrow> ('s, 't) store
     \<Rightarrow> fsys \<times> ('s, 't) store \<times> (ServerConfig \<times> Entity list \<times> ('s, 't) PrimaryNode) result" where
  \<comment> \<open>\<open>main\<close> up to the running node; \<open>log.Fatal\<close> ends the process, an error here\<close>
  "primary_startup E decode getopt env argv now fs w =
     (case primary_config decode getopt (se_faults E) fs env argv of
        Err e \<Rightarrow> (fs, w, Err e)
      | Panic m \<Rightarrow> (fs, w, Panic m)
      | Ok conf \<Rightarrow>
     if LogFile conf \<noteq> '''' \<and> se_SetLogFile E (LogFile conf) \<noteq> None
     then (fs, w, Err (Errorf ''open log file failed''))
     else if se_SetLevelFromString E (LogLevel conf) \<noteq> None then (fs, w, Err (Errorf ''setup logging''))
     else
     (case configuredWitnesses E (PolicyFile (cfg_Primary conf)) of
        Err e \<Rightarrow> (fs, w, Err (Errorf ''Failed witness configuration''))
      | Panic m \<Rightarrow> (fs, w, Panic m)
      | Ok witnesses \<Rightarrow>
     (case setupPrimaryFromFlags E conf now fs w of
        (fs', w', Err e) \<Rightarrow> (fs', w', Err (Errorf ''setup primary''))
      | (fs', w', Panic m) \<Rightarrow> (fs', w', Panic m)
      | (fs', w', Ok node) \<Rightarrow> (fs', w', Ok (conf, witnesses, node)))))"

section \<open>The secondary\<close>

record ('s, 't, 'n) SecondaryNode =
  sn_publicKey :: pubkey
  sn_backend :: "'s backend"
  sn_Interval :: time
  sn_node :: "(('s, 't) store, 'n) Secondary"

definition setupSecondaryFromFlags ::
    "('s, 't, 'n) setup_env \<Rightarrow> ServerConfig \<Rightarrow> fsys \<Rightarrow> ('s, 't) store \<Rightarrow> ('s, 't) store \<times> ('s, 't, 'n) SecondaryNode result" where
  "setupSecondaryFromFlags E conf fs w =
     (case se_ReadPrivateKeyFile E (KeyFile conf) of
        Err e \<Rightarrow> (w, Err (Errorf ''newLogIdentity''))
      | Panic m \<Rightarrow> (w, Panic m)
      | Ok (publicKey, sign) \<Rightarrow>
     (case setup_backend E SecondaryTree conf fs w of
        (w1, Err e) \<Rightarrow> (w1, Err e)
      | (w1, Panic m) \<Rightarrow> (w1, Panic m)
      | (w1, Ok b) \<Rightarrow> (w1, Ok \<lparr>
          sn_publicKey = publicKey, sn_backend = b, sn_Interval = Interval conf,
          sn_node = \<lparr>sec_DbClient = backend_client (se_codec E) (se_merkle E) b, sec_Sign = sign,
            sec_GetLeaves = se_primary_client E (PrimaryURL (cfg_Secondary conf))\<rparr>\<rparr>)))"

definition secondary_startup ::
    "('s, 't, 'n) setup_env \<Rightarrow> toml_decoder \<Rightarrow> opt_parser \<Rightarrow> string option \<Rightarrow> string list \<Rightarrow> fsys \<Rightarrow> ('s, 't) store
     \<Rightarrow> ('s, 't) store \<times> (ServerConfig \<times> ('s, 't, 'n) SecondaryNode) result" where
  "secondary_startup E decode getopt env argv fs w =
     (case secondary_config decode getopt (se_faults E) fs env argv of
        Err e \<Rightarrow> (w, Err e)
      | Panic m \<Rightarrow> (w, Panic m)
      | Ok conf \<Rightarrow>
     if LogFile conf \<noteq> '''' \<and> se_SetLogFile E (LogFile conf) \<noteq> None then (w, Err (Errorf ''open log file failed''))
     else if se_SetLevelFromString E (LogLevel conf) \<noteq> None then (w, Err (Errorf ''setup logging''))
     else
     (case setupSecondaryFromFlags E conf fs w of
        (w', Err e) \<Rightarrow> (w', Err (Errorf ''setup secondary''))
      | (w', Panic m) \<Rightarrow> (w', Panic m)
      | (w', Ok node) \<Rightarrow> (w', Ok (conf, node))))"

section \<open>The tool \<open>sigsum-mktree\<close>\<close>

definition mktree_ParseFlags ::
    "(string list \<Rightarrow> (string option \<times> string option) result) \<Rightarrow> string list \<Rightarrow> ServerConfig \<Rightarrow> (ServerConfig \<times> StartupMode) result" where
  \<comment> \<open>\<open>flags\<close> gives the values of \<open>--sth-file\<close> and \<open>--mode\<close>\<close>
  "mktree_ParseFlags flags argv c =
     bind_result (flags argv) (\<lambda>(sth, m).
     let c' = (case sth of None \<Rightarrow> c | Some f \<Rightarrow> c\<lparr>cfg_Primary := (cfg_Primary c)\<lparr>SthFile := f\<rparr>\<rparr>);
         mode = (case m of None \<Rightarrow> ''empty'' | Some s \<Rightarrow> s)
     in bind_result (mktree_mode mode) (\<lambda>md. Ok (c', md)))"

definition mktree_program ::
    "toml_decoder \<Rightarrow> (string list \<Rightarrow> (string option \<times> string option) result) \<Rightarrow> os_faults \<Rightarrow> string option \<Rightarrow> string list
     \<Rightarrow> fsys \<Rightarrow> fsys \<times> unit result" where
  "mktree_program decode flags flt env argv fs =
     (case bind_result (file_config decode flt fs env) (mktree_ParseFlags flags argv) of
        Err e \<Rightarrow> (fs, Err e)
      | Panic m \<Rightarrow> (fs, Panic m)
      | Ok (conf, startupMode) \<Rightarrow> mktree_main flt (SthFile (cfg_Primary conf)) startupMode fs)"

section \<open>What a successful setup guarantees\<close>

lemma DialTrillian_Ok:
  assumes "DialTrillian opn getInt dial getTree target timeout tt idFile = Ok c"
  shows "getTree (logClient c) (treeID c) = Ok (if tt = PrimaryTree then LOG else PREORDERED_LOG)"
    and "dial target timeout = Ok (logClient c)" and "readTreeId opn getInt idFile = Ok (treeID c)"
  using assms
  by (auto simp: DialTrillian_def checkTrillianTreeType_def bind_result_Ok_iff split: result.splits if_splits)

lemma setup_backend_Ok:
  assumes "setup_backend E tt conf fs w = (w', Ok b)"
  shows "Backend conf = ''ephemeral'' \<and> b = EphemeralBackend \<and> w' = w\<lparr>st_memory := NewMemoryDb (se_merkle E)\<rparr>
    \<or> (\<exists>c. Backend conf = ''trillian'' \<and> b = TrillianBackend c \<and> w' = w
         \<and> se_Dial E (TrillianRpcServer conf) (Timeout conf) = Ok (logClient c)
         \<and> readTreeId (os_Open (se_faults E) fs) (se_GetInt E) (TrillianTreeIDFile conf) = Ok (treeID c)
         \<and> se_GetTree E (logClient c) (treeID c) (st_net w) = Ok (if tt = PrimaryTree then LOG else PREORDERED_LOG))"
proof (cases "Backend conf = ''ephemeral''")
  case False
  then obtain c where "Backend conf = ''trillian''" "b = TrillianBackend c" "w' = w"
      "DialTrillian (os_Open (se_faults E) fs) (se_GetInt E) (se_Dial E) (\<lambda>conn i. se_GetTree E conn i (st_net w))
         (TrillianRpcServer conf) (Timeout conf) tt (TrillianTreeIDFile conf) = Ok c"
    using assms by (auto simp: setup_backend_def map_result_Ok_iff split: if_splits)
  then show ?thesis using DialTrillian_Ok [of "os_Open (se_faults E) fs" "se_GetInt E" "se_Dial E"] by fastforce
qed (use assms in \<open>simp add: setup_backend_def\<close>)

lemma setupPrimary_OkE:
  assumes "setupPrimaryFromFlags E conf now fs w = (fs', w', Ok n)"
  obtains sign w1 secPub sec where
    "se_ReadPrivateKeyFile E (KeyFile conf) = Ok (pn_publicKey n, sign)"
    "setup_backend E PrimaryTree conf fs w = (w1, Ok (pn_backend n))"
    "setup_secondary_client E conf = Ok (secPub, sec)"
    "NewStateManagerSingle (se_HashBytes E) (se_sth E) (se_safefile E) (se_faults E) sign (pn_publicKey n)
       (primary_replication (backend_client (se_codec E) (se_merkle E) (pn_backend n)) secPub sec)
       (SthFile (cfg_Primary conf)) fs w1 = (fs', w', Ok (pn_Stateman n))"
    "setup_limiter E conf fs' now = Ok (pn_RateLimiter n)"
    "DbClient (pn_node n) = backend_client (se_codec E) (se_merkle E) (pn_backend n)"
    "MaxRange (pn_node n) = cfg_MaxRange (cfg_Primary conf)"
    "TokenVerifier (pn_node n) = Some (se_DnsVerifier E (pn_publicKey n))"
proof -
  obtain pub sign where k: "se_ReadPrivateKeyFile E (KeyFile conf) = Ok (pub, sign)"
    using assms by (cases "se_ReadPrivateKeyFile E (KeyFile conf)") (auto simp: setupPrimaryFromFlags_def)
  obtain w1 b where b: "setup_backend E PrimaryTree conf fs w = (w1, Ok b)"
  proof (cases "setup_backend E PrimaryTree conf fs w")
    case (Pair w1 r)
    then show ?thesis using assms k that by (cases r) (auto simp: setupPrimaryFromFlags_def)
  qed
  obtain secPub sec where s: "setup_secondary_client E conf = Ok (secPub, sec)"
    using assms k b by (cases "setup_secondary_client E conf") (auto simp: setupPrimaryFromFlags_def Let_def)
  let ?db = "backend_client (se_codec E) (se_merkle E) b"
  obtain fs2 w2 sm where m: "NewStateManagerSingle (se_HashBytes E) (se_sth E) (se_safefile E) (se_faults E) sign pub
       (primary_replication ?db secPub sec) (SthFile (cfg_Primary conf)) fs w1 = (fs2, w2, Ok sm)"
  proof (cases "NewStateManagerSingle (se_HashBytes E) (se_sth E) (se_safefile E) (se_faults E) sign pub
       (primary_replication ?db secPub sec) (SthFile (cfg_Primary conf)) fs w1")
    case (fields fs2 w2 r)
    then show ?thesis using assms k b s that by (cases r) (auto simp: setupPrimaryFromFlags_def Let_def)
  qed
  obtain lim where l: "setup_limiter E conf fs2 now = Ok lim"
    using assms k b s m by (cases "setup_limiter E conf fs2 now") (auto simp: setupPrimaryFromFlags_def Let_def)
  show ?thesis
    using assms k b s m l that by (auto simp: setupPrimaryFromFlags_def Let_def)
qed

lemma primary_startup_OkE:
  assumes "primary_startup E decode getopt env argv now fs w = (fs', w', Ok (conf, ws, n))"
  obtains "primary_config decode getopt (se_faults E) fs env argv = Ok conf"
    "configuredWitnesses E (PolicyFile (cfg_Primary conf)) = Ok ws"
    "setupPrimaryFromFlags E conf now fs w = (fs', w', Ok n)"
proof -
  obtain c where c: "primary_config decode getopt (se_faults E) fs env argv = Ok c"
    using assms by (cases "primary_config decode getopt (se_faults E) fs env argv") (auto simp: primary_startup_def)
  then obtain v where v: "configuredWitnesses E (PolicyFile (cfg_Primary c)) = Ok v"
    using assms by (cases "configuredWitnesses E (PolicyFile (cfg_Primary c))") (auto simp: primary_startup_def split: if_splits)
  obtain fs1 w1 r where s: "setupPrimaryFromFlags E c now fs w = (fs1, w1, r)" by (metis prod_cases3)
  show ?thesis
    using assms c v s that by (cases r) (auto simp: primary_startup_def split: if_splits)
qed

definition limiter_configured :: "('s, 't, 'n) setup_env \<Rightarrow> fsys \<Rightarrow> PrimaryConfig \<Rightarrow> limiter \<Rightarrow> bool" where
  \<comment> \<open>a well-formed limiter with nothing counted yet and the limits of the rate limit file; the test domain is banned unless it is allowed\<close>
  "limiter_configured E fs p l \<longleftrightarrow> limiter_wf l \<and> limiter_count l = (\<lambda>_. 0)
     \<and> (\<exists>data config. os_Open (se_faults E) fs (RateLimitFile p) = Ok data
          \<and> ParseConfig (se_norm E) \<lparr>rd_data = data, rd_err = None\<rparr> = Ok config
          \<and> allowedKeys l = AllowedKeys config \<and> allowPublic l = AllowPublic config
          \<and> allowedDomains l = (if AllowTestDomain p then AllowedDomains config else (AllowedDomains config)(ToLower testDomain \<mapsto> 0)))"

lemma setup_limiter_Ok:
  assumes "setup_limiter E conf fs now = Ok lim"
  shows "if RateLimitFile (cfg_Primary conf) = '''' then lim = NoLimit
    else \<exists>l. lim = RateLimited l \<and> limiter_configured E fs (cfg_Primary conf) l"
proof (cases "RateLimitFile (cfg_Primary conf) = ''''")
  case False
  let ?open = "\<lambda>name. map_result (\<lambda>d. \<lparr>rd_data = d, rd_err = None\<rparr>) (os_Open (se_faults E) fs name)"
  obtain data l where l: "os_Open (se_faults E) fs (RateLimitFile (cfg_Primary conf)) = Ok data" "lim = RateLimited l"
      "newLimiter (se_norm E) ?open \<lparr>rd_data = data, rd_err = None\<rparr> (AllowTestDomain (cfg_Primary conf)) now = Ok l"
    using assms False by (auto simp: setup_limiter_def NewLimiter_def map_result_Ok_iff Let_def split: if_splits result.splits)
  have "limiter_count l = (\<lambda>_. 0)"
    using l(3) by (auto simp: newLimiter_def bind_result_Ok_iff Let_def limiter_count_def accessCounts_defs fun_eq_iff split: bucket.splits)
  then have "limiter_configured E fs (cfg_Primary conf) l"
    using newLimiter_wf [OF l(3)] l(1,3) by (auto simp: limiter_configured_def newLimiter_def bind_result_Ok_iff Let_def)
  then show ?thesis using False l(2) by simp
qed (use assms in \<open>simp add: setup_limiter_def Let_def\<close>)

lemma setup_secondary_client_Ok:
  assumes "setup_secondary_client E conf = Ok (secPub, sec)"
  shows "SecondaryURL (cfg_Primary conf) \<noteq> '''' \<Longrightarrow> SecondaryPubkeyFile (cfg_Primary conf) \<noteq> '''' \<Longrightarrow>
      se_ReadPublicKeyFile E (SecondaryPubkeyFile (cfg_Primary conf)) = Ok secPub
      \<and> sec = Some (se_secondary_client E (SecondaryURL (cfg_Primary conf)))"
    and "SecondaryURL (cfg_Primary conf) = '''' \<Longrightarrow> sec = None"
  using assms by (auto simp: setup_secondary_client_def Let_def split: if_splits result.splits)

lemma secondary_without_key_ignored:
  \<comment> \<open>a configured secondary whose public key file is not configured is left out, without an error\<close>
  assumes "SecondaryPubkeyFile (cfg_Primary conf) = ''''"
  shows "setup_secondary_client E conf = Ok (replicate 32 (CHR 0x00), None)"
  using assms by (simp add: setup_secondary_client_def)

text \<open>
  C34: A primary that starts is the one that was configured, by file and command line.  Its key is the
  configured key, and its signed tree heads are kept in the configured file; on the Trillian backend it uses the tree
  named in the tree id file on the configured server, which has been checked to be a plain log, otherwise a new in-memory
  log; it serves the configured maximal range, and checks submit tokens against its own key; the state manager reads the
  same database.  The witnesses are those of the policy file, none if there is no such file.  With the URL and the public key
  file of a secondary, tree heads wait for the secondary at that URL and must verify under the key in that file; without a
  URL there is no secondary.  Submissions are limited exactly when a rate limit file is configured, by the limits of that
  file, with nothing counted yet and the test domain banned unless it is allowed.
\<close>

theorem primary_starts_as_configured:
  assumes "primary_startup E decode getopt env argv now fs w = (fs', w', Ok (conf, ws, n))"
  defines "rs \<equiv> sm_replicationState (pn_Stateman n)" and "db \<equiv> backend_client (se_codec E) (se_merkle E) (pn_backend n)"
  shows "primary_config decode getopt (se_faults E) fs env argv = Ok conf
    \<and> (\<exists>sign. se_ReadPrivateKeyFile E (KeyFile conf) = Ok (pn_publicKey n, sign))
    \<and> sm_public (pn_Stateman n) = pn_publicKey n \<and> sth_name (sm_sthFile (pn_Stateman n)) = SthFile (cfg_Primary conf)
    \<and> (Backend conf = ''ephemeral'' \<and> pn_backend n = EphemeralBackend
       \<or> Backend conf = ''trillian'' \<and> (\<exists>c. pn_backend n = TrillianBackend c
            \<and> se_Dial E (TrillianRpcServer conf) (Timeout conf) = Ok (logClient c)
            \<and> readTreeId (os_Open (se_faults E) fs) (se_GetInt E) (TrillianTreeIDFile conf) = Ok (treeID c)
            \<and> se_GetTree E (logClient c) (treeID c) (st_net w) = Ok LOG))
    \<and> DbClient (pn_node n) = db \<and> MaxRange (pn_node n) = cfg_MaxRange (cfg_Primary conf)
    \<and> TokenVerifier (pn_node n) = Some (se_DnsVerifier E (pn_publicKey n))
    \<and> rs_primary rs = \<lparr>pt_GetTreeHead = db_GetTreeHead db, pt_GetConsistencyProof = db_GetConsistencyProof db\<rparr>
    \<and> (if PolicyFile (cfg_Primary conf) = '''' then ws = [] else se_ReadPolicyFile E (PolicyFile (cfg_Primary conf)) = Ok ws)
    \<and> (SecondaryURL (cfg_Primary conf) \<noteq> '''' \<and> SecondaryPubkeyFile (cfg_Primary conf) \<noteq> '''' \<longrightarrow>
         rs_secondary rs = Some (se_secondary_client E (SecondaryURL (cfg_Primary conf)))
         \<and> se_ReadPublicKeyFile E (SecondaryPubkeyFile (cfg_Primary conf)) = Ok (rs_secondaryPub rs))
    \<and> (SecondaryURL (cfg_Primary conf) = '''' \<longrightarrow> rs_secondary rs = None)
    \<and> (if RateLimitFile (cfg_Primary conf) = '''' then pn_RateLimiter n = NoLimit
       else \<exists>l. pn_RateLimiter n = RateLimited l \<and> limiter_configured E fs' (cfg_Primary conf) l)"
proof -
  have start: "primary_config decode getopt (se_faults E) fs env argv = Ok conf"
      "configuredWitnesses E (PolicyFile (cfg_Primary conf)) = Ok ws"
      "setupPrimaryFromFlags E conf now fs w = (fs', w', Ok n)"
    using primary_startup_OkE [OF assms(1)] by blast+
  obtain sign w1 secPub sec where ok:
    "se_ReadPrivateKeyFile E (KeyFile conf) = Ok (pn_publicKey n, sign)"
    "setup_backend E PrimaryTree conf fs w = (w1, Ok (pn_backend n))"
    "setup_secondary_client E conf = Ok (secPub, sec)"
    "NewStateManagerSingle (se_HashBytes E) (se_sth E) (se_safefile E) (se_faults E) sign (pn_publicKey n)
       (primary_replication db secPub sec) (SthFile (cfg_Primary conf)) fs w1 = (fs', w', Ok (pn_Stateman n))"
    "setup_limiter E conf fs' now = Ok (pn_RateLimiter n)" "DbClient (pn_node n) = db"
    "MaxRange (pn_node n) = cfg_MaxRange (cfg_Primary conf)" "TokenVerifier (pn_node n) = Some (se_DnsVerifier E (pn_publicKey n))"
    using setupPrimary_OkE [OF start(3)] unfolding db_def by metis
  have sm: "rs = primary_replication db secPub sec" "sm_public (pn_Stateman n) = pn_publicKey n"
      "sth_name (sm_sthFile (pn_Stateman n)) = SthFile (cfg_Primary conf)"
    unfolding rs_def using NewStateManagerSingle_manager [OF ok(4)] by (auto simp: new_manager_def)
  have "if PolicyFile (cfg_Primary conf) = '''' then ws = [] else se_ReadPolicyFile E (PolicyFile (cfg_Primary conf)) = Ok ws"
    using start(2) by (auto simp: configuredWitnesses_def split: if_splits)
  moreover have "(SecondaryURL (cfg_Primary conf) \<noteq> '''' \<and> SecondaryPubkeyFile (cfg_Primary conf) \<noteq> '''' \<longrightarrow>
         rs_secondary rs = Some (se_secondary_client E (SecondaryURL (cfg_Primary conf)))
         \<and> se_ReadPublicKeyFile E (SecondaryPubkeyFile (cfg_Primary conf)) = Ok (rs_secondaryPub rs))
      \<and> (SecondaryURL (cfg_Primary conf) = '''' \<longrightarrow> rs_secondary rs = None)"
    using setup_secondary_client_Ok [OF ok(3)] unfolding sm(1) primary_replication_def by simp
  moreover have "rs_primary rs = \<lparr>pt_GetTreeHead = db_GetTreeHead db, pt_GetConsistencyProof = db_GetConsistencyProof db\<rparr>"
    unfolding sm(1) primary_replication_def by simp
  moreover have "Backend conf = ''ephemeral'' \<and> pn_backend n = EphemeralBackend
       \<or> Backend conf = ''trillian'' \<and> (\<exists>c. pn_backend n = TrillianBackend c
            \<and> se_Dial E (TrillianRpcServer conf) (Timeout conf) = Ok (logClient c)
            \<and> readTreeId (os_Open (se_faults E) fs) (se_GetInt E) (TrillianTreeIDFile conf) = Ok (treeID c)
            \<and> se_GetTree E (logClient c) (treeID c) (st_net w) = Ok LOG)"
    using setup_backend_Ok [OF ok(2)] by auto
  ultimately show ?thesis using start(1) ok(1,6-8) sm(2,3) setup_limiter_Ok [OF ok(5)] by blast
qed

text \<open>
  C36: Each node runs on a tree of its own kind.  On a Trillian backend the tree of a primary is a plain log and that of a
  secondary a pre-ordered log when the node starts; a tree of another type is refused.  So the same tree of the same service
  is only ever used in both roles if its type was changed in between, as it is for a failover.
\<close>

theorem tree_shared_only_after_conversion:
  assumes "setupPrimaryFromFlags E conf1 now fs1 w1 = (fs1', w1', Ok p)"
    and "setupSecondaryFromFlags E conf2 fs2 w2 = (w2', Ok s)"
    and "pn_backend p = TrillianBackend c1" and "sn_backend s = TrillianBackend c2"
  shows "se_GetTree E (logClient c1) (treeID c1) (st_net w1) = Ok LOG
    \<and> se_GetTree E (logClient c2) (treeID c2) (st_net w2) = Ok PREORDERED_LOG
    \<and> (logClient c1 = logClient c2 \<and> treeID c1 = treeID c2 \<longrightarrow>
         se_GetTree E (logClient c1) (treeID c1) (st_net w1) \<noteq> se_GetTree E (logClient c1) (treeID c1) (st_net w2))"
proof -
  obtain w1a where b1: "setup_backend E PrimaryTree conf1 fs1 w1 = (w1a, Ok (pn_backend p))"
    using setupPrimary_OkE [OF assms(1)] by metis
  have b2: "\<exists>w2a. setup_backend E SecondaryTree conf2 fs2 w2 = (w2a, Ok (sn_backend s))"
    using assms(2) by (auto simp: setupSecondaryFromFlags_def split: result.splits prod.splits)
  have "se_GetTree E (logClient c1) (treeID c1) (st_net w1) = Ok LOG"
    using setup_backend_Ok [OF b1] assms(3) by auto
  moreover have "se_GetTree E (logClient c2) (treeID c2) (st_net w2) = Ok PREORDERED_LOG"
    using b2 setup_backend_Ok assms(4) by (fastforce simp: PrimaryTree_def SecondaryTree_def)
  ultimately show ?thesis by auto
qed

lemma mktree_writes:
  assumes "faults_ok flt" and "mktree_main flt name mode fs = (fs1, Ok ())" and "mode \<noteq> StartupSaved"
  shows "fs name = None \<and> fs (name @ StartupFileSuffix) = None
    \<and> fs1 = fs(name @ StartupFileSuffix \<mapsto> (if mode = StartupEmpty then ''startup=empty'' else ''startup=local-tree''))"
  using assms checkNotExists_Ok [OF assms(1)]
  by (cases mode) (auto simp: mktree_main_def Let_def writeStartupFile_def split: result.splits option.splits prod.splits)

lemma startup_mode:
  assumes "faults_ok flt" and "sthFile_Startup flt \<lparr>sth_name = name\<rparr> fs = Ok m"
    and "fs (name @ StartupFileSuffix) = Some (if mode = StartupEmpty then ''startup=empty'' else ''startup=local-tree'')"
    and "mode \<noteq> StartupSaved"
  shows "m = mode"
proof -
  have "os_Open flt fs (startupFileName \<lparr>sth_name = name\<rparr>) = Ok (if mode = StartupEmpty then ''startup=empty'' else ''startup=local-tree'')
    \<or> (\<exists>e. os_Open flt fs (startupFileName \<lparr>sth_name = name\<rparr>) = Err e \<and> \<not> errors_Is_NotExist e)"
    using assms(1,3) by (auto simp: os_Open_def startupFileName_def faults_ok_def split: option.splits)
  then show ?thesis
    using assms(2,4) by (cases mode) (auto simp: sthFile_Startup_def parseStartupFile_modes split: if_splits)
qed

lemma start_empty:
  assumes codec: "sth_codec_ok sp" and sf: "safefile_ok sf" and sign: "sign_ok sp pub sign" and H: "length (H []) = HashSize"
    and flt: "faults_ok flt"
    and fs: "fs (name @ StartupFileSuffix) = Some ''startup=empty''" "fs name = None"
    and start: "NewStateManagerSingle H sp sf flt sign pub rs name fs w = (fs', w', Ok sm)"
  shows "\<exists>sth. sm = new_manager H pub \<lparr>sth_name = name\<rparr> rs sth \<and> sth_TreeHead sth = \<lparr>Size = 0, RootHash = H []\<rparr>
    \<and> w' = w \<and> fs' = (fs(name @ StartupFileSuffix := None))(name \<mapsto> sth_ToASCII sp sth)
    \<and> sth_FromASCII sp (sth_ToASCII sp sth) = Ok sth"
proof -
  let ?f = "\<lparr>sth_name = name\<rparr>" and ?th = "\<lparr>Size = 0, RootHash = H []\<rparr>"
  have "\<exists>m. sthFile_Startup flt ?f fs = Ok m"
    using start by (auto simp: NewStateManagerSingle_def Let_def split: result.splits)
  then have mode: "sthFile_Startup flt ?f fs = Ok StartupEmpty"
    using startup_mode [OF flt, of name fs _ StartupEmpty] fs(1) by auto
  obtain sth where sth: "sign ?th = Ok sth" "sthFile_Create sp sf flt ?f sth fs = (fs', Ok ())" "w' = w"
      "sm = new_manager H pub ?f rs sth"
    using start unfolding NewStateManagerSingle_def Let_def mode
    by (auto simp: bind_result_Ok_iff split: result.splits prod.splits)
  have head: "sth_TreeHead sth = ?th" "length (sth_Signature sth) = SignatureSize" using sign sth(1) by (auto simp: sign_ok_def)
  then have "sth_wf sth" using H by (simp add: sth_wf_def capacity_def)
  then have "sth_FromASCII sp (sth_ToASCII sp sth) = Ok sth" using codec by (simp add: sth_codec_ok_def)
  then show ?thesis
    using sthFile_Create_cases [OF sf flt sth(2)] sth head(1) by (auto simp: startupFileName_def)
qed

lemma start_local:
  assumes codec: "sth_codec_ok sp" and sf: "safefile_ok sf" and sign: "sign_ok sp pub sign" and flt: "faults_ok flt"
    and fs: "fs (name @ StartupFileSuffix) = Some ''startup=local-tree''"
    and start: "NewStateManagerSingle H sp sf flt sign pub rs name fs w = (fs', w', Ok sm)"
  shows "\<exists>sth th. sm = new_manager H pub \<lparr>sth_name = name\<rparr> rs sth \<and> pt_GetTreeHead (rs_primary rs) w = (w', Ok th)
    \<and> sth_TreeHead sth = th \<and> sth_Verify sp pub sth \<and> fs name = None
    \<and> fs' = (fs(name @ StartupFileSuffix := None))(name \<mapsto> sth_ToASCII sp sth)"
proof -
  let ?f = "\<lparr>sth_name = name\<rparr>"
  have "\<exists>m. sthFile_Startup flt ?f fs = Ok m"
    using start by (auto simp: NewStateManagerSingle_def Let_def split: result.splits)
  then have mode: "sthFile_Startup flt ?f fs = Ok StartupLocalTree"
    using startup_mode [OF flt, of name fs _ StartupLocalTree] fs by auto
  obtain th sth where sth: "pt_GetTreeHead (rs_primary rs) w = (w', Ok th)" "sign th = Ok sth"
      "sthFile_Create sp sf flt ?f sth fs = (fs', Ok ())" "sm = new_manager H pub ?f rs sth"
    using start unfolding NewStateManagerSingle_def Let_def mode
    by (auto simp: bind_result_Ok_iff split: result.splits prod.splits)
  then show ?thesis
    using sign sthFile_Create_cases [OF sf flt sth(3)] by (auto simp: sign_ok_def startupFileName_def)
qed

lemma start_saved:
  assumes flt: "faults_ok flt" and fs: "fs (name @ StartupFileSuffix) = None" "fs name = Some (sth_ToASCII sp sth)"
    and codec: "sth_FromASCII sp (sth_ToASCII sp sth) = Ok sth"
    and start: "NewStateManagerSingle H sp sf flt sign pub rs name fs w = (fs', w', Ok sm)"
  shows "sm = new_manager H pub \<lparr>sth_name = name\<rparr> rs sth \<and> fs' = fs"
proof -
  let ?f = "\<lparr>sth_name = name\<rparr>"
  have mode: "sthFile_Startup flt ?f fs = Ok StartupSaved"
    using start fs(1) flt
    by (cases "flt_open flt (startupFileName ?f)")
      (auto simp: NewStateManagerSingle_def Let_def sthFile_Startup_def os_Open_def startupFileName_def faults_ok_def)
  have "fs' = fs" "\<exists>sth'. sthFile_Load sp flt ?f pub fs = Ok sth' \<and> sm = new_manager H pub ?f rs sth'"
    using start unfolding NewStateManagerSingle_def Let_def mode by (auto simp: bind_result_Ok_iff)
  moreover have "sth' = sth" if "sthFile_Load sp flt ?f pub fs = Ok sth'" for sth'
    using that fs(2) codec by (auto simp: sthFile_Load_def os_Open_def split: option.splits result.splits if_splits)
  ultimately show ?thesis by auto
qed

text \<open>
  C25: From \<open>sigsum-mktree\<close> over the first start of the primary to every restart.  After the tool has prepared an
  empty log and the primary has started, the log is committed to the signed head of the empty tree,
  the only change on disk is that this head is in its file, and starting again gives the same signed
  tree head and changes nothing.
\<close>

theorem first_start_and_restart:
  fixes E :: "('s, 't, 'n) setup_env" and conf :: ServerConfig
  defines "name \<equiv> SthFile (cfg_Primary conf)"
  assumes codec: "sth_codec_ok (se_sth E)" and sf: "safefile_ok (se_safefile E)" and flt: "faults_ok (se_faults E)"
    and H: "length (se_HashBytes E []) = HashSize"
    and signer: "\<And>pub sign. se_ReadPrivateKeyFile E (KeyFile conf) = Ok (pub, sign) \<Longrightarrow> sign_ok (se_sth E) pub sign"
    and tool: "bind_result (file_config decode (se_faults E) fs env) (mktree_ParseFlags flags argv) = Ok (mconf, StartupEmpty)"
      "SthFile (cfg_Primary mconf) = name"
      "mktree_program decode flags (se_faults E) env argv fs = (fs1, Ok ())"
    and start: "setupPrimaryFromFlags E conf now fs1 w = (fs2, w2, Ok n)"
    and restart: "setupPrimaryFromFlags E conf now' fs2 w3 = (fs3, w4, Ok n')"
  shows "sth_TreeHead (SignedTreeHead_of (pn_Stateman n)) = \<lparr>Size = 0, RootHash = se_HashBytes E []\<rparr>
    \<and> fs2 = fs(name \<mapsto> sth_ToASCII (se_sth E) (SignedTreeHead_of (pn_Stateman n)))
    \<and> SignedTreeHead_of (pn_Stateman n') = SignedTreeHead_of (pn_Stateman n) \<and> fs3 = fs2"
proof -
  have tool': "mktree_main (se_faults E) name StartupEmpty fs = (fs1, Ok ())"
    using tool by (simp add: mktree_program_def)
  note disk = mktree_writes [OF flt tool']
  obtain sign w1 secPub sec where s:
    "se_ReadPrivateKeyFile E (KeyFile conf) = Ok (pn_publicKey n, sign)"
    "NewStateManagerSingle (se_HashBytes E) (se_sth E) (se_safefile E) (se_faults E) sign (pn_publicKey n)
       (primary_replication (backend_client (se_codec E) (se_merkle E) (pn_backend n)) secPub sec) name fs1 w1
     = (fs2, w2, Ok (pn_Stateman n))"
    using setupPrimary_OkE [OF start] unfolding name_def by metis
  obtain sth where sth: "sm_signedTreeHead (pn_Stateman n) = sth" "sth_TreeHead sth = \<lparr>Size = 0, RootHash = se_HashBytes E []\<rparr>"
      "fs2 = (fs1(name @ StartupFileSuffix := None))(name \<mapsto> sth_ToASCII (se_sth E) sth)"
      "sth_FromASCII (se_sth E) (sth_ToASCII (se_sth E) sth) = Ok sth"
    using start_empty [where H = "se_HashBytes E", OF codec sf signer [OF s(1)] H flt _ _ s(2)] disk
    by (auto simp: new_manager_def StartupFileSuffix_def)
  have fs2: "fs2 = fs(name \<mapsto> sth_ToASCII (se_sth E) sth)"
    using sth(3) disk by (auto simp: fun_eq_iff)
  obtain sign' w1' secPub' sec' where s':
    "NewStateManagerSingle (se_HashBytes E) (se_sth E) (se_safefile E) (se_faults E) sign' (pn_publicKey n')
       (primary_replication (backend_client (se_codec E) (se_merkle E) (pn_backend n')) secPub' sec') name fs2 w1'
     = (fs3, w4, Ok (pn_Stateman n'))"
    using setupPrimary_OkE [OF restart] unfolding name_def by metis
  have "fs2 (name @ StartupFileSuffix) = None" "fs2 name = Some (sth_ToASCII (se_sth E) sth)"
    using fs2 disk by (auto simp: StartupFileSuffix_def)
  from start_saved [OF flt this sth(4) s'] have "sm_signedTreeHead (pn_Stateman n') = sth" "fs3 = fs2"
    by (auto simp: new_manager_def)
  then show ?thesis using sth(1,2) fs2 by (simp add: SignedTreeHead_of_def)
qed

text \<open>
  A backend name other than \<open>trillian\<close> and \<open>ephemeral\<close> is refused by both nodes before anything
  is written or connected.
\<close>

theorem unknown_backend_refused:
  assumes "Backend conf \<noteq> ''trillian''" and "Backend conf \<noteq> ''ephemeral''"
    and "se_ReadPrivateKeyFile E (KeyFile conf) = Ok signer"
  shows "setupPrimaryFromFlags E conf now fs w = (fs, w, Err (Errorf ''unknown backend''))
    \<and> setupSecondaryFromFlags E conf fs w = (w, Err (Errorf ''unknown backend''))"
  using assms by (cases signer) (simp add: setupPrimaryFromFlags_def setupSecondaryFromFlags_def setup_backend_def)

section \<open>Concrete nodes\<close>

definition sample_setup_env :: "(Leaf list, hash list, unit) setup_env" where
  "sample_setup_env = \<lparr>
     se_codec = concat_codec, se_merkle = list_merkle, se_HashBytes = copy_array 32, se_sth = sample_sth_pkg,
     se_safefile = sample_safefile, se_faults = no_faults, se_norm = Ok,
     se_ReadPrivateKeyFile = \<lambda>f. Ok (''key'', sample_sign ''key''), se_ReadPublicKeyFile = \<lambda>f. Ok ''sec'',
     se_GetInt = \<lambda>d k. Ok (of_nat (length d)),
     se_Dial = \<lambda>target timeout. Ok (sample_trillian concat_codec list_merkle_spec),
     se_GetTree = \<lambda>conn i s. Ok (if i = 1 \<and> s \<noteq> sample_log then LOG else PREORDERED_LOG),
     se_secondary_client = \<lambda>url w. (w, Err (ExtError ''unreachable'')),
     se_primary_client = \<lambda>url req w. (w, Err (ExtError ''unreachable'')),
     se_DnsVerifier = \<lambda>pub h. None, se_ReadPolicyFile = \<lambda>f. Ok [],
     se_SetLogFile = \<lambda>f. None, se_SetLevelFromString = \<lambda>l. None\<rparr>"

definition sample_store :: "(Leaf list, hash list) store" where
  "sample_store = \<lparr>st_net = [], st_memory = NewMemoryDb list_merkle\<rparr>"

abbreviation (input) sample_sth_name :: string where
  "sample_sth_name \<equiv> ''/var/lib/sigsum-log/sth''"

definition sample_node_disk :: fsys where
  "sample_node_disk = [''/var/lib/sigsum-log/tree-id'' \<mapsto> ''1'', ''/etc/secondary-tree-id'' \<mapsto> ''22'']"

definition sample_node :: "SignedTreeHead \<Rightarrow> (Leaf list, hash list) PrimaryNode" where
  "sample_node sth = \<lparr>pn_publicKey = ''key'', pn_backend = TrillianBackend (sample_client\<lparr>treeID := 1\<rparr>),
     pn_node = \<lparr>MaxRange = 10, DbClient = backend_client concat_codec list_merkle (TrillianBackend (sample_client\<lparr>treeID := 1\<rparr>)),
       TokenVerifier = Some (\<lambda>h. None), AccessAllowed = RateLimiter_AccessAllowed Ok, call_relax = RateLimiter_relax\<rparr>,
     pn_Stateman = new_manager (copy_array 32) ''key'' \<lparr>sth_name = sample_sth_name\<rparr>
       (primary_replication (backend_client concat_codec list_merkle (TrillianBackend (sample_client\<lparr>treeID := 1\<rparr>)))
          (replicate 32 (CHR 0x00)) None) sth,
     pn_RateLimiter = NoLimit\<rparr>"

abbreviation (input) sample_start_sth :: SignedTreeHead where
  "sample_start_sth \<equiv> \<lparr>sth_TreeHead = \<lparr>Size = 0, RootHash = copy_array 32 []\<rparr>, sth_Signature = copy_array 64 ''key''\<rparr>"

abbreviation (input) sample_started :: "(Leaf list, hash list) PrimaryNode" where
  "sample_started \<equiv> sample_node sample_start_sth"

lemma sample_mktree:
  "bind_result (file_config (sample_toml (\<lambda>f. None)) no_faults sample_node_disk None) (mktree_ParseFlags (\<lambda>argv. Ok (None, None)) [])
     = Ok (NewConfig, StartupEmpty)"
  "mktree_program (sample_toml (\<lambda>f. None)) (\<lambda>argv. Ok (None, None)) no_faults None [] sample_node_disk
     = (sample_node_disk(''/var/lib/sigsum-log/sth.startup'' \<mapsto> ''startup=empty''), Ok ())"
proof -
  show conf: "bind_result (file_config (sample_toml (\<lambda>f. None)) no_faults sample_node_disk None) (mktree_ParseFlags (\<lambda>argv. Ok (None, None)) [])
     = Ok (NewConfig, StartupEmpty)"
    by (simp add: file_config_def OpenConfigFile_def os_Open_def no_faults_def sample_node_disk_def mktree_ParseFlags_def mktree_mode_def)
  show "mktree_program (sample_toml (\<lambda>f. None)) (\<lambda>argv. Ok (None, None)) no_faults None [] sample_node_disk
     = (sample_node_disk(''/var/lib/sigsum-log/sth.startup'' \<mapsto> ''startup=empty''), Ok ())"
    unfolding mktree_program_def conf
    by (simp add: mktree_main_def checkNotExists_def os_Stat_def writeStartupFile_def no_faults_def
        sample_node_disk_def NewConfig_def StartupFileSuffix_def Let_def)
qed

abbreviation (input) sample_disk_after :: fsys where
  "sample_disk_after \<equiv> sample_node_disk(sample_sth_name \<mapsto> sth_ToASCII sample_sth_pkg sample_start_sth)"

lemma sample_setup_rest:
  assumes "NewStateManagerSingle (copy_array 32) sample_sth_pkg sample_safefile no_faults (sample_sign ''key'') ''key''
      (sm_replicationState (pn_Stateman (sample_node sth))) sample_sth_name fs st = (fs', st', Ok (pn_Stateman (sample_node sth)))"
    and "fs ''/var/lib/sigsum-log/tree-id'' = Some ''1''" and "st_net st \<noteq> sample_log"
  shows "setupPrimaryFromFlags sample_setup_env NewConfig now fs st = (fs', st', Ok (sample_node sth))"
proof -
  have b: "setup_backend sample_setup_env PrimaryTree NewConfig fs st
      = (st, Ok (TrillianBackend (sample_client\<lparr>treeID := 1\<rparr>)))"
    using assms(2,3) by (simp add: setup_backend_def sample_setup_env_def NewConfig_def DialTrillian_def readTreeId_def os_Open_def no_faults_def
        checkTrillianTreeType_def sample_client_def)
  have c: "setup_secondary_client sample_setup_env NewConfig = Ok (replicate 32 (CHR 0x00), None)"
      "setup_limiter sample_setup_env NewConfig fs' now = Ok NoLimit"
    by (simp_all add: setup_secondary_client_def setup_limiter_def NewConfig_def)
  show ?thesis
    unfolding setupPrimaryFromFlags_def
    using assms(1) b c
    by (simp add: sample_setup_env_def NewConfig_def sample_node_def new_manager_def Let_def)
qed

lemma sample_start:
  "setupPrimaryFromFlags sample_setup_env NewConfig now (sample_node_disk(''/var/lib/sigsum-log/sth.startup'' \<mapsto> ''startup=empty'')) sample_store
   = (sample_disk_after, sample_store, Ok sample_started)"
  by (rule sample_setup_rest)
    (simp_all add: NewStateManagerSingle_def sthFile_Startup_def startupFileName_def StartupFileSuffix_def parseStartupFile_modes Let_def
      os_Open_def no_faults_def sample_sign_def sthFile_Create_def sample_safefile_def os_Remove_def sample_node_def sample_node_disk_def
      new_manager_def fun_eq_iff sample_store_def sample_log_def)

lemma sample_restart:
  "setupPrimaryFromFlags sample_setup_env NewConfig now sample_disk_after sample_store = (sample_disk_after, sample_store, Ok sample_started)"
proof (rule sample_setup_rest)
  have "sth_wf sample_start_sth" by (simp add: sth_wf_def capacity_def)
  then have "sth_FromASCII sample_sth_pkg (sth_ToASCII sample_sth_pkg sample_start_sth) = Ok sample_start_sth"
    using sth_codec_ok_sample by (simp add: sth_codec_ok_def)
  moreover have "sth_Verify sample_sth_pkg ''key'' sample_start_sth" by (simp add: sample_sth_pkg_def)
  ultimately show "NewStateManagerSingle (copy_array 32) sample_sth_pkg sample_safefile no_faults (sample_sign ''key'') ''key''
      (sm_replicationState (pn_Stateman sample_started)) sample_sth_name sample_disk_after sample_store
      = (sample_disk_after, sample_store, Ok (pn_Stateman sample_started))"
    by (simp add: NewStateManagerSingle_def sthFile_Startup_def startupFileName_def StartupFileSuffix_def Let_def sthFile_Load_def
      os_Open_def no_faults_def sample_node_def sample_node_disk_def new_manager_def)
qed (simp_all add: sample_node_disk_def sample_store_def sample_log_def)

lemma sample_saved:
  "NewStateManagerSingle (copy_array 32) sample_sth_pkg sample_safefile no_faults (sample_sign ''key'') ''key'' rs sample_sth_name
     (sample_disk_after(f \<mapsto> d)) w
   = (sample_disk_after(f \<mapsto> d), w, Ok (new_manager (copy_array 32) ''key'' \<lparr>sth_name = sample_sth_name\<rparr> rs sample_start_sth))"
  if "f \<noteq> sample_sth_name" "f \<noteq> sample_sth_name @ StartupFileSuffix"
proof -
  have "sth_wf sample_start_sth" by (simp add: sth_wf_def capacity_def)
  then have "sth_FromASCII sample_sth_pkg (sth_ToASCII sample_sth_pkg sample_start_sth) = Ok sample_start_sth"
    using sth_codec_ok_sample by (simp add: sth_codec_ok_def)
  moreover have "sth_Verify sample_sth_pkg ''key'' sample_start_sth" by (simp add: sample_sth_pkg_def)
  ultimately show ?thesis
    using that by (simp add: NewStateManagerSingle_def sthFile_Startup_def startupFileName_def StartupFileSuffix_def Let_def sthFile_Load_def
      os_Open_def no_faults_def sample_node_disk_def)
qed

text \<open>A primary with a secondary and a rate limit, configured on the command line.\<close>

definition sample_flags :: "(string \<times> conf_value) list" where
  "sample_flags = [(''secondary-url'', VString ''http://sec''), (''secondary-pubkey-file'', VString ''/etc/sec.pub''),
     (''rate-limit-file'', VString ''/etc/limits'')]"

definition sample_full_config :: ServerConfig where
  "sample_full_config = NewConfig\<lparr>cfg_Primary := (cfg_Primary NewConfig)
     \<lparr>RateLimitFile := ''/etc/limits'', SecondaryURL := ''http://sec'', SecondaryPubkeyFile := ''/etc/sec.pub''\<rparr>\<rparr>"

lemma sample_full_env:
  "se_faults sample_setup_env = no_faults"
  "LogFile sample_full_config = []"
  "se_SetLevelFromString sample_setup_env (LogLevel sample_full_config) = None"
  "configuredWitnesses sample_setup_env (PolicyFile (cfg_Primary sample_full_config)) = Ok []"
  by (simp_all add: sample_setup_env_def sample_full_config_def NewConfig_def configuredWitnesses_def)

lemma sample_full_startup:
  "\<exists>n. primary_startup sample_setup_env (sample_toml (\<lambda>f. None)) (sample_getopt (\<lambda>tbl argv. Some sample_flags)) None [] 0
     (sample_disk_after(''/etc/limits'' \<mapsto> [])) sample_store
   = (sample_disk_after(''/etc/limits'' \<mapsto> []), sample_store, Ok (sample_full_config, [], n))"
proof -
  let ?fs = "sample_disk_after(''/etc/limits'' \<mapsto> [])"
  have conf: "primary_config (sample_toml (\<lambda>f. None)) (sample_getopt (\<lambda>tbl argv. Some sample_flags)) no_faults ?fs None [] = Ok sample_full_config"
    by (simp add: primary_config_def file_config_def OpenConfigFile_def os_Open_def no_faults_def sample_node_disk_def sample_flags_def
        sample_getopt_def flag_writes_def List.map_filter_simps ServerFlags_def primary_ParseFlags_def sample_full_config_def NewConfig_def)
  have b: "setup_backend sample_setup_env PrimaryTree sample_full_config ?fs sample_store
      = (sample_store, Ok (TrillianBackend (sample_client\<lparr>treeID := 1\<rparr>)))"
    by (simp add: setup_backend_def sample_setup_env_def sample_full_config_def NewConfig_def DialTrillian_def readTreeId_def os_Open_def
        no_faults_def checkTrillianTreeType_def sample_client_def sample_store_def sample_node_disk_def sample_log_def)
  have c: "setup_secondary_client sample_setup_env sample_full_config
      = Ok (''sec'', Some (se_secondary_client sample_setup_env ''http://sec''))"
    by (simp add: setup_secondary_client_def sample_full_config_def NewConfig_def sample_setup_env_def)
  obtain l where l: "setup_limiter sample_setup_env sample_full_config ?fs 0 = Ok l"
    by (simp add: setup_limiter_def sample_full_config_def NewConfig_def sample_setup_env_def os_Open_def no_faults_def NewLimiter_def
        newLimiter_def ParseConfig_def scan_lines_def raw_lines.simps empty_Config_def)
  have k: "se_ReadPrivateKeyFile sample_setup_env f = Ok (''key'', sample_sign ''key'')" for f by (simp add: sample_setup_env_def)
  have m: "\<exists>sm. NewStateManagerSingle (se_HashBytes sample_setup_env) (se_sth sample_setup_env) (se_safefile sample_setup_env)
      (se_faults sample_setup_env) (sample_sign ''key'') ''key'' rs (SthFile (cfg_Primary sample_full_config)) ?fs w = (?fs, w, Ok sm)" for rs w
    using sample_saved [of "''/etc/limits''" rs "[]" w]
    by (simp add: sample_setup_env_def sample_full_config_def NewConfig_def StartupFileSuffix_def)
  obtain sm where "NewStateManagerSingle (se_HashBytes sample_setup_env) (se_sth sample_setup_env) (se_safefile sample_setup_env)
      (se_faults sample_setup_env) (sample_sign ''key'') ''key''
      (primary_replication (backend_client (se_codec sample_setup_env) (se_merkle sample_setup_env) (TrillianBackend (sample_client\<lparr>treeID := 1\<rparr>)))
         ''sec'' (Some (se_secondary_client sample_setup_env ''http://sec'')))
      (SthFile (cfg_Primary sample_full_config)) ?fs sample_store = (?fs, sample_store, Ok sm)" by (rule exE [OF m])
  then have "\<exists>n. setupPrimaryFromFlags sample_setup_env sample_full_config 0 ?fs sample_store = (?fs, sample_store, Ok n)"
    unfolding setupPrimaryFromFlags_def using k b c l by (simp add: Let_def)
  then obtain n where n: "setupPrimaryFromFlags sample_setup_env sample_full_config 0 ?fs sample_store = (?fs, sample_store, Ok n)" by blast
  have "primary_startup sample_setup_env (sample_toml (\<lambda>f. None)) (sample_getopt (\<lambda>tbl argv. Some sample_flags)) None [] 0 ?fs sample_store
      = (?fs, sample_store, Ok (sample_full_config, [], n))"
    unfolding primary_startup_def sample_full_env(1) conf using n sample_full_env by simp
  then show ?thesis by blast
qed

theorem primary_starts_as_configured_witness:
  "\<exists>n. rs_secondaryPub (sm_replicationState (pn_Stateman n)) = ''sec''
     \<and> primary_startup sample_setup_env (sample_toml (\<lambda>f. None)) (sample_getopt (\<lambda>tbl argv. Some sample_flags)) None [] 0
         (sample_disk_after(''/etc/limits'' \<mapsto> [])) sample_store
       = (sample_disk_after(''/etc/limits'' \<mapsto> []), sample_store, Ok (sample_full_config, [], n))
     \<and> (\<exists>l. pn_RateLimiter n = RateLimited l \<and> allowedDomains l = [ToLower testDomain \<mapsto> 0])"
proof -
  obtain n where n: "primary_startup sample_setup_env (sample_toml (\<lambda>f. None)) (sample_getopt (\<lambda>tbl argv. Some sample_flags)) None [] 0
         (sample_disk_after(''/etc/limits'' \<mapsto> [])) sample_store
       = (sample_disk_after(''/etc/limits'' \<mapsto> []), sample_store, Ok (sample_full_config, [], n))"
    using sample_full_startup by blast
  have "rs_secondaryPub (sm_replicationState (pn_Stateman n)) = ''sec''"
    using primary_starts_as_configured [OF n] by (auto simp: sample_full_config_def NewConfig_def sample_setup_env_def)
  moreover have "\<exists>l. pn_RateLimiter n = RateLimited l \<and> allowedDomains l = [ToLower testDomain \<mapsto> 0]"
    using primary_starts_as_configured [OF n]
    by (auto simp: sample_full_config_def NewConfig_def sample_setup_env_def limiter_configured_def os_Open_def no_faults_def
        ParseConfig_def scan_lines_def raw_lines.simps empty_Config_def)
  ultimately show ?thesis using n by blast
qed

text \<open>The tree of a secondary that was converted and then serves a primary.\<close>

theorem tree_shared_only_after_conversion_witness:
  "\<exists>w s. setupSecondaryFromFlags sample_setup_env NewConfig sample_node_disk (sample_store\<lparr>st_net := sample_log\<rparr>) = (w, Ok s)
     \<and> sn_backend s = pn_backend sample_started
     \<and> se_GetTree sample_setup_env (logClient sample_client) 1 [] \<noteq> se_GetTree sample_setup_env (logClient sample_client) 1 sample_log"
proof -
  obtain w s where s: "setupSecondaryFromFlags sample_setup_env NewConfig sample_node_disk (sample_store\<lparr>st_net := sample_log\<rparr>) = (w, Ok s)"
      "sn_backend s = TrillianBackend (sample_client\<lparr>treeID := 1\<rparr>)"
    by (simp add: setupSecondaryFromFlags_def sample_setup_env_def NewConfig_def setup_backend_def DialTrillian_def readTreeId_def os_Open_def
        no_faults_def checkTrillianTreeType_def sample_node_disk_def PrimaryTree_def SecondaryTree_def sample_client_def sample_log_def)
  have p: "pn_backend sample_started = TrillianBackend (sample_client\<lparr>treeID := 1\<rparr>)" by (simp add: sample_node_def)
  from tree_shared_only_after_conversion [OF sample_restart s(1) p s(2)] show ?thesis
    using s p by (simp add: sample_store_def)
qed

theorem first_start_and_restart_witness:
  "sth_TreeHead (SignedTreeHead_of (pn_Stateman sample_started)) = \<lparr>Size = 0, RootHash = copy_array 32 []\<rparr>"
  using first_start_and_restart [of sample_setup_env NewConfig "sample_toml (\<lambda>f. None)" sample_node_disk None "\<lambda>argv. Ok (None, None)" "[]"
      NewConfig "sample_node_disk(''/var/lib/sigsum-log/sth.startup'' \<mapsto> ''startup=empty'')" 0 sample_store sample_disk_after sample_store sample_started
      1 sample_store sample_disk_after sample_store sample_started] sample_mktree sample_start sample_restart
  by (simp add: sample_setup_env_def)

theorem unknown_backend_refused_witness:
  "setupPrimaryFromFlags sample_setup_env (NewConfig\<lparr>Backend := ''mysql''\<rparr>) 0 Map.empty sample_store
   = (Map.empty, sample_store, Err (Errorf ''unknown backend''))"
  using unknown_backend_refused [of "NewConfig\<lparr>Backend := ''mysql''\<rparr>" sample_setup_env] by (simp add: sample_setup_env_def)

end
