(* ===== verification/Failover.thy ===== *)
theory Failover
  imports Server_Setup
begin

text \<open>
  Promoting the secondary (\<open>doc/failover.md\<close>): the secondary is stopped, its tree is converted into a
  plain log, \<open>sigsum-mktree\<close> prepares a start from the local tree, and the node starts as primary.
  The conversion is done by a tool of Trillian; what it promises (the leaves stay) and that Trillian's
  latest root covers all integrated leaves (\<open>latest_root\<close>) are hypotheses.
\<close>

definition latest_root :: "'s TrillianClient \<Rightarrow> 's trillian_view \<Rightarrow> bool" where
  \<comment> \<open>the latest signed root covers every leaf that was integrated when it was asked for\<close>
  "latest_root c v \<longleftrightarrow> (\<forall>s s' root lr. tv_inv v s \<longrightarrow>
     GetLatestSignedLogRoot (logClient c) (treeID c) s = (s', Some (Some (Some root)), None) \<longrightarrow>
     UnmarshalLogRoot (logClient c) root = Ok lr \<longrightarrow> length (tv_leaves v s) \<le> unat (lr_TreeSize lr))"

lemma latest_root_head:
  assumes "latest_root c v" and "tv_inv v s" and "TrillianClient_GetTreeHead c s = (s', Ok th)"
  shows "length (tv_leaves v s) \<le> unat (Size th)"
  using assms unfolding latest_root_def
  by (fastforce simp: TrillianClient_GetTreeHead_def treeHeadFromLogRoot_def split: prod.splits option.splits result.splits if_splits)

lemma promoted_head:
  \<comment> \<open>a start from the local tree signs the head that the backend reports\<close>
  assumes "faults_ok (se_faults E)" "sth_codec_ok (se_sth E)" "safefile_ok (se_safefile E)"
    and "\<And>pub sign. se_ReadPrivateKeyFile E (KeyFile conf) = Ok (pub, sign) \<Longrightarrow> sign_ok (se_sth E) pub sign"
    and main: "mktree_main (se_faults E) (SthFile (cfg_Primary conf)) StartupLocalTree fs = (fs1, Ok ())"
    and start: "setupPrimaryFromFlags E conf now fs1 st = (fs2, st2, Ok n)" "pn_backend n = TrillianBackend c"
  obtains sth where "sm_signedTreeHead (pn_Stateman n) = sth" "sth_Verify (se_sth E) (pn_publicKey n) sth"
    "fs2 = fs(SthFile (cfg_Primary conf) \<mapsto> sth_ToASCII (se_sth E) sth)"
    "TrillianClient_GetTreeHead c (st_net st) = (st_net st2, Ok (sth_TreeHead sth))"
proof -
  let ?name = "SthFile (cfg_Primary conf)"
  note disk = mktree_writes [OF assms(1) main]
  obtain sign w1 secPub sec where s:
    "se_ReadPrivateKeyFile E (KeyFile conf) = Ok (pn_publicKey n, sign)"
    "setup_backend E PrimaryTree conf fs1 st = (w1, Ok (pn_backend n))"
    "NewStateManagerSingle (se_HashBytes E) (se_sth E) (se_safefile E) (se_faults E) sign (pn_publicKey n)
       (primary_replication (backend_client (se_codec E) (se_merkle E) (pn_backend n)) secPub sec) ?name fs1 w1
     = (fs2, st2, Ok (pn_Stateman n))"
    using setupPrimary_OkE [OF start(1)] by metis
  have "w1 = st" using setup_backend_Ok [OF s(2)] start(2) by auto
  with start_local [OF assms(2,3) assms(4) [OF s(1)] assms(1) _ s(3)] disk obtain sth where n:
      "sm_signedTreeHead (pn_Stateman n) = sth" "sth_Verify (se_sth E) (pn_publicKey n) sth"
      "fs2 = fs(?name \<mapsto> sth_ToASCII (se_sth E) sth)"
      "db_GetTreeHead (backend_client (se_codec E) (se_merkle E) (pn_backend n)) st = (st2, Ok (sth_TreeHead sth))"
    by (auto simp: primary_replication_def fun_eq_iff)
  then have "TrillianClient_GetTreeHead c (st_net st) = (st_net st2, Ok (sth_TreeHead sth))"
    using start(2) by (auto simp: lift_client_def Trillian_Client_def map_prod_def split: prod.splits)
  with n that show ?thesis by blast
qed

lemma head_survives:
  \<comment> \<open>a head of the replica stays a head of what a larger head of the new log commits to\<close>
  assumes x: "is_head_of ms cd sl x" and "prefix sl nl" and "prefix sl pl" and "length sl \<le> unat N"
  shows "Size x \<le> N \<and> is_head_of ms cd (take (unat N) nl) x
    \<and> take (unat (Size x)) nl = take (unat (Size x)) pl"
proof -
  have len: "unat (Size x) \<le> length sl" using x by (simp add: is_head_of_def)
  have "prefix sl (take (unat N) nl)"
    using assms(2,4) by (metis append_eq_conv_conj prefix_def take_all take_append)
  then show ?thesis
    using is_head_of_prefix [OF x] len assms by (auto simp: prefix_def word_le_nat_alt)
qed

text \<open>
  C5: Failover loses nothing that was published.  After any run of the old log (with its two nodes interleaved in any
  way), convert the secondary's tree, prepare the node with \<open>sigsum-mktree --mode=local-tree\<close> and start it
  as primary.  Its first signed tree head carries the log's signature, is the only change on its disk, and
  is a head of its tree; it is at least as large as both tree heads the old primary had published,
  these are heads of prefixes of the tree it commits to (so the log stays consistent),
  and below them the new primary has the leaves of the old one at the same indices.
\<close>

theorem failover_preserves_log:
  fixes E :: "('s, 't, 'n) setup_env" and conf :: ServerConfig
  assumes old: "system_inv cd ms S w0" "heads_replicated cd ms S sm0 w0"
      "sm_replicationState sm0 = system_replication (ls_db cd S) (ls_sec cd S) pub"
      "list_all (round_wf cd ms S) envs" "Run sp pv envs (sm0, fs0, w0) = Ok (sm, fsp, w)"
    and node: "faults_ok (se_faults E)" "sth_codec_ok (se_sth E)" "safefile_ok (se_safefile E)"
      "\<And>pub sign. se_ReadPrivateKeyFile E (KeyFile conf) = Ok (pub, sign) \<Longrightarrow> sign_ok (se_sth E) pub sign"
    and tool: "bind_result (file_config decode (se_faults E) fs env) (mktree_ParseFlags flags argv) = Ok (mconf, StartupLocalTree)"
      "SthFile (cfg_Primary mconf) = SthFile (cfg_Primary conf)"
      "mktree_program decode flags (se_faults E) env argv fs = (fs1, Ok ())"
    and start: "setupPrimaryFromFlags E conf now fs1 st = (fs2, st2, Ok n)" "pn_backend n = TrillianBackend c"
    and converted: "trillian_inv c cd ms v (st_net st)" "latest_root c v"
      "tv_leaves v (st_net st) = tv_leaves (ls_sview S) (w_secondary w)"
  shows "\<exists>sth. SignedTreeHead_of (pn_Stateman n) = sth \<and> sth_Verify (se_sth E) (pn_publicKey n) sth
    \<and> fs2 = fs(SthFile (cfg_Primary conf) \<mapsto> sth_ToASCII (se_sth E) sth)
    \<and> is_head_of ms cd (tv_leaves v (st_net st2)) (sth_TreeHead sth)
    \<and> (\<forall>th \<in> {sth_TreeHead (SignedTreeHead_of sm), sth_TreeHead (cth_SignedTreeHead (CosignedTreeHead_of sm))}.
         Size th \<le> sth_Size sth \<and> is_head_of ms cd (take (unat (sth_Size sth)) (tv_leaves v (st_net st2))) th
         \<and> take (unat (Size th)) (tv_leaves v (st_net st2)) = take (unat (Size th)) (tv_leaves (ls_pview S) (w_primary w)))"
proof -
  let ?sl = "tv_leaves (ls_sview S) (w_secondary w)" and ?nl = "tv_leaves v (st_net st2)"
  note pub = Run_heads_replicated [OF old]
  have main: "mktree_main (se_faults E) (SthFile (cfg_Primary conf)) StartupLocalTree fs = (fs1, Ok ())"
    using tool by (simp add: mktree_program_def)
  obtain sth where n: "sm_signedTreeHead (pn_Stateman n) = sth" "sth_Verify (se_sth E) (pn_publicKey n) sth"
      "fs2 = fs(SthFile (cfg_Primary conf) \<mapsto> sth_ToASCII (se_sth E) sth)"
      "TrillianClient_GetTreeHead c (st_net st) = (st_net st2, Ok (sth_TreeHead sth))"
    using promoted_head [OF node main start] by blast
  have inv: "tv_inv v (st_net st)" using converted(1) by (simp add: trillian_inv_def)
  have new: "is_head_of ms cd ?nl (sth_TreeHead sth)" "prefix ?sl ?nl" "length ?sl \<le> unat (sth_Size sth)"
    using trillian_GetTreeHead(1,4) [OF converted(1) n(4)] latest_root_head [OF converted(2) inv n(4)] converted(3)
    by (auto simp: view_grows_def)
  then show ?thesis
    using n head_survives [OF _ new(2) pub(3) new(3)] pub(1)
    by (auto simp: heads_replicated_def SignedTreeHead_of_def CosignedTreeHead_of_def)
qed

section \<open>A concrete promotion\<close>

abbreviation (input) sample_promoted_store :: "(Leaf list, hash list) store" where
  "sample_promoted_store \<equiv> sample_store\<lparr>st_net := sample_three\<rparr>"

lemma sample_promotion:
  "mktree_program (sample_toml (\<lambda>f. None)) (\<lambda>argv. Ok (None, Some ''local-tree'')) no_faults None [] sample_node_disk
     = (sample_node_disk(''/var/lib/sigsum-log/sth.startup'' \<mapsto> ''startup=local-tree''), Ok ())"
  "bind_result (file_config (sample_toml (\<lambda>f. None)) no_faults sample_node_disk None)
     (mktree_ParseFlags (\<lambda>argv. Ok (None, Some ''local-tree'')) []) = Ok (NewConfig, StartupLocalTree)"
proof -
  show conf: "bind_result (file_config (sample_toml (\<lambda>f. None)) no_faults sample_node_disk None)
     (mktree_ParseFlags (\<lambda>argv. Ok (None, Some ''local-tree'')) []) = Ok (NewConfig, StartupLocalTree)"
    by (simp add: file_config_def OpenConfigFile_def os_Open_def no_faults_def sample_node_disk_def mktree_ParseFlags_def mktree_mode_def)
  show "mktree_program (sample_toml (\<lambda>f. None)) (\<lambda>argv. Ok (None, Some ''local-tree'')) no_faults None [] sample_node_disk
     = (sample_node_disk(''/var/lib/sigsum-log/sth.startup'' \<mapsto> ''startup=local-tree''), Ok ())"
    unfolding mktree_program_def conf
    by (simp add: mktree_main_def checkNotExists_def os_Stat_def writeStartupFile_def no_faults_def
        sample_node_disk_def NewConfig_def StartupFileSuffix_def Let_def)
qed

lemma sample_promoted_start:
  "setupPrimaryFromFlags sample_setup_env NewConfig now
     (sample_node_disk(''/var/lib/sigsum-log/sth.startup'' \<mapsto> ''startup=local-tree'')) sample_promoted_store
   = (sample_node_disk(sample_sth_name \<mapsto> sth_ToASCII sample_sth_pkg sample_three_sth), sample_promoted_store, Ok (sample_node sample_three_sth))"
proof (rule sample_setup_rest)
  have "TrillianClient_GetTreeHead (sample_client\<lparr>treeID := 1\<rparr>) sample_three = (sample_three, Ok sample_three_head)"
    by (simp add: TrillianClient_GetTreeHead_def sample_client_def sample_trillian_def list_merkle_spec_def treeHeadFromLogRoot_def)
  then have "pt_GetTreeHead (rs_primary (sm_replicationState (pn_Stateman (sample_node sample_three_sth)))) sample_promoted_store
      = (sample_promoted_store, Ok sample_three_head)"
    by (simp add: sample_node_def new_manager_def primary_replication_def lift_client_def Trillian_Client_def)
  then show "NewStateManagerSingle (copy_array 32) sample_sth_pkg sample_safefile no_faults (sample_sign ''key'') ''key''
      (sm_replicationState (pn_Stateman (sample_node sample_three_sth))) sample_sth_name
      (sample_node_disk(''/var/lib/sigsum-log/sth.startup'' \<mapsto> ''startup=local-tree'')) sample_promoted_store
    = (sample_node_disk(sample_sth_name \<mapsto> sth_ToASCII sample_sth_pkg sample_three_sth), sample_promoted_store,
       Ok (pn_Stateman (sample_node sample_three_sth)))"
    by (simp add: NewStateManagerSingle_def sthFile_Startup_def startupFileName_def StartupFileSuffix_def parseStartupFile_modes Let_def
      os_Open_def no_faults_def sample_sign_def sthFile_Create_def sample_safefile_def os_Remove_def sample_node_def sample_node_disk_def
      new_manager_def fun_eq_iff sample_three_sth_def)
qed (simp_all add: sample_node_disk_def sample_log_def)

lemma sample_latest_root:
  "trillian_inv (sample_client\<lparr>treeID := 1\<rparr>) concat_codec list_merkle_spec (sample_view concat_codec) sample_three"
  "latest_root (sample_client\<lparr>treeID := 1\<rparr>) (sample_view concat_codec)"
proof -
  show "trillian_inv (sample_client\<lparr>treeID := 1\<rparr>) concat_codec list_merkle_spec (sample_view concat_codec) sample_three"
    using trillian_ok_sample [of concat_codec list_merkle_spec 1] sample_three_inv
    by (simp add: trillian_inv_def sample_client_def list_merkle_spec_def)
  show "latest_root (sample_client\<lparr>treeID := 1\<rparr>) (sample_view concat_codec)"
    by (auto simp: latest_root_def sample_client_def sample_trillian_def list_merkle_spec_def)
qed

theorem failover_preserves_log_witness:
  "SignedTreeHead_of (pn_Stateman (sample_node sample_three_sth)) = sample_three_sth
   \<and> sth_Size (SignedTreeHead_of sample_after) \<le> sth_Size sample_three_sth"
proof -
  obtain fs' where run: "Run sample_sth_pkg (\<lambda>_ _ _. None) [sample_round] (sample_system_manager, sample_disk, sample_world)
      = Ok (sample_after, fs', \<lparr>w_primary = sample_three, w_secondary = sample_three, w_schedule = []\<rparr>)"
    using sample_system_run by blast
  have heads: "heads_replicated concat_codec list_merkle_spec sample_setup sample_system_manager sample_world"
    by (simp add: heads_replicated_def sample_system_manager_def new_manager_def sample_world_def is_head_of_def)
  have env: "faults_ok (se_faults sample_setup_env)" "sth_codec_ok (se_sth sample_setup_env)"
      "safefile_ok (se_safefile sample_setup_env)" "se_faults sample_setup_env = no_faults"
      "\<And>pub sign. se_ReadPrivateKeyFile sample_setup_env (KeyFile NewConfig) = Ok (pub, sign)
         \<Longrightarrow> sign_ok (se_sth sample_setup_env) pub sign"
    by (auto simp: sample_setup_env_def)
  have inv: "trillian_inv (sample_client\<lparr>treeID := 1\<rparr>) concat_codec list_merkle_spec (sample_view concat_codec) (st_net sample_promoted_store)"
    using sample_latest_root(1) by simp
  have "pn_backend (sample_node sample_three_sth) = TrillianBackend (sample_client\<lparr>treeID := 1\<rparr>)"
    by (simp add: sample_node_def)
  from failover_preserves_log [where conf = NewConfig and mconf = NewConfig, OF sample_world_inv heads _ _ run env(1,2,3,5),
      unfolded env(4), OF _ _ _ sample_promotion(2) refl sample_promotion(1) sample_promoted_start this inv sample_latest_root(2)]
  show ?thesis
    using sample_round_wf by (simp add: sample_system_manager_def sample_node_def new_manager_def SignedTreeHead_of_def sample_after_def)
qed

end
