(* ===== verification/Log_Progress.thy ===== *)
theory Log_Progress
  imports Log_System
begin

text \<open>
  Progress of the whole log on Trillian: a leaf that was accepted, and that the primary's service has integrated, is copied to
  the secondary, covered by the next signed tree head, and then acknowledged.  That the services answer and integrate
  (\<open>reads_at_rest\<close>, \<open>answers_at_rest\<close>, \<open>integrates\<close>, \<open>dedups\<close>), that the signer, the disk and the secondary work
  (\<open>env_works\<close>) and that the empty proof verifies between equal tree heads are hypotheses.
\<close>

section \<open>Submitting\<close>



section \<open>Publishing\<close>






section \<open>A concrete submission\<close>


end
