(* ===== verification/Metrics.thy ===== *)
theory Metrics
  imports Go_Text Complex_Main
begin

text \<open>
  The metrics of the HTTP servers (\<open>internal/metrics\<close>).  The library of counters and
  histograms is code outside of this repository: the record \<open>monitoring\<close>, over the state \<open>'m\<close> of its registry, with what
  it documents as \<open>monitoring_ok\<close>.
\<close>

section \<open>The metrics library\<close>

record ('m, 'c, 'h) monitoring =
  mf_NewCounter :: "string \<Rightarrow> string \<Rightarrow> string list \<Rightarrow> 'm \<Rightarrow> 'm \<times> 'c"
  mf_NewHistogramWithBuckets :: "string \<Rightarrow> string \<Rightarrow> rat list \<Rightarrow> string list \<Rightarrow> 'm \<Rightarrow> 'm \<times> 'h"
  ctr_Inc :: "'c \<Rightarrow> string list \<Rightarrow> 'm \<Rightarrow> 'm"
  hist_Observe :: "'h \<Rightarrow> rat \<Rightarrow> string list \<Rightarrow> 'm \<Rightarrow> 'm"

record ('m, 'c, 'h) monitoring_view =
  mv_name :: "'c \<Rightarrow> string"
  mv_count :: "'m \<Rightarrow> 'c \<Rightarrow> string list \<Rightarrow> nat" \<comment> \<open>value of a counter for given labels\<close>
  mv_seen :: "'m \<Rightarrow> 'h \<Rightarrow> string list \<Rightarrow> rat list" \<comment> \<open>values observed for given labels\<close>

definition monitoring_ok :: "('m, 'c, 'h) monitoring \<Rightarrow> ('m, 'c, 'h) monitoring_view \<Rightarrow> bool" where
  "monitoring_ok mf v \<longleftrightarrow>
     (\<forall>n h ls m m' c. mf_NewCounter mf n h ls m = (m', c) \<longrightarrow> mv_name v c = n \<and> mv_count v m' = (mv_count v m)(c := \<lambda>_. 0)
        \<and> mv_seen v m' = mv_seen v m)
   \<and> (\<forall>n h b ls m m' g. mf_NewHistogramWithBuckets mf n h b ls m = (m', g) \<longrightarrow> mv_count v m' = mv_count v m
        \<and> mv_seen v m' = (mv_seen v m)(g := \<lambda>_. []))
   \<and> (\<forall>c ls m. mv_count v (ctr_Inc mf c ls m) = (mv_count v m)(c := (mv_count v m c)(ls := mv_count v m c ls + 1))
        \<and> mv_seen v (ctr_Inc mf c ls m) = mv_seen v m)
   \<and> (\<forall>g x ls m. mv_count v (hist_Observe mf g x ls m) = mv_count v m
        \<and> mv_seen v (hist_Observe mf g x ls m) = (mv_seen v m)(g := (mv_seen v m g)(ls := mv_seen v m g ls @ [x])))"

section \<open>The server's metrics\<close>

record ('c, 'h) serverMetrics =
  LogID :: string
  reqcnt :: 'c
  rspcnt :: 'c
  latency :: 'h

definition Sprintf_d :: "int \<Rightarrow> string" where
  \<comment> \<open>\<open>fmt.Sprintf("%d", n)\<close>\<close>
  "Sprintf_d n = (if n < 0 then CHR ''-'' # decimal (nat (- n)) else decimal (nat n))"

definition Seconds :: "int \<Rightarrow> rat" where
  \<comment> \<open>a duration is a number of nanoseconds; rounding to \<open>float64\<close> is left out\<close>
  "Seconds d = of_int d / 10 ^ 9"

definition OnRequest :: "('m, 'c, 'h) monitoring \<Rightarrow> ('c, 'h) serverMetrics \<Rightarrow> string \<Rightarrow> 'm \<Rightarrow> 'm" where
  "OnRequest mf m endpoint = ctr_Inc mf (reqcnt m) [LogID m, endpoint]"

definition OnResponse :: "('m, 'c, 'h) monitoring \<Rightarrow> ('c, 'h) serverMetrics \<Rightarrow> string \<Rightarrow> int \<Rightarrow> int \<Rightarrow> 'm \<Rightarrow> 'm" where
  "OnResponse mf m endpoint statusCode t s =
     (let sc = Sprintf_d statusCode in
      hist_Observe mf (latency m) (Seconds t) [LogID m, endpoint, sc] (ctr_Inc mf (rspcnt m) [LogID m, endpoint, sc] s))"

definition latency_buckets :: "rat list" where
  "latency_buckets = [1/1000, 2/1000, 3/1000, 6/1000, 10/1000, 20/1000, 30/1000, 60/1000, 1/10, 2/10, 3/10, 6/10, 1, 2, 3, 6, 10]"

definition NewServerMetrics :: "('m, 'c, 'h) monitoring \<Rightarrow> string \<Rightarrow> 'm \<Rightarrow> 'm \<times> ('c, 'h) serverMetrics" where
  "NewServerMetrics mf logID s =
     (let (s1, c1) = mf_NewCounter mf ''http_req'' ''number of http requests'' [''logid'', ''endpoint''] s;
          (s2, c2) = mf_NewCounter mf ''http_rsp'' ''number of http requests'' [''logid'', ''endpoint'', ''status''] s1;
          (s3, h) = mf_NewHistogramWithBuckets mf ''http_latency'' ''http request-response latency'' latency_buckets
                      [''logid'', ''endpoint'', ''status''] s2
      in (s3, \<lparr>LogID = logID, reqcnt = c1, rspcnt = c2, latency = h\<rparr>))"

section \<open>What is counted\<close>

datatype metrics_event = Request string | Response string int int \<comment> \<open>endpoint, status code, time\<close>

fun on_event :: "('m, 'c, 'h) monitoring \<Rightarrow> ('c, 'h) serverMetrics \<Rightarrow> metrics_event \<Rightarrow> 'm \<Rightarrow> 'm" where
  "on_event mf m (Request ep) = OnRequest mf m ep"
| "on_event mf m (Response ep sc t) = OnResponse mf m ep sc t"

fun response_time :: "string \<Rightarrow> int \<Rightarrow> metrics_event \<Rightarrow> int option" where
  "response_time ep sc (Response ep' sc' t) = (if ep' = ep \<and> sc' = sc then Some t else None)"
| "response_time ep sc (Request _) = None"

definition response_times :: "string \<Rightarrow> int \<Rightarrow> metrics_event list \<Rightarrow> int list" where
  "response_times ep sc evs = List.map_filter (response_time ep sc) evs"

lemma decimal_inj: "decimal m = decimal n \<Longrightarrow> m = n"
proof -
  assume "decimal m = decimal n"
  moreover have "m < 2 ^ (m + n)" "n < 2 ^ (m + n)"
    by (metis add.commute le_add1 less_exp order_less_le_trans one_le_numeral power_increasing)+
  ultimately show ?thesis using ParseUint_decimal by (metis result.inject(1))
qed

lemma Sprintf_d_inj: "Sprintf_d m = Sprintf_d n \<longleftrightarrow> m = n"
proof -
  have "decimal k \<noteq> CHR ''-'' # s" for k s
    using decimal_digits [of k] by (auto simp: is_digit_def)
  then show ?thesis
    by (auto simp: Sprintf_d_def dest: decimal_inj split: if_splits) (metis)+
qed

lemma monitoring_okD:
  assumes "monitoring_ok mf v"
  shows "mf_NewCounter mf n h ls m = (m', c) \<Longrightarrow> mv_name v c = n \<and> mv_count v m' = (mv_count v m)(c := \<lambda>_. 0)"
    and "mf_NewHistogramWithBuckets mf n h b ls m = (m', g) \<Longrightarrow> mv_count v m' = mv_count v m \<and> mv_seen v m' = (mv_seen v m)(g := \<lambda>_. [])"
    and "mv_count v (ctr_Inc mf c ls m) = (mv_count v m)(c := (mv_count v m c)(ls := mv_count v m c ls + 1))"
    and "mv_seen v (ctr_Inc mf c ls m) = mv_seen v m"
    and "mv_count v (hist_Observe mf g x ls m) = mv_count v m"
    and "mv_seen v (hist_Observe mf g x ls m) = (mv_seen v m)(g := (mv_seen v m g)(ls := mv_seen v m g ls @ [x]))"
  using assms unfolding monitoring_ok_def by blast+

lemma NewServerMetrics_fresh:
  assumes "monitoring_ok mf v" and "NewServerMetrics mf logID s = (s0, m)"
  shows "LogID m = logID" "reqcnt m \<noteq> rspcnt m" "mv_count v s0 (reqcnt m) ls = 0" "mv_count v s0 (rspcnt m) ls = 0"
    "mv_seen v s0 (latency m) ls = []"
proof -
  obtain s1 c1 where 1: "mf_NewCounter mf ''http_req'' ''number of http requests'' [''logid'', ''endpoint''] s = (s1, c1)" by fastforce
  obtain s2 c2 where 2: "mf_NewCounter mf ''http_rsp'' ''number of http requests'' [''logid'', ''endpoint'', ''status''] s1 = (s2, c2)"
    by fastforce
  obtain s3 h where 3: "mf_NewHistogramWithBuckets mf ''http_latency'' ''http request-response latency'' latency_buckets
      [''logid'', ''endpoint'', ''status''] s2 = (s3, h)" by fastforce
  have "m = \<lparr>LogID = logID, reqcnt = c1, rspcnt = c2, latency = h\<rparr>" "s0 = s3"
    using assms(2) 1 2 3 by (simp_all add: NewServerMetrics_def)
  then show "LogID m = logID" "reqcnt m \<noteq> rspcnt m" "mv_count v s0 (reqcnt m) ls = 0" "mv_count v s0 (rspcnt m) ls = 0"
      "mv_seen v s0 (latency m) ls = []"
    using monitoring_okD(1) [OF assms(1) 1] monitoring_okD(1) [OF assms(1) 2] monitoring_okD(2) [OF assms(1) 3] by auto
qed

text \<open>
  C40: The metrics are exact.  From freshly registered metrics, after any sequence of requests and responses: the request
  counter of an endpoint is the number of requests for it; the response counter of an endpoint and a status
  code is the number of such responses, so that codes are never mixed up by their text; and the
  histogram has seen exactly their latencies, in order.
\<close>

theorem metrics_exact:
  assumes "monitoring_ok mf v" and "NewServerMetrics mf logID s = (s0, m)"
  shows "mv_count v (fold (on_event mf m) evs s0) (reqcnt m) [logID, ep] = count_list evs (Request ep)
    \<and> mv_count v (fold (on_event mf m) evs s0) (rspcnt m) [logID, ep, Sprintf_d sc] = length (response_times ep sc evs)
    \<and> mv_seen v (fold (on_event mf m) evs s0) (latency m) [logID, ep, Sprintf_d sc] = map Seconds (response_times ep sc evs)"
proof (induction evs rule: rev_induct)
  case Nil
  then show ?case using NewServerMetrics_fresh [OF assms] by (simp add: response_times_def List.map_filter_simps)
next
  case (snoc e evs)
  have times: "response_times ep sc (evs @ [e]) = response_times ep sc evs @ (case response_time ep sc e of None \<Rightarrow> [] | Some t \<Rightarrow> [t])"
    by (auto simp: response_times_def List.map_filter_def split: option.splits)
  note fresh = NewServerMetrics_fresh [OF assms] and ok = monitoring_okD [OF assms(1)]
  show ?case
  proof (cases e)
    case (Request ep')
    then show ?thesis using snoc times fresh(1,2) ok(3,4) by (auto simp: OnRequest_def)
  next
    case (Response ep' sc' t)
    then show ?thesis using snoc times fresh(1,2) ok(3-6) by (auto simp: OnResponse_def Let_def Sprintf_d_inj)
  qed
qed

section \<open>A concrete library\<close>

text \<open>Counters and histograms by name, on maps.\<close>

type_synonym sample_metrics = "(string \<Rightarrow> string list \<Rightarrow> nat) \<times> (string \<Rightarrow> string list \<Rightarrow> rat list)"

definition sample_monitoring :: "(sample_metrics, string, string) monitoring" where
  "sample_monitoring = \<lparr>
     mf_NewCounter = \<lambda>n h ls (cs, hs). ((cs(n := \<lambda>_. 0), hs), n),
     mf_NewHistogramWithBuckets = \<lambda>n h b ls (cs, hs). ((cs, hs(n := \<lambda>_. [])), n),
     ctr_Inc = \<lambda>c ls (cs, hs). (cs(c := (cs c)(ls := cs c ls + 1)), hs),
     hist_Observe = \<lambda>g x ls (cs, hs). (cs, hs(g := (hs g)(ls := hs g ls @ [x])))\<rparr>"

definition sample_monitoring_view :: "(sample_metrics, string, string) monitoring_view" where
  "sample_monitoring_view = \<lparr>mv_name = \<lambda>c. c, mv_count = fst, mv_seen = snd\<rparr>"

lemma sample_monitoring_ok: "monitoring_ok sample_monitoring sample_monitoring_view"
  by (auto simp: monitoring_ok_def sample_monitoring_def sample_monitoring_view_def)

theorem metrics_exact_witness:
  "\<exists>s0 m. NewServerMetrics sample_monitoring ''log'' ((\<lambda>_ _. 0), (\<lambda>_ _. [])) = (s0, m)
   \<and> mv_count sample_monitoring_view (fold (on_event sample_monitoring m)
        [Request ''add-leaf'', Response ''add-leaf'' 200 5, Request ''add-leaf'', Response ''add-leaf'' 429 7] s0)
        (rspcnt m) [''log'', ''add-leaf'', Sprintf_d 200] = 1"
proof -
  obtain s0 m where "NewServerMetrics sample_monitoring ''log'' ((\<lambda>_ _. 0), (\<lambda>_ _. [])) = (s0, m)" by fastforce
  then show ?thesis
    using metrics_exact [OF sample_monitoring_ok, of "''log''" "((\<lambda>_ _. 0), (\<lambda>_ _. []))" s0 m
        "[Request ''add-leaf'', Response ''add-leaf'' 200 5, Request ''add-leaf'', Response ''add-leaf'' 429 7]" "''add-leaf''" 200]
    by (simp add: response_times_def List.map_filter_simps)
qed

end
