(* ===== verification/Server_Endpoints.thy ===== *)
theory Server_Endpoints
  imports Server_Setup Metrics
begin

text \<open>
  The HTTP servers of the two programs, as \<open>main\<close> puts them together: which operation of a node is reachable
  at which endpoint.  The request multiplexer is that of Go's \<open>net/http\<close> (version 1.19): canonical paths, exact
  patterns before subtrees, longest subtree first.
\<close>

section \<open>Request multiplexer\<close>

record http_request =
  rq_Method :: string
  rq_RequestURI :: string
  rq_Path :: string \<comment> \<open>\<open>r.URL.Path\<close>\<close>
  rq_RawQuery :: string

record http_response =
  rsp_Status :: nat
  rsp_Location :: "(string \<times> string) option" \<comment> \<open>path and query of a redirect\<close>
  rsp_Body :: bytes

type_synonym 'w handler = "http_request \<Rightarrow> 'w \<Rightarrow> 'w \<times> http_response"

fun split_slash :: "string \<Rightarrow> string list" where
  "split_slash [] = [[]]"
| "split_slash (c # s) = (if c = CHR ''/'' then [] # split_slash s
     else (case split_slash s of [] \<Rightarrow> [[c]] | x # xs \<Rightarrow> (c # x) # xs))"

fun clean_elements :: "string list \<Rightarrow> string list \<Rightarrow> string list" where
  \<comment> \<open>the elements kept so far, last one first\<close>
  "clean_elements acc [] = rev acc"
| "clean_elements acc (x # xs) =
     (if x = '''' \<or> x = ''.'' then clean_elements acc xs
      else if x = ''..'' then clean_elements (tl acc) xs
      else clean_elements (x # acc) xs)"

definition join_slash :: "string list \<Rightarrow> string" where
  "join_slash xs = concat (map (\<lambda>x. CHR ''/'' # x) xs)"

definition path_Clean :: "string \<Rightarrow> string" where
  \<comment> \<open>\<open>path.Clean\<close> on a rooted path\<close>
  "path_Clean p = (case clean_elements [] (split_slash p) of [] \<Rightarrow> ''/'' | xs \<Rightarrow> join_slash xs)"

definition cleanPath :: "string \<Rightarrow> string" where
  "cleanPath p =
     (if p = '''' then ''/''
      else let p = (if hd p \<noteq> CHR ''/'' then CHR ''/'' # p else p); np = path_Clean p in
        if last p = CHR ''/'' \<and> np \<noteq> ''/''
        then (if length p = length np + 1 \<and> take (length np) p = np then p else np @ ''/'') else np)"

type_synonym 'w ServeMux = "(string \<times> 'w handler) list"

definition mux_Handle :: "string \<Rightarrow> 'w handler \<Rightarrow> 'w ServeMux \<Rightarrow> 'w ServeMux result" where
  "mux_Handle pattern h mux =
     (if pattern = '''' then Panic ''http: invalid pattern''
      else if map_of mux pattern \<noteq> None then Panic ''http: multiple registrations''
      else Ok ((pattern, h) # mux))"

definition mux_subtree :: "'w ServeMux \<Rightarrow> string \<Rightarrow> 'w handler option" where
  \<comment> \<open>the longest pattern that ends in a slash and is a prefix of the path\<close>
  "mux_subtree mux path =
     (case sort_key (\<lambda>e. - int (length (fst e))) (filter (\<lambda>e. last (fst e) = CHR ''/'' \<and> take (length (fst e)) path = fst e) mux) of
        [] \<Rightarrow> None
      | e # _ \<Rightarrow> Some (snd e))"

definition mux_match :: "'w ServeMux \<Rightarrow> string \<Rightarrow> 'w handler option" where
  "mux_match mux path = (case map_of mux path of Some h \<Rightarrow> Some h | None \<Rightarrow> mux_subtree mux path)"

definition mux_redirect_slash :: "'w ServeMux \<Rightarrow> string \<Rightarrow> bool" where
  "mux_redirect_slash mux path \<longleftrightarrow> map_of mux path = None \<and> path \<noteq> '''' \<and> map_of mux (path @ ''/'') \<noteq> None \<and> last path \<noteq> CHR ''/''"

definition plain_response :: "nat \<Rightarrow> http_response" where
  "plain_response status = \<lparr>rsp_Status = status, rsp_Location = None, rsp_Body = []\<rparr>"

definition redirect :: "string \<Rightarrow> string \<Rightarrow> http_response" where
  "redirect path query = \<lparr>rsp_Status = 301, rsp_Location = Some (path, query), rsp_Body = []\<rparr>"

definition mux_dispatch :: "'w ServeMux \<Rightarrow> string \<Rightarrow> 'w handler" where
  "mux_dispatch mux path req w =
     (case mux_match mux path of None \<Rightarrow> (w, plain_response 404) | Some h \<Rightarrow> h req w)"

definition ServeHTTP :: "'w ServeMux \<Rightarrow> 'w handler" where
  "ServeHTTP mux req w =
     (if rq_RequestURI req = ''*'' then (w, plain_response 400)
      else if rq_Method req = ''CONNECT'' then
        (if mux_redirect_slash mux (rq_Path req) then (w, redirect (rq_Path req @ ''/'') (rq_RawQuery req))
         else mux_dispatch mux (rq_Path req) req w)
      else let path = cleanPath (rq_Path req) in
        if mux_redirect_slash mux path then (w, redirect (path @ ''/'') (rq_RawQuery req))
        else if path \<noteq> rq_Path req then (w, redirect path (rq_RawQuery req))
        else mux_dispatch mux (rq_Path req) req w)"

section \<open>Servers of the two programs\<close>

text \<open>
  The handlers of \<open>sigsum-go/pkg/server\<close> and of the Prometheus client are code outside of this
  repository: the record \<open>server_pkg\<close>.  They are given the operations of the node, on the state
  \<open>'w\<close> of the process.
\<close>

record 'w Log =
  api_AddLeaf :: "LeafRequest \<Rightarrow> SubmitHeader option \<Rightarrow> 'w \<Rightarrow> 'w \<times> bool result"
  api_GetTreeHead :: "'w \<Rightarrow> 'w \<times> CosignedTreeHead result"
  api_GetConsistencyProof :: "ConsistencyRequest \<Rightarrow> 'w \<Rightarrow> 'w \<times> ConsistencyProof result"
  api_GetInclusionProof :: "InclusionRequest \<Rightarrow> 'w \<Rightarrow> 'w \<times> InclusionProof result"
  api_GetLeaves :: "LeavesRequest \<Rightarrow> 'w \<Rightarrow> 'w \<times> Leaf list result"

record 'w server_metrics =
  mt_OnRequest :: "string \<Rightarrow> 'w \<Rightarrow> 'w"
  mt_OnResponse :: "string \<Rightarrow> int \<Rightarrow> time \<Rightarrow> 'w \<Rightarrow> 'w"

record 'w server_config =
  srv_Prefix :: string
  srv_Timeout :: time
  srv_Metrics :: "'w server_metrics option"

record 'w server_pkg =
  NewLog :: "'w server_config \<Rightarrow> 'w Log \<Rightarrow> 'w handler"
  NewGetLeavesServer :: "'w server_config \<Rightarrow> (LeavesRequest \<Rightarrow> 'w \<Rightarrow> 'w \<times> Leaf list result) \<Rightarrow> 'w handler"
  NewSecondary :: "'w server_config \<Rightarrow> ('w \<Rightarrow> 'w \<times> SignedTreeHead result) \<Rightarrow> 'w handler"
  promhttp_Handler :: "'w handler"

record 'w http_server =
  hs_Addr :: string
  hs_Handler :: "'w handler"

record ('s, 't, 'm) primary_world =
  pw_node :: "('s, 't) PrimaryNode"
  pw_store :: "('s, 't) store"
  pw_now :: time
  pw_metrics :: 'm

definition on_store :: "(('s, 't) store \<Rightarrow> ('s, 't) store \<times> 'a) \<Rightarrow> ('s, 't, 'm) primary_world \<Rightarrow> ('s, 't, 'm) primary_world \<times> 'a" where
  "on_store f w = (case f (pw_store w) of (s, r) \<Rightarrow> (w\<lparr>pw_store := s\<rparr>, r))"

definition primary_Log :: "(bytes \<Rightarrow> hash) \<Rightarrow> (LeafRequest \<Rightarrow> Leaf result) \<Rightarrow> ('s, 't, 'm) primary_world Log" where
  \<comment> \<open>the methods of \<open>Primary\<close>, which read the current tree heads from the state manager\<close>
  "primary_Log HashBytes req_Verify = \<lparr>
     api_AddLeaf = \<lambda>req t w. (case Primary_AddLeaf HashBytes req_Verify (pn_node (pw_node w)) (SignedTreeHead_of (pn_Stateman (pw_node w)))
         (pw_now w) req t (pn_RateLimiter (pw_node w), pw_store w) of
       ((l, s), r) \<Rightarrow> (w\<lparr>pw_node := (pw_node w)\<lparr>pn_RateLimiter := l\<rparr>, pw_store := s\<rparr>, r)),
     api_GetTreeHead = \<lambda>w. (w, Primary_GetTreeHead (CosignedTreeHead_of (pn_Stateman (pw_node w)))),
     api_GetConsistencyProof = \<lambda>req w. on_store (Primary_GetConsistencyProof (pn_node (pw_node w)) (CosignedTreeHead_of (pn_Stateman (pw_node w))) req) w,
     api_GetInclusionProof = \<lambda>req w. on_store (Primary_GetInclusionProof (pn_node (pw_node w)) (CosignedTreeHead_of (pn_Stateman (pw_node w))) req) w,
     api_GetLeaves = \<lambda>req w. on_store (Primary_GetLeaves (pn_node (pw_node w)) (CosignedTreeHead_of (pn_Stateman (pw_node w))) req) w\<rparr>"

definition process_metrics ::
    "('m, 'c, 'h) monitoring \<Rightarrow> ('c, 'h) serverMetrics \<Rightarrow> (('m \<Rightarrow> 'm) \<Rightarrow> 'w \<Rightarrow> 'w) \<Rightarrow> 'w server_metrics" where
  "process_metrics mf m upd = \<lparr>mt_OnRequest = \<lambda>ep. upd (OnRequest mf m ep), mt_OnResponse = \<lambda>ep sc t. upd (OnResponse mf m ep sc t)\<rparr>"

definition internal_mux :: "'w handler \<Rightarrow> 'w handler \<Rightarrow> 'w ServeMux result" where
  "internal_mux node prom = bind_result (mux_Handle ''/'' node []) (mux_Handle ''/metrics'' prom)"

definition primary_servers ::
    "('s, 't, 'm) primary_world server_pkg \<Rightarrow> ('m, 'c, 'h) monitoring \<Rightarrow> (bytes \<Rightarrow> hash) \<Rightarrow> (LeafRequest \<Rightarrow> Leaf result)
     \<Rightarrow> ServerConfig \<Rightarrow> pubkey \<Rightarrow> 'm
     \<Rightarrow> 'm \<times> (('s, 't, 'm) primary_world http_server \<times> ('s, 't, 'm) primary_world http_server) result" where
  \<comment> \<open>the external and the internal server\<close>
  "primary_servers sv mf HashBytes req_Verify conf publicKey reg =
     (case NewServerMetrics mf (hex_EncodeToString publicKey) reg of (reg', m) \<Rightarrow>
      (reg', bind_result
        (internal_mux
          (NewGetLeavesServer sv \<lparr>srv_Prefix = Prefix conf, srv_Timeout = Timeout conf, srv_Metrics = None\<rparr>
             (\<lambda>req w. on_store (GetLeavesInternal (pn_node (pw_node w)) req) w))
          (promhttp_Handler sv))
        (\<lambda>mux. Ok (\<lparr>hs_Addr = ExternalEndpoint conf, hs_Handler = NewLog sv
             \<lparr>srv_Prefix = Prefix conf, srv_Timeout = Timeout conf,
              srv_Metrics = Some (process_metrics mf m (\<lambda>f w. w\<lparr>pw_metrics := f (pw_metrics w)\<rparr>))\<rparr>
             (primary_Log HashBytes req_Verify)\<rparr>,
          \<lparr>hs_Addr = InternalEndpoint conf, hs_Handler = ServeHTTP mux\<rparr>))))"

record ('s, 't, 'n, 'm) secondary_world =
  sw_node :: "('s, 't, 'n) SecondaryNode"
  sw_store :: "('s, 't) store"
  sw_metrics :: 'm

definition secondary_servers ::
    "('s, 't, 'n, 'm) secondary_world server_pkg \<Rightarrow> ('m, 'c, 'h) monitoring \<Rightarrow> ServerConfig \<Rightarrow> pubkey \<Rightarrow> 'm
     \<Rightarrow> 'm \<times> (('s, 't, 'n, 'm) secondary_world http_server \<times> ('s, 't, 'n, 'm) secondary_world http_server) result" where
  "secondary_servers sv mf conf publicKey reg =
     (case NewServerMetrics mf (hex_EncodeToString publicKey) reg of (reg', m) \<Rightarrow>
      (reg', bind_result
        (internal_mux
          (NewSecondary sv \<lparr>srv_Prefix = Prefix conf, srv_Timeout = Timeout conf,
              srv_Metrics = Some (process_metrics mf m (\<lambda>f w. w\<lparr>sw_metrics := f (sw_metrics w)\<rparr>))\<rparr>
             (\<lambda>w. case GetSecondaryTreeHead (sn_node (sw_node w)) (sw_store w) of (s, r) \<Rightarrow> (w\<lparr>sw_store := s\<rparr>, r)))
          (promhttp_Handler sv))
        (\<lambda>mux. Ok (\<lparr>hs_Addr = ExternalEndpoint conf, hs_Handler = ServeHTTP []\<rparr>,
          \<lparr>hs_Addr = InternalEndpoint conf, hs_Handler = ServeHTTP mux\<rparr>))))"

section \<open>Lemmas\<close>

lemma split_slash_nonempty [simp]: "split_slash s \<noteq> []"
  by (cases s) (auto split: list.splits)

lemma split_slash_append:
  "CHR ''/'' \<notin> set x \<Longrightarrow> split_slash (x @ CHR ''/'' # s) = x # split_slash s"
  "CHR ''/'' \<notin> set x \<Longrightarrow> split_slash x = [x]"
  by (induction x) auto

lemma split_slash_elements: "x \<in> set (split_slash s) \<Longrightarrow> CHR ''/'' \<notin> set x"
proof (induction s arbitrary: x)
  case (Cons c s)
  then show ?case by (cases "split_slash s") (auto split: if_splits)
qed simp

definition clean_element :: "string \<Rightarrow> bool" where
  "clean_element x \<longleftrightarrow> x \<notin> {'''', ''.'', ''..''} \<and> CHR ''/'' \<notin> set x"

lemma clean_elements_clean:
  "list_all clean_element acc \<Longrightarrow> (\<And>x. x \<in> set xs \<Longrightarrow> CHR ''/'' \<notin> set x) \<Longrightarrow> list_all clean_element (clean_elements acc xs)"
proof (induction xs arbitrary: acc)
  case (Cons x xs)
  have "list_all clean_element (tl acc)" using Cons.prems(1) by (cases acc) auto
  then show ?case using Cons by (auto simp: clean_element_def [of x])
qed simp

lemma clean_elements_id: "list_all clean_element xs \<Longrightarrow> clean_elements acc (xs @ ys) = clean_elements (rev xs @ acc) ys"
  by (induction xs arbitrary: acc) (auto simp: clean_element_def)

lemma split_join:
  assumes "list_all clean_element xs" and "xs \<noteq> []"
  shows "split_slash (join_slash xs @ s) = (if s = [] then [] # xs else if hd s = CHR ''/'' then [] # xs @ split_slash (tl s) else split_slash (join_slash xs @ s))"
  using assms
proof (induction xs)
  case (Cons x xs)
  have x: "CHR ''/'' \<notin> set x" using Cons.prems by (simp add: clean_element_def)
  show ?case
  proof (cases "xs = []")
    case True
    then show ?thesis using split_slash_append [OF x] by (cases s) (auto simp: join_slash_def)
  next
    case False
    then obtain r where r: "join_slash xs = CHR ''/'' # r" by (cases xs) (auto simp: join_slash_def)
    have "split_slash (join_slash (x # xs) @ s) = [] # x # tl (split_slash (join_slash xs @ s))"
      using split_slash_append(1) [OF x] r by (simp add: join_slash_def)
    then show ?thesis using Cons False by auto
  qed
qed simp

lemma path_Clean_elements:
  obtains xs where "list_all clean_element xs" "path_Clean p = (if xs = [] then ''/'' else join_slash xs)"
proof
  show "list_all clean_element (clean_elements [] (split_slash p))"
    using clean_elements_clean [of "[]"] split_slash_elements by auto
  show "path_Clean p = (if clean_elements [] (split_slash p) = [] then ''/'' else join_slash (clean_elements [] (split_slash p)))"
    by (auto simp: path_Clean_def split: list.splits)
qed

lemma path_Clean_join:
  assumes "list_all clean_element xs" and "xs \<noteq> []"
  shows "path_Clean (join_slash xs) = join_slash xs" and "path_Clean (join_slash xs @ ''/'') = join_slash xs"
  using split_join [OF assms, of "''''"] split_join [OF assms, of "''/''"] clean_elements_id [OF assms(1), of "[]" "[]"]
    clean_elements_id [OF assms(1), of "[]" "['''']"] assms(2)
  by (auto simp: path_Clean_def split: list.splits)

lemma join_slash_shape:
  assumes "list_all clean_element xs" and "xs \<noteq> []"
  shows "join_slash xs \<noteq> ''''" "hd (join_slash xs) = CHR ''/''" "last (join_slash xs) \<noteq> CHR ''/''" "join_slash xs \<noteq> ''/''"
proof -
  obtain ys x where xs: "xs = ys @ [x]" using assms(2) by (metis append_butlast_last_id)
  then have x: "x \<noteq> ''''" "CHR ''/'' \<notin> set x" using assms(1) by (auto simp: clean_element_def)
  then have "last (join_slash xs) = last x" using xs by (simp add: join_slash_def)
  then show "last (join_slash xs) \<noteq> CHR ''/''" using x last_in_set by metis
  then show "join_slash xs \<noteq> ''/''" by auto
  show "join_slash xs \<noteq> ''''" "hd (join_slash xs) = CHR ''/''" using assms(2) by (cases xs; simp add: join_slash_def)+
qed

lemma cleanPath_cases:
  obtains (root) "cleanPath p = ''/''"
  | (elements) xs where "list_all clean_element xs" "xs \<noteq> []" "cleanPath p = join_slash xs \<or> cleanPath p = join_slash xs @ ''/''"
proof (cases "p = ''''")
  case False
  define p' where "p' = (if hd p \<noteq> CHR ''/'' then CHR ''/'' # p else p)"
  obtain xs where xs: "list_all clean_element xs" "path_Clean p' = (if xs = [] then ''/'' else join_slash xs)"
    using path_Clean_elements by blast
  have "cleanPath p = path_Clean p' \<or> (path_Clean p' \<noteq> ''/'' \<and> cleanPath p = path_Clean p' @ ''/'')"
  proof (cases "last p' = CHR ''/'' \<and> path_Clean p' \<noteq> ''/''")
    case True
    have "p' = path_Clean p' @ ''/''" if "length p' = length (path_Clean p') + 1" "take (length (path_Clean p')) p' = path_Clean p'"
    proof -
      have "butlast p' = path_Clean p'" "p' \<noteq> ''''" using that by (auto simp: butlast_conv_take)
      then show ?thesis using True append_butlast_last_id [of p'] by simp
    qed
    then show ?thesis using False True by (auto simp: cleanPath_def Let_def p'_def)
  qed (use False in \<open>auto simp: cleanPath_def Let_def p'_def\<close>)
  then show ?thesis using xs root elements by (auto split: if_splits)
qed (use root in \<open>simp add: cleanPath_def\<close>)

lemma cleanPath_idem: "cleanPath (cleanPath p) = cleanPath p"
proof (cases p rule: cleanPath_cases)
  case root
  then show ?thesis by (simp add: cleanPath_def path_Clean_def)
next
  case (elements xs)
  note shape = join_slash_shape [OF elements(1,2)] and clean = path_Clean_join [OF elements(1,2)]
  have "cleanPath (join_slash xs) = join_slash xs" using shape clean(1) by (simp add: cleanPath_def Let_def)
  moreover have "cleanPath (join_slash xs @ ''/'') = join_slash xs @ ''/''"
    using shape clean(2) by (simp add: cleanPath_def Let_def)
  ultimately show ?thesis using elements(3) by auto
qed

lemma cleanPath_rooted: "cleanPath p \<noteq> [] \<and> hd (cleanPath p) = CHR ''/''"
proof (cases p rule: cleanPath_cases)
  case (elements xs)
  then show ?thesis using join_slash_shape(1,2) [OF elements(1,2)] by (auto simp: hd_append)
qed simp

section \<open>Routing\<close>

definition rooted :: "string \<Rightarrow> bool" where
  "rooted p \<longleftrightarrow> p \<noteq> '''' \<and> hd p = CHR ''/''"

definition unclean :: "http_request \<Rightarrow> bool" where
  \<comment> \<open>requests that are sent to the canonical form of their path first\<close>
  "unclean req \<longleftrightarrow> rq_Method req \<noteq> ''CONNECT'' \<and> cleanPath (rq_Path req) \<noteq> rq_Path req"

lemma take_1_slash: "take (Suc 0) p = ''/'' \<longleftrightarrow> rooted p"
  by (cases p) (auto simp: rooted_def)

lemma ServeHTTP_empty:
  "ServeHTTP [] req w = (w, if rq_RequestURI req = ''*'' then plain_response 400
     else if unclean req then redirect (cleanPath (rq_Path req)) (rq_RawQuery req) else plain_response 404)"
  by (simp add: ServeHTTP_def mux_redirect_slash_def mux_dispatch_def mux_match_def mux_subtree_def unclean_def Let_def)

lemma internal_mux_routes:
  obtains mux where "internal_mux node prom = Ok mux"
    "\<And>req w. ServeHTTP mux req w =
       (if rq_RequestURI req = ''*'' then (w, plain_response 400)
        else if unclean req then (w, redirect (cleanPath (rq_Path req)) (rq_RawQuery req))
        else if rq_Path req = ''/metrics'' then prom req w
        else if rooted (rq_Path req) then node req w
        else (w, plain_response 404))"
proof
  let ?mux = "[(''/metrics'', prom), (''/'', node)]"
  show "internal_mux node prom = Ok ?mux" by (simp add: internal_mux_def mux_Handle_def)
  have no_redirect: "\<not> mux_redirect_slash ?mux p" for p
    by (auto simp: mux_redirect_slash_def append_eq_Cons_conv)
  have "mux_match ?mux p = (if p = ''/metrics'' then Some prom else if rooted p then Some node else None)" for p
    by (auto simp: mux_match_def mux_subtree_def take_1_slash rooted_def)
  then have dispatch: "mux_dispatch ?mux p req w = (if p = ''/metrics'' then prom req w else if rooted p then node req w else (w, plain_response 404))"
    for p req w by (simp add: mux_dispatch_def)
  show "ServeHTTP ?mux req w =
       (if rq_RequestURI req = ''*'' then (w, plain_response 400)
        else if unclean req then (w, redirect (cleanPath (rq_Path req)) (rq_RawQuery req))
        else if rq_Path req = ''/metrics'' then prom req w
        else if rooted (rq_Path req) then node req w
        else (w, plain_response 404))" for req w
    unfolding ServeHTTP_def dispatch using no_redirect by (simp add: unclean_def Let_def)
qed

text \<open>
  C38: Routing on the internal endpoint of the primary.  Setting up the two servers never panics; they listen on the configured
  addresses.  On the internal one, a path that is not in canonical form is redirected to its canonical form, which is not redirected
  again; exactly \<open>/metrics\<close> is answered by the metrics handler; and every other path is answered by the
  handler that serves the leaves of the whole tree to the secondary.
\<close>

theorem primary_internal_routing:
  "\<exists>reg' ext int. primary_servers sv mf HashBytes req_Verify conf publicKey reg = (reg', Ok (ext, int))
   \<and> hs_Addr ext = ExternalEndpoint conf \<and> hs_Addr int = InternalEndpoint conf
   \<and> (\<forall>req w. hs_Handler int req w =
       (if rq_RequestURI req = ''*'' then (w, plain_response 400)
        else if unclean req then (w, redirect (cleanPath (rq_Path req)) (rq_RawQuery req))
        else if rq_Path req = ''/metrics'' then promhttp_Handler sv req w
        else if rooted (rq_Path req) then
          NewGetLeavesServer sv \<lparr>srv_Prefix = Prefix conf, srv_Timeout = Timeout conf, srv_Metrics = None\<rparr>
            (\<lambda>req w. on_store (GetLeavesInternal (pn_node (pw_node w)) req) w) req w
        else (w, plain_response 404)))
   \<and> (\<forall>req. \<not> unclean (req\<lparr>rq_Path := cleanPath (rq_Path req)\<rparr>) \<and> rooted (cleanPath (rq_Path req)))"
proof -
  let ?node = "NewGetLeavesServer sv \<lparr>srv_Prefix = Prefix conf, srv_Timeout = Timeout conf, srv_Metrics = None\<rparr>
      (\<lambda>req w. on_store (GetLeavesInternal (pn_node (pw_node w)) req) w)"
  obtain reg' m where "NewServerMetrics mf (hex_EncodeToString publicKey) reg = (reg', m)" by fastforce
  moreover obtain mux where "internal_mux ?node (promhttp_Handler sv) = Ok mux"
    "\<And>req w. ServeHTTP mux req w = (if rq_RequestURI req = ''*'' then (w, plain_response 400)
        else if unclean req then (w, redirect (cleanPath (rq_Path req)) (rq_RawQuery req))
        else if rq_Path req = ''/metrics'' then promhttp_Handler sv req w
        else if rooted (rq_Path req) then ?node req w else (w, plain_response 404))"
    using internal_mux_routes by blast
  ultimately show ?thesis
    using cleanPath_idem cleanPath_rooted by (simp add: primary_servers_def rooted_def) (simp add: unclean_def)
qed

text \<open>What the external server of the secondary answers in each case; an empty multiplexer still redirects to canonical paths.\<close>

lemma secondary_servers_exact:
  fixes sv :: "('s, 't, 'n, 'm) secondary_world server_pkg"
  obtains reg' ext int h where "secondary_servers sv mf conf publicKey reg = (reg', Ok (ext, int))"
    "hs_Addr ext = ExternalEndpoint conf" "hs_Addr int = InternalEndpoint conf"
    "\<And>req w. hs_Handler ext req w = (w, if rq_RequestURI req = ''*'' then plain_response 400
        else if unclean req then redirect (cleanPath (rq_Path req)) (rq_RawQuery req) else plain_response 404)"
    "\<And>req w. hs_Handler int req w =
       (if rq_RequestURI req = ''*'' then (w, plain_response 400)
        else if unclean req then (w, redirect (cleanPath (rq_Path req)) (rq_RawQuery req))
        else if rq_Path req = ''/metrics'' then promhttp_Handler sv req w
        else if rooted (rq_Path req) then NewSecondary sv h
          (\<lambda>w. case GetSecondaryTreeHead (sn_node (sw_node w)) (sw_store w) of (s, r) \<Rightarrow> (w\<lparr>sw_store := s\<rparr>, r)) req w
        else (w, plain_response 404))"
proof -
  obtain reg' m where m: "NewServerMetrics mf (hex_EncodeToString publicKey) reg = (reg', m)" by fastforce
  define h :: "('s, 't, 'n, 'm) secondary_world server_config" where "h = \<lparr>srv_Prefix = Prefix conf, srv_Timeout = Timeout conf,
    srv_Metrics = Some (process_metrics mf m (\<lambda>f w. w\<lparr>sw_metrics := f (sw_metrics w)\<rparr>))\<rparr>"
  let ?node = "NewSecondary sv h (\<lambda>w. case GetSecondaryTreeHead (sn_node (sw_node w)) (sw_store w) of (s, r) \<Rightarrow> (w\<lparr>sw_store := s\<rparr>, r))"
  obtain mux where mux: "internal_mux ?node (promhttp_Handler sv) = Ok mux"
    "\<And>req w. ServeHTTP mux req w = (if rq_RequestURI req = ''*'' then (w, plain_response 400)
        else if unclean req then (w, redirect (cleanPath (rq_Path req)) (rq_RawQuery req))
        else if rq_Path req = ''/metrics'' then promhttp_Handler sv req w
        else if rooted (rq_Path req) then ?node req w else (w, plain_response 404))"
    using internal_mux_routes by blast
  show ?thesis
    by (rule that [of reg' "\<lparr>hs_Addr = ExternalEndpoint conf, hs_Handler = ServeHTTP []\<rparr>"
          "\<lparr>hs_Addr = InternalEndpoint conf, hs_Handler = ServeHTTP mux\<rparr>" h])
      (use m mux in \<open>simp_all add: secondary_servers_def h_def ServeHTTP_empty\<close>)
qed

definition following_redirects :: "'w handler \<Rightarrow> 'w handler" where
  \<comment> \<open>what a client gets that follows a redirect\<close>
  "following_redirects h req w =
     (case h req w of (w', rsp) \<Rightarrow>
      (case rsp_Location rsp of
         None \<Rightarrow> (w', rsp)
       | Some (path, query) \<Rightarrow>
           h (req\<lparr>rq_RequestURI := path @ (if query = '''' then '''' else ''?'' @ query), rq_Path := path, rq_RawQuery := query\<rparr>) w'))"

lemma cleanPath_request:
  "\<not> unclean (req\<lparr>rq_RequestURI := u, rq_Path := cleanPath (rq_Path req), rq_RawQuery := q\<rparr>)"
  "cleanPath p @ s \<noteq> ''*''"
  using cleanPath_idem cleanPath_rooted [of p] by (auto simp: unclean_def append_eq_Cons_conv)

text \<open>
  C39: The secondary is closed to the outside.  On its external endpoint every request for a canonical path is answered with
  status 404, a client that follows redirects gets 404 for every path (the request target \<open>*\<close>, which is not a path, excepted), and no
  request, whatever its form, reaches a handler or changes anything in the process.  The operations of the node are only reachable
  on the internal endpoint, where the canonical paths other than \<open>/metrics\<close> go to the handler of the replication interface.
\<close>

theorem secondary_external_closed:
  fixes sv :: "('s, 't, 'n, 'm) secondary_world server_pkg"
  shows "\<exists>reg' ext int h. secondary_servers sv mf conf publicKey reg = (reg', Ok (ext, int))
   \<and> hs_Addr ext = ExternalEndpoint conf \<and> hs_Addr int = InternalEndpoint conf
   \<and> (\<forall>req w. fst (hs_Handler ext req w) = w)
   \<and> (\<forall>req w. rq_RequestURI req \<noteq> ''*'' \<longrightarrow> \<not> unclean req \<longrightarrow> hs_Handler ext req w = (w, plain_response 404))
   \<and> (\<forall>req w. rq_RequestURI req \<noteq> ''*'' \<longrightarrow> following_redirects (hs_Handler ext) req w = (w, plain_response 404))
   \<and> (\<forall>req w. rq_RequestURI req \<noteq> ''*'' \<longrightarrow> \<not> unclean req \<longrightarrow> hs_Handler int req w =
       (if rq_Path req = ''/metrics'' then promhttp_Handler sv req w
        else if rooted (rq_Path req) then NewSecondary sv h
          (\<lambda>w. case GetSecondaryTreeHead (sn_node (sw_node w)) (sw_store w) of (s, r) \<Rightarrow> (w\<lparr>sw_store := s\<rparr>, r)) req w
        else (w, plain_response 404)))"
proof (rule secondary_servers_exact)
  fix reg' ext int h
  assume *: "secondary_servers sv mf conf publicKey reg = (reg', Ok (ext, int))"
    "hs_Addr ext = ExternalEndpoint conf" "hs_Addr int = InternalEndpoint conf"
    and ext: "\<And>req w. hs_Handler ext req w = (w, if rq_RequestURI req = ''*'' then plain_response 400
        else if unclean req then redirect (cleanPath (rq_Path req)) (rq_RawQuery req) else plain_response 404)"
    and int: "\<And>req w. hs_Handler int req w =
       (if rq_RequestURI req = ''*'' then (w, plain_response 400)
        else if unclean req then (w, redirect (cleanPath (rq_Path req)) (rq_RawQuery req))
        else if rq_Path req = ''/metrics'' then promhttp_Handler sv req w
        else if rooted (rq_Path req) then NewSecondary sv h
          (\<lambda>w. case GetSecondaryTreeHead (sn_node (sw_node w)) (sw_store w) of (s, r) \<Rightarrow> (w\<lparr>sw_store := s\<rparr>, r)) req w
        else (w, plain_response 404))"
  have "following_redirects (hs_Handler ext) req w = (w, plain_response 404)" if "rq_RequestURI req \<noteq> ''*''" for req w
    using that cleanPath_request by (simp add: following_redirects_def ext redirect_def plain_response_def)
  then show ?thesis
    using * by (intro exI [of _ reg'] exI [of _ ext] exI [of _ int] exI [of _ h]) (simp add: ext int)
qed

definition sample_server_pkg :: "(Leaf list, hash list, unit, sample_metrics) secondary_world server_pkg" where
  "sample_server_pkg = \<lparr>NewLog = \<lambda>c l req w. (w, plain_response 200), NewGetLeavesServer = \<lambda>c g req w. (w, plain_response 200),
     NewSecondary = \<lambda>c h req w. (fst (h w), plain_response 200), promhttp_Handler = \<lambda>req w. (w, plain_response 200)\<rparr>"

abbreviation (input) sample_get :: "string \<Rightarrow> http_request" where
  "sample_get path \<equiv> \<lparr>rq_Method = ''GET'', rq_RequestURI = path, rq_Path = path, rq_RawQuery = ''''\<rparr>"

theorem secondary_external_closed_witness:
  "\<exists>reg' ext int. secondary_servers sample_server_pkg sample_monitoring NewConfig ''key'' ((\<lambda>_ _. 0), (\<lambda>_ _. [])) = (reg', Ok (ext, int))
   \<and> (\<forall>w. following_redirects (hs_Handler ext) (sample_get ''//a'') w = (w, plain_response 404))
   \<and> (\<forall>w. hs_Handler int (sample_get ''/metrics'') w = (w, plain_response 200))"
proof -
  have m: "\<not> unclean (sample_get ''/metrics'')"
    by (simp add: unclean_def cleanPath_def path_Clean_def join_slash_def)
  obtain reg' ext int h where
    "secondary_servers sample_server_pkg sample_monitoring NewConfig ''key'' ((\<lambda>_ _. 0), (\<lambda>_ _. [])) = (reg', Ok (ext, int))"
    "\<And>req w. rq_RequestURI req \<noteq> ''*'' \<Longrightarrow> following_redirects (hs_Handler ext) req w = (w, plain_response 404)"
    "\<And>req w. rq_RequestURI req \<noteq> ''*'' \<Longrightarrow> \<not> unclean req \<Longrightarrow> hs_Handler int req w =
       (if rq_Path req = ''/metrics'' then promhttp_Handler sample_server_pkg req w
        else if rooted (rq_Path req) then NewSecondary sample_server_pkg h
          (\<lambda>w. case GetSecondaryTreeHead (sn_node (sw_node w)) (sw_store w) of (s, r) \<Rightarrow> (w\<lparr>sw_store := s\<rparr>, r)) req w
        else (w, plain_response 404))"
    using secondary_external_closed [of sample_server_pkg sample_monitoring NewConfig "''key''" "((\<lambda>_ _. 0), (\<lambda>_ _. []))"] by blast
  note facts = this
  have "following_redirects (hs_Handler ext) (sample_get ''//a'') w = (w, plain_response 404)" for w by (simp add: facts(2))
  moreover have "hs_Handler int (sample_get ''/metrics'') w = (w, plain_response 200)" for w
    using facts(3) [OF _ m, of w] by (simp add: sample_server_pkg_def)
  ultimately show ?thesis using facts(1) by blast
qed

end
