(* ===== verification/Server_Main.thy ===== *)
theory Server_Main
  imports Go_Prelude
begin

text \<open>
  The life of a server process (\<open>main\<close> of \<open>sigsum-log-primary\<close> and
  \<open>sigsum-log-secondary\<close>): three goroutines under a wait group, a context that is
  cancelled by a signal or by any of them, and an orderly shutdown.  The two programs are data, one list of
  statements per goroutine; a step executes the next statement of any goroutine, so that every
  interleaving is a run.  A statement that blocks has no result.
\<close>

section \<open>The programs\<close>

datatype thread = MainThread | Manager | Internal | External

datatype stmt =
    WgAdd \<comment> \<open>\<open>wg.Add(1)\<close>\<close>
  | Go thread
  | RunNode \<comment> \<open>\<open>Stateman.Run(ctx, ...)\<close> or \<open>node.Run(ctx)\<close>: returns when the context is done\<close>
  | ListenAndServe \<comment> \<open>of the goroutine's own server; assigns the shared variable \<open>err\<close>\<close>
  | LogIfFailed \<comment> \<open>\<open>err != http.ErrServerClosed\<close>\<close>
  | Cancel
  | WgDone
  | AwaitDone \<comment> \<open>\<open><-ctx.Done()\<close>\<close>
  | Shutdown thread
  | WgWait

fun primary_program :: "thread \<Rightarrow> stmt list" where
  "primary_program MainThread =
     [WgAdd, Go Manager, WgAdd, Go Internal, WgAdd, Go External, AwaitDone, Shutdown External, Shutdown Internal,
      Cancel, WgWait]"
| "primary_program Manager = [RunNode, Cancel, WgDone]"
| "primary_program Internal = [ListenAndServe, LogIfFailed, Cancel, WgDone]"
| "primary_program External = [ListenAndServe, LogIfFailed, Cancel, WgDone]"

fun secondary_program :: "thread \<Rightarrow> stmt list" where
  "secondary_program MainThread =
     [WgAdd, Go Manager, WgAdd, Go Internal, WgAdd, Go External, AwaitDone, Shutdown External, Shutdown Internal,
      Cancel, WgWait]"
| "secondary_program Manager = [RunNode, Cancel, WgDone]"
| "secondary_program Internal = [ListenAndServe, LogIfFailed, Cancel, WgDone]"
| "secondary_program External = [ListenAndServe, LogIfFailed, Cancel, WgDone]"

section \<open>The process\<close>

record process =
  ps_ctx :: bool \<comment> \<open>the context is cancelled\<close>
  ps_wg :: nat
  ps_err :: go_error
  ps_shut :: "thread \<Rightarrow> bool"
  ps_code :: "thread \<Rightarrow> stmt list option" \<comment> \<open>what a thread still has to do; \<open>None\<close> before it is started\<close>
  ps_log :: "thread list" \<comment> \<open>the servers whose failure was logged\<close>

definition ErrServerClosed :: go_error where
  "ErrServerClosed = ExtError ''http: Server closed''"

definition main_init :: "(thread \<Rightarrow> stmt list) \<Rightarrow> go_error \<Rightarrow> process" where
  "main_init prog err = \<lparr>ps_ctx = False, ps_wg = 0, ps_err = err, ps_shut = \<lambda>_. False,
     ps_code = case_thread (Some (prog MainThread)) None None None, ps_log = []\<rparr>"

fun exec_stmt :: "(thread \<Rightarrow> stmt list) \<Rightarrow> thread \<Rightarrow> stmt \<Rightarrow> process \<Rightarrow> process option" where
  "exec_stmt prog t WgAdd s = Some (s\<lparr>ps_wg := ps_wg s + 1\<rparr>)"
| "exec_stmt prog t (Go u) s = Some (s\<lparr>ps_code := (ps_code s)(u := Some (prog u))\<rparr>)"
| "exec_stmt prog t RunNode s = (if ps_ctx s then Some s else None)"
| "exec_stmt prog t ListenAndServe s = (if ps_shut s t then Some (s\<lparr>ps_err := ErrServerClosed\<rparr>) else None)"
| "exec_stmt prog t LogIfFailed s = Some (if ps_err s \<noteq> ErrServerClosed then s\<lparr>ps_log := ps_log s @ [t]\<rparr> else s)"
| "exec_stmt prog t Cancel s = Some (s\<lparr>ps_ctx := True\<rparr>)"
| "exec_stmt prog t WgDone s = Some (s\<lparr>ps_wg := ps_wg s - 1\<rparr>)"
| "exec_stmt prog t AwaitDone s = (if ps_ctx s then Some s else None)"
| "exec_stmt prog t (Shutdown u) s = Some (s\<lparr>ps_shut := (ps_shut s)(u := True)\<rparr>)"
| "exec_stmt prog t WgWait s = (if ps_wg s = 0 then Some s else None)"

definition exited :: "process \<Rightarrow> bool" where
  "exited s \<longleftrightarrow> ps_code s MainThread = Some []"

definition advance_thread :: "thread \<Rightarrow> stmt list \<Rightarrow> process \<Rightarrow> process" where
  "advance_thread t cs s = s\<lparr>ps_code := (ps_code s)(t := Some cs)\<rparr>"

datatype step_label = Program | Environment \<comment> \<open>a signal, or a server that fails\<close>

inductive main_step :: "(thread \<Rightarrow> stmt list) \<Rightarrow> step_label \<Rightarrow> process \<Rightarrow> process \<Rightarrow> bool" for prog where
  exec: "\<not> exited s \<Longrightarrow> ps_code s t = Some (c # cs) \<Longrightarrow> exec_stmt prog t c (advance_thread t cs s) = Some s' \<Longrightarrow>
    main_step prog Program s s'"
| signal: "\<not> exited s \<Longrightarrow> \<not> ps_ctx s \<Longrightarrow> main_step prog Environment s (s\<lparr>ps_ctx := True\<rparr>)"
| server_fails: "\<not> exited s \<Longrightarrow> ps_code s t = Some (ListenAndServe # cs) \<Longrightarrow> e \<noteq> ErrServerClosed \<Longrightarrow>
    main_step prog Environment s ((advance_thread t cs s)\<lparr>ps_err := e\<rparr>)"

inductive main_runs :: "(thread \<Rightarrow> stmt list) \<Rightarrow> nat \<Rightarrow> process \<Rightarrow> bool" for prog where
  init: "main_runs prog 0 (main_init prog err)"
| step: "main_runs prog n s \<Longrightarrow> main_step prog l s s' \<Longrightarrow> main_runs prog (Suc n) s'"

inductive_cases main_stepE: "main_step prog l s s'"

section \<open>Reachable states\<close>

text \<open>
  A reachable state is determined by how far each thread has come, up to the context, the error and
  the log.
\<close>

type_synonym progress = "thread \<Rightarrow> nat"

fun started_at :: "thread \<Rightarrow> nat" where
  \<comment> \<open>the position of the \<open>go\<close> statement in \<open>main\<close>\<close>
  "started_at MainThread = 0"
| "started_at Manager = 1"
| "started_at Internal = 3"
| "started_at External = 5"

definition started :: "progress \<Rightarrow> thread \<Rightarrow> bool" where
  "started q t \<longleftrightarrow> t = MainThread \<or> started_at t < q MainThread"

definition code_at :: "progress \<Rightarrow> thread \<Rightarrow> stmt list option" where
  "code_at q t = (if started q t then Some (drop (q t) (primary_program t)) else None)"

definition live :: "progress \<Rightarrow> thread \<Rightarrow> nat" where
  "live q t = of_bool (started q t \<and> q t < length (primary_program t))"

definition live_count :: "progress \<Rightarrow> nat" where
  \<comment> \<open>what the wait group holds\<close>
  "live_count q = live q Manager + live q Internal + live q External + of_bool (q MainThread \<in> {1, 3, 5})"

definition progress_ok :: "progress \<Rightarrow> bool \<Rightarrow> bool" where
  "progress_ok q ctx \<longleftrightarrow> (\<forall>t. q t \<le> length (primary_program t)) \<and> (\<forall>t. \<not> started q t \<longrightarrow> q t = 0)
     \<and> (6 < q MainThread \<longrightarrow> ctx) \<and> (\<forall>t. t \<noteq> MainThread \<longrightarrow> length (primary_program t) \<le> Suc (q t) \<longrightarrow> ctx)
     \<and> (q MainThread = 11 \<longrightarrow> (\<forall>t. q t = length (primary_program t)))"

definition describes :: "progress \<Rightarrow> process \<Rightarrow> bool" where
  "describes q s \<longleftrightarrow> progress_ok q (ps_ctx s) \<and> ps_code s = code_at q \<and> ps_wg s = live_count q
     \<and> ps_shut s External = (7 < q MainThread) \<and> ps_shut s Internal = (8 < q MainThread)"

definition done_count :: "progress \<Rightarrow> nat" where
  "done_count q = q MainThread + q Manager + q Internal + q External"

lemma upto_11: "k \<le> (11::nat) \<Longrightarrow> k = 0 \<or> k = 1 \<or> k = 2 \<or> k = 3 \<or> k = 4 \<or> k = 5 \<or> k = 6 \<or> k = 7 \<or> k = 8 \<or> k = 9 \<or> k = 10 \<or> k = 11"
  by presburger

lemma program_length [simp]: "length (primary_program t) = (case t of MainThread \<Rightarrow> 11 | Manager \<Rightarrow> 3 | _ \<Rightarrow> 4)"
  by (cases t) simp_all

declare primary_program.simps [simp del]

lemma main_stmt:
  assumes "k < 11"
  shows "primary_program MainThread ! k = (if k \<in> {0, 2, 4} then WgAdd else if k = 1 then Go Manager else if k = 3 then Go Internal
    else if k = 5 then Go External else if k = 6 then AwaitDone else if k = 7 then Shutdown External
    else if k = 8 then Shutdown Internal else if k = 9 then Cancel else WgWait)"
  using upto_11 [OF less_imp_le [OF assms]] assms by (elim disjE) (simp_all add: primary_program.simps)

lemma worker_stmt:
  assumes "t \<noteq> MainThread" and "k < length (primary_program t)"
  shows "primary_program t ! k = (if Suc k = length (primary_program t) then WgDone
    else if Suc (Suc k) = length (primary_program t) then Cancel
    else if k = 1 then LogIfFailed else if t = Manager then RunNode else ListenAndServe)"
  using assms by (cases t) (auto simp: primary_program.simps less_Suc_eq numeral_eq_Suc)

lemma drop_eq_Cons: "drop k xs = c # cs \<Longrightarrow> k < length xs \<and> c = xs ! k \<and> cs = drop (Suc k) xs"
  by (metis Cons_nth_drop_Suc drop_all list.distinct(1) list.inject not_le)

lemma describes_code:
  assumes "describes q s" and "ps_code s t = Some (c # cs)"
  shows "started q t" "q t < length (primary_program t)" "c = primary_program t ! q t" "cs = drop (Suc (q t)) (primary_program t)"
proof -
  have "started q t" "drop (q t) (primary_program t) = c # cs"
    using assms by (auto simp: describes_def code_at_def split: if_splits)
  then show "started q t" "q t < length (primary_program t)" "c = primary_program t ! q t" "cs = drop (Suc (q t)) (primary_program t)"
    using drop_eq_Cons by metis+
qed

lemma started_worker: "t \<noteq> MainThread \<Longrightarrow> started (q(t := k)) u = started q u"
  by (auto simp: started_def)

lemma code_worker: "t \<noteq> MainThread \<Longrightarrow> started q t \<Longrightarrow> (code_at q)(t \<mapsto> drop k (primary_program t)) = code_at (q(t := k))"
  by (auto simp: fun_eq_iff code_at_def started_worker)

lemma live_worker:
  assumes "t \<noteq> MainThread" and "started q t" and "q t < length (primary_program t)"
  shows "live_count (q(t := Suc (q t))) = live_count q - of_bool (Suc (q t) = length (primary_program t))"
  using assms by (cases t) (auto simp: live_count_def live_def started_worker)

lemma exec_worker:
  assumes q: "describes q s" and t: "t \<noteq> MainThread" and code: "ps_code s t = Some (c # cs)" and run: "\<not> exited s"
    and e: "exec_stmt primary_program t c (advance_thread t cs s) = Some s'"
  shows "describes (q(t := Suc (q t))) s'"
proof -
  note c = describes_code [OF q code]
  have s: "ps_code s = code_at q" "ps_wg s = live_count q" "ps_shut s External = (7 < q MainThread)" "ps_shut s Internal = (8 < q MainThread)"
      "progress_ok q (ps_ctx s)"
    using q by (simp_all add: describes_def)
  have "q MainThread \<noteq> 11" using run s(1) by (auto simp: exited_def code_at_def started_def)
  then have "progress_ok (q(t := Suc (q t))) (ps_ctx s')"
    using s(5) t c(1,2) e unfolding c(3) worker_stmt [OF t c(2)]
    by (auto simp: progress_ok_def started_worker advance_thread_def split: if_splits)
  moreover have "ps_code s' = code_at (q(t := Suc (q t)))" "ps_wg s' = live_count (q(t := Suc (q t)))" "ps_shut s' = ps_shut s"
    using e s(1,2) code_worker [OF t c(1)] live_worker [OF t c(1,2)] c(4) unfolding c(3) worker_stmt [OF t c(2)]
    by (auto simp: advance_thread_def split: if_splits)
  ultimately show ?thesis using s(3,4) t by (simp add: describes_def)
qed

lemma progress_okD:
  assumes "progress_ok q ctx"
  shows "q t \<le> length (primary_program t)" and "\<not> started q t \<Longrightarrow> q t = 0" and "6 < q MainThread \<Longrightarrow> ctx"
    and "t \<noteq> MainThread \<Longrightarrow> length (primary_program t) \<le> Suc (q t) \<Longrightarrow> ctx"
    and "q MainThread = 11 \<Longrightarrow> q t = length (primary_program t)"
  using assms unfolding progress_ok_def by blast+

lemma not_started: "progress_ok q ctx \<Longrightarrow> t \<noteq> MainThread \<Longrightarrow> q MainThread \<le> started_at t \<Longrightarrow> q t = 0"
  using progress_okD(2) [of q ctx t] by (simp add: started_def)

lemma live_main:
  assumes "progress_ok q ctx"
  shows "live_count (q(MainThread := Suc (q MainThread))) = live_count q + of_bool (q MainThread \<in> {0, 2, 4})"
proof -
  have k: "q MainThread \<le> 11" using progress_okD(1) [OF assms, of MainThread] by simp
  have "q MainThread \<le> 1 \<Longrightarrow> q Manager = 0" "q MainThread \<le> 3 \<Longrightarrow> q Internal = 0" "q MainThread \<le> 5 \<Longrightarrow> q External = 0"
    using not_started [OF assms, of Manager] not_started [OF assms, of Internal] not_started [OF assms, of External] by simp_all
  with upto_11 [OF k] show ?thesis
    by (elim disjE) (simp_all add: live_count_def live_def started_def)
qed

lemma live_count_0:
  assumes "progress_ok q ctx" and "live_count q = 0" and "5 < q MainThread" and "t \<noteq> MainThread"
  shows "q t = length (primary_program t)"
proof -
  have "live q t = 0" using assms(2,4) by (cases t) (simp_all add: live_count_def)
  moreover have "started q t" using assms(3) by (cases t) (simp_all add: started_def)
  moreover note progress_okD(1) [OF assms(1), of t]
  ultimately show ?thesis by (simp add: live_def)
qed

lemma started_main: "\<not> started (q(MainThread := Suc (q MainThread))) t \<Longrightarrow> t \<noteq> MainThread \<and> \<not> started q t"
  by (auto simp: started_def)

lemma ok_main:
  assumes "progress_ok q ctx" and "q MainThread < 11" and "q MainThread = 6 \<Longrightarrow> ctx" and "q MainThread = 10 \<Longrightarrow> live_count q = 0"
  shows "progress_ok (q(MainThread := Suc (q MainThread))) ctx"
proof -
  let ?q = "q(MainThread := Suc (q MainThread))"
  note ok = progress_okD [OF assms(1)]
  have 1: "?q t \<le> length (primary_program t)" for t using ok(1) [of t] assms(2) by simp
  have 2: "?q t = 0" if "\<not> started ?q t" for t using started_main [OF that] ok(2) [of t] by simp
  have 3: "6 < ?q MainThread \<Longrightarrow> ctx" using ok(3) assms(3) by (cases "q MainThread = 6") simp_all
  have 4: ctx if "t \<noteq> MainThread" "length (primary_program t) \<le> Suc (?q t)" for t
    using ok(4) [OF that(1)] that by (simp only: fun_upd_apply if_False)
  have 5: "?q t = length (primary_program t)" if "?q MainThread = 11" for t
    using that live_count_0 [OF assms(1), of t] assms(4) by (cases "t = MainThread") simp_all
  show ?thesis unfolding progress_ok_def using 1 2 3 4 5 by blast
qed

lemma code_main:
  assumes "progress_ok q ctx"
  shows "q MainThread \<notin> {1, 3, 5} \<Longrightarrow>
      (code_at q)(MainThread \<mapsto> drop (Suc (q MainThread)) (primary_program MainThread)) = code_at (q(MainThread := Suc (q MainThread)))"
    and "q MainThread = started_at u \<Longrightarrow> u \<noteq> MainThread \<Longrightarrow>
      (code_at q)(MainThread \<mapsto> drop (Suc (q MainThread)) (primary_program MainThread), u \<mapsto> primary_program u)
        = code_at (q(MainThread := Suc (q MainThread)))"
proof -
  show "(code_at q)(MainThread \<mapsto> drop (Suc (q MainThread)) (primary_program MainThread)) = code_at (q(MainThread := Suc (q MainThread)))"
    if "q MainThread \<notin> {1, 3, 5}"
  proof
    fix t
    show "((code_at q)(MainThread \<mapsto> drop (Suc (q MainThread)) (primary_program MainThread))) t = code_at (q(MainThread := Suc (q MainThread))) t"
      using that by (cases t) (auto simp: code_at_def started_def)
  qed
  assume u: "q MainThread = started_at u" "u \<noteq> MainThread"
  then have "q u = 0" using assms by (auto simp: progress_ok_def started_def)
  show "(code_at q)(MainThread \<mapsto> drop (Suc (q MainThread)) (primary_program MainThread), u \<mapsto> primary_program u)
        = code_at (q(MainThread := Suc (q MainThread)))"
  proof
    fix t
    show "((code_at q)(MainThread \<mapsto> drop (Suc (q MainThread)) (primary_program MainThread), u \<mapsto> primary_program u)) t
        = code_at (q(MainThread := Suc (q MainThread))) t"
      using u \<open>q u = 0\<close> by (cases t; cases u) (auto simp: code_at_def started_def)
  qed
qed

lemma exec_main:
  assumes q: "describes q s" and code: "ps_code s MainThread = Some (c # cs)"
    and e: "exec_stmt primary_program MainThread c (advance_thread MainThread cs s) = Some s'"
  shows "describes (q(MainThread := Suc (q MainThread))) s'"
proof -
  note c = describes_code [OF q code]
  have k: "q MainThread < 11" using c(2) by simp
  have s: "ps_code s = code_at q" "ps_wg s = live_count q" "ps_shut s External = (7 < q MainThread)" "ps_shut s Internal = (8 < q MainThread)"
      "progress_ok q (ps_ctx s)"
    using q by (simp_all add: describes_def)
  note main = main_stmt [OF k, folded c(3)]
  have "q MainThread = 6 \<Longrightarrow> ps_ctx s" "q MainThread = 10 \<Longrightarrow> live_count q = 0"
    using e s(2) unfolding main by (simp_all add: advance_thread_def split: if_splits)
  note ok = ok_main [OF s(5) k this]
  have ok': "progress_ok (q(MainThread := Suc (q MainThread))) True" using ok by (simp add: progress_ok_def)
  show ?thesis
    using upto_11 [OF less_imp_le [OF k]] e s ok ok' live_main [OF s(5)] code_main(1) [OF s(5)]
      code_main(2) [OF s(5), of Manager] code_main(2) [OF s(5), of Internal] code_main(2) [OF s(5), of External] c(4) unfolding main
    by (elim disjE) (auto simp: describes_def advance_thread_def split: if_splits)
qed

lemma main_step_describes:
  assumes q: "describes q s" and st: "main_step primary_program l s s'"
  obtains q' where "describes q' s'" "done_count q + of_bool (ps_ctx s) < done_count q' + of_bool (ps_ctx s')"
  using st
proof (cases rule: main_step.cases)
  case (exec t c cs)
  have "describes (q(t := Suc (q t))) s'"
    using exec_main [OF q] exec_worker [OF q] exec by (cases "t = MainThread") auto
  moreover have "ps_ctx s \<longrightarrow> ps_ctx s'" using exec(4) by (cases c) (auto simp: advance_thread_def split: if_splits)
  moreover have "done_count (q(t := Suc (q t))) = done_count q + 1" by (cases t) (simp_all add: done_count_def)
  ultimately show ?thesis using that by fastforce
next
  case signal
  then have "describes q s'" using q by (auto simp: describes_def progress_ok_def)
  then show ?thesis using that signal by simp
next
  case (server_fails t cs e)
  note c = describes_code [OF q server_fails(4)]
  have t: "t \<noteq> MainThread" using c(2,3) main_stmt [of "q MainThread"] by (auto split: if_splits)
  let ?s = "(advance_thread t cs s)\<lparr>ps_err := e\<rparr>"
  have k: "Suc (Suc (q t)) < length (primary_program t)" using c(3) worker_stmt [OF t c(2)] c(2) by (auto split: if_splits)
  have ok: "progress_ok q (ps_ctx s)" using q by (simp add: describes_def)
  have "q MainThread \<noteq> 11" using progress_okD(5) [OF ok, of t] c(2) by auto
  then have "progress_ok (q(t := Suc (q t))) (ps_ctx s)"
    using ok k t c(1) unfolding progress_ok_def by (auto simp: started_worker)
  then have "describes (q(t := Suc (q t))) ?s"
    using q t k code_worker [OF t c(1)] live_worker [OF t c(1,2)] c(4) by (auto simp: describes_def advance_thread_def)
  moreover have "done_count (q(t := Suc (q t))) = done_count q + 1" by (cases t) (simp_all add: done_count_def)
  ultimately show ?thesis using that server_fails(2) by (simp add: advance_thread_def)
qed

lemma main_runs_describes:
  assumes "main_runs primary_program n s"
  obtains q where "describes q s" "n \<le> done_count q + of_bool (ps_ctx s)"
  using assms
proof (induction arbitrary: thesis rule: main_runs.induct)
  case (init err)
  have "describes (\<lambda>_. 0) (main_init primary_program err)"
    by (auto simp: describes_def progress_ok_def started_def code_at_def main_init_def live_count_def live_def fun_eq_iff split: thread.splits)
  then show ?case using init by simp
next
  case (step n s l s')
  obtain q where q: "describes q s" "n \<le> done_count q + of_bool (ps_ctx s)" using step.IH by blast
  obtain q' where "describes q' s'" "done_count q + of_bool (ps_ctx s) < done_count q' + of_bool (ps_ctx s')"
    using main_step_describes [OF q(1) step.hyps(2)] .
  then show ?case using step.prems q(2) by fastforce
qed

lemma done_count_bound: "progress_ok q ctx \<Longrightarrow> done_count q \<le> 22"
  using progress_okD(1) [of q ctx MainThread] progress_okD(1) [of q ctx Manager] progress_okD(1) [of q ctx Internal]
    progress_okD(1) [of q ctx External] by (simp add: done_count_def)

section \<open>Progress\<close>

lemma worker_enabled:
  assumes q: "describes q s" and t: "t \<noteq> MainThread" "started q t" "q t < length (primary_program t)"
    and run: "\<not> exited s" and ctx: "ps_ctx s" and shut: "8 < q MainThread"
  shows "\<exists>s'. main_step primary_program Program s s'"
proof -
  have "ps_shut s t" if "t \<noteq> Manager" using that q t(1) shut by (cases t) (auto simp: describes_def)
  moreover have code: "ps_code s t = Some (primary_program t ! q t # drop (Suc (q t)) (primary_program t))"
    using q t by (simp add: describes_def code_at_def Cons_nth_drop_Suc)
  ultimately have "\<exists>s'. exec_stmt primary_program t (primary_program t ! q t) (advance_thread t (drop (Suc (q t)) (primary_program t)) s) = Some s'"
    unfolding worker_stmt [OF t(1,3)] using ctx by (auto simp: advance_thread_def)
  then show ?thesis using exec [OF run code] by blast
qed

lemma main_enabled:
  assumes q: "describes q s" and run: "\<not> exited s" and ctx: "ps_ctx s"
  shows "\<exists>s'. main_step primary_program Program s s'"
proof -
  have ok: "progress_ok q True" using q ctx by (simp add: describes_def)
  have len: "q MainThread \<le> 11" using progress_okD(1) [OF ok, of MainThread] by simp
  have "q MainThread \<noteq> 11" using run q by (auto simp: exited_def describes_def code_at_def started_def)
  then have k: "q MainThread < 11" using len by simp
  have code: "ps_code s MainThread = Some (primary_program MainThread ! q MainThread # drop (Suc (q MainThread)) (primary_program MainThread))"
    using q k by (simp add: describes_def code_at_def started_def Cons_nth_drop_Suc)
  show ?thesis
  proof (cases "q MainThread = 10 \<and> ps_wg s \<noteq> 0")
    case True
    then have "live q Manager \<noteq> 0 \<or> live q Internal \<noteq> 0 \<or> live q External \<noteq> 0"
      using q by (auto simp: describes_def live_count_def)
    then obtain t where t: "live q t \<noteq> 0" "t \<noteq> MainThread" by blast
    then have "started q t" "q t < length (primary_program t)" by (simp_all add: live_def split: if_splits)
    then show ?thesis using worker_enabled [OF q t(2) _ _ run ctx] True by simp
  next
    case False
    then have "\<exists>s'. exec_stmt primary_program MainThread (primary_program MainThread ! q MainThread)
        (advance_thread MainThread (drop (Suc (q MainThread)) (primary_program MainThread)) s) = Some s'"
      unfolding main_stmt [OF k] using ctx k by (auto simp: advance_thread_def) presburger
    then show ?thesis using exec [OF run code] by blast
  qed
qed

lemma programs_equal: "secondary_program = primary_program"
proof
  show "secondary_program t = primary_program t" for t by (cases t) (simp_all add: primary_program.simps)
qed

text \<open>
  C37: Both server processes shut down completely and in bounded time.  In every interleaving of the main function and its
  three goroutines, of a primary or a secondary: the process takes at most 23 steps in all, so no run goes on forever; once the
  context is cancelled (by a signal or because any of the three goroutines stopped) it can always take
  another step until it exits, so it never deadlocks; and when it exits, all goroutines have run to
  their end and both HTTP servers were shut down.
\<close>

theorem main_shuts_down:
  assumes "main_runs prog n s" and "prog = primary_program \<or> prog = secondary_program"
  shows "n \<le> 23
    \<and> (ps_ctx s \<and> \<not> exited s \<longrightarrow> (\<exists>s'. main_step prog Program s s'))
    \<and> ((\<exists>t. ps_code s t = Some []) \<longrightarrow> ps_ctx s)
    \<and> (exited s \<longrightarrow> (\<forall>t. ps_code s t = Some []) \<and> ps_wg s = 0 \<and> ps_shut s External \<and> ps_shut s Internal)"
proof -
  have prog: "prog = primary_program" using assms(2) programs_equal by auto
  obtain q where q: "describes q s" "n \<le> done_count q + of_bool (ps_ctx s)"
    using main_runs_describes assms(1) prog by blast
  have ok: "progress_ok q (ps_ctx s)" "ps_code s = code_at q" using q(1) by (simp_all add: describes_def)
  have "n \<le> 23" using q(2) done_count_bound [OF ok(1)] by (cases "ps_ctx s") simp_all
  moreover have "ps_ctx s" if "ps_code s t = Some []" for t
    using that ok(2) progress_okD(3,4) [OF ok(1)] by (cases "t = MainThread") (auto simp: code_at_def split: if_splits)
  moreover have "(\<forall>t. ps_code s t = Some []) \<and> ps_wg s = 0 \<and> ps_shut s External \<and> ps_shut s Internal" if "exited s"
  proof -
    have k: "q MainThread = 11"
      using that ok(2) progress_okD(1) [OF ok(1), of MainThread] by (auto simp: exited_def code_at_def started_def)
    have all: "q t = length (primary_program t)" for t using progress_okD(5) [OF ok(1) k] .
    moreover have "started q t" for t using k by (cases t) (simp_all add: started_def)
    ultimately show ?thesis using q(1) k by (simp add: describes_def code_at_def live_count_def live_def)
  qed
  ultimately show ?thesis using main_enabled [OF q(1)] prog by auto
qed

section \<open>Concrete runs\<close>

fun run_threads :: "(thread \<Rightarrow> stmt list) \<Rightarrow> thread list \<Rightarrow> process \<Rightarrow> process option" where
  \<comment> \<open>one statement of each of the given threads, in this order\<close>
  "run_threads prog [] s = Some s"
| "run_threads prog (t # ts) s = (if exited s then None else
     (case ps_code s t of
        Some (c # cs) \<Rightarrow> Option.bind (exec_stmt prog t c (advance_thread t cs s)) (run_threads prog ts)
      | _ \<Rightarrow> None))"

lemma run_threads_runs:
  "main_runs prog n s \<Longrightarrow> run_threads prog ts s = Some s' \<Longrightarrow> main_runs prog (n + length ts) s'"
proof (induction ts arbitrary: n s)
  case (Cons t ts)
  then obtain c cs s1 where "\<not> exited s" "ps_code s t = Some (c # cs)" "exec_stmt prog t c (advance_thread t cs s) = Some s1"
      "run_threads prog ts s1 = Some s'"
    by (auto split: if_splits option.splits list.splits bind_splits)
  then show ?case using Cons.IH [of "Suc n" s1] step [OF Cons.prems(1)] exec by fastforce
qed simp

definition sample_exit :: "go_error \<Rightarrow> process" where
  "sample_exit e = \<lparr>ps_ctx = True, ps_wg = 0, ps_err = e, ps_shut = (\<lambda>_. False)(External := True, Internal := True),
     ps_code = case_thread (Some []) (Some []) (Some []) (Some []), ps_log = []\<rparr>"

lemma sample_shutdown: "main_runs secondary_program 23 (sample_exit ErrServerClosed)"
proof -
  let ?s = "main_init secondary_program ErrNotExist"
  have 1: "main_runs secondary_program 1 (?s\<lparr>ps_ctx := True\<rparr>)"
    using step [OF init signal [of ?s secondary_program]] by (simp add: exited_def main_init_def)
  have "run_threads secondary_program (replicate 6 MainThread @ replicate 3 Manager @ replicate 3 MainThread @ replicate 4 Internal
      @ replicate 4 External @ replicate 2 MainThread) (?s\<lparr>ps_ctx := True\<rparr>) = Some (sample_exit ErrServerClosed)"
    by (simp add: numeral_eq_Suc exited_def main_init_def advance_thread_def sample_exit_def fun_eq_iff split: thread.splits)
  from run_threads_runs [OF 1 this] show ?thesis by simp
qed

theorem main_shuts_down_witness:
  "(\<forall>t. ps_code (sample_exit ErrServerClosed) t = Some []) \<and> ps_wg (sample_exit ErrServerClosed) = 0"
  using main_shuts_down [OF sample_shutdown] by (simp add: exited_def sample_exit_def split: thread.splits)

section \<open>The shared error variable\<close>

text \<open>
  Both serving goroutines assign the variable \<open>err\<close> of \<open>main\<close> and test it afterwards.  So a run
  exists in which the internal server fails, another server that closes regularly overwrites the
  error before it is tested, and the process exits without having logged the failure.
\<close>

lemma serve_error_can_be_lost:
  assumes "e \<noteq> ErrServerClosed"
  shows "\<exists>s s1 s2. main_runs primary_program 9 s \<and> ps_code s Internal = Some (primary_program Internal)
    \<and> s1 = (advance_thread Internal (tl (primary_program Internal)) s)\<lparr>ps_err := e\<rparr> \<and> main_step primary_program Environment s s1
    \<and> run_threads primary_program (External # replicate 3 Internal @ replicate 3 External @ replicate 3 Manager @ replicate 3 MainThread) s1 = Some s2
    \<and> exited s2 \<and> ps_log s2 = []"
proof -
  let ?i = "main_init primary_program ErrNotExist"
  have 1: "main_runs primary_program 1 (?i\<lparr>ps_ctx := True\<rparr>)"
    using step [OF init signal [of ?i primary_program]] by (simp add: exited_def main_init_def primary_program.simps)
  define s where "s = ?i\<lparr>ps_ctx := True, ps_wg := 3, ps_shut := (\<lambda>_. False)(External := True),
    ps_code := case_thread (Some [Shutdown Internal, Cancel, WgWait]) (Some (primary_program Manager)) (Some (primary_program Internal)) (Some (primary_program External))\<rparr>"
  have "run_threads primary_program (replicate 8 MainThread) (?i\<lparr>ps_ctx := True\<rparr>) = Some s"
    unfolding s_def by (simp add: numeral_eq_Suc exited_def main_init_def advance_thread_def primary_program.simps fun_eq_iff split: thread.splits)
  from run_threads_runs [OF 1 this] have s: "main_runs primary_program 9 s" by simp
  let ?s1 = "(advance_thread Internal (tl (primary_program Internal)) s)\<lparr>ps_err := e\<rparr>"
  have code: "ps_code s Internal = Some (primary_program Internal)" "\<not> exited s" by (simp_all add: s_def exited_def)
  then have fail: "main_step primary_program Environment s ?s1"
    using server_fails [OF code(2) _ assms, of Internal "tl (primary_program Internal)"] by (simp add: primary_program.simps)
  have "run_threads primary_program (External # replicate 3 Internal @ replicate 3 External @ replicate 3 Manager @ replicate 3 MainThread) ?s1
      = Some (sample_exit ErrServerClosed)"
    unfolding s_def sample_exit_def
    by (simp add: numeral_eq_Suc exited_def main_init_def advance_thread_def primary_program.simps fun_eq_iff split: thread.splits)
  moreover have "exited (sample_exit ErrServerClosed)" "ps_log (sample_exit ErrServerClosed) = []" by (simp_all add: exited_def sample_exit_def)
  ultimately show ?thesis using s code(1) fail by blast
qed

end
