(* ===== verification/Spec2Isabelle.thy ===== *)
theory Spec2Isabelle
  imports Cosigning Failover Log_Progress Server_Endpoints Server_Main
begin

text \<open>
  A verification development for the Sigsum log server (\<open>log-go\<close>, under \<open>src/\<close>): the two
  server programs \<open>sigsum-log-primary\<close> and \<open>sigsum-log-secondary\<close>, the tool \<open>sigsum-mktree\<close>
  and the packages under \<open>internal/\<close> that they are made of.

  \<^bold>\<open>The program.\<close>  A primary node accepts leaves from clients, subject to a rate limit, and adds them to a
  database: Trillian, reached over gRPC, or an in-memory log.  A secondary node copies the leaves of the
  primary in order.  The state manager of the primary periodically picks a tree head that the
  secondary has replicated, signs it, stores it in a file, has it cosigned by witnesses and publishes it;
  all other requests are answered relative to the published tree heads.

  \<^bold>\<open>Style.\<close>  A Go function is a HOL function of the same name (a method is prefixed with its type where the
  bare name would clash).  Its result is of type \<open>result\<close>: a value, an error, or a panic
  (\<open>Go_Prelude\<close>).  State is passed explicitly: the receiver's record, the disk (\<open>fsys\<close>), and a type variable
  for the world beyond it.  \<open>uint64\<close>, \<open>int64\<close> and \<open>int\<close> are 64-bit words wherever they are sizes or
  indices.  A method that takes a mutex is one atomic step; the limiter's \<open>AccessAllowed\<close>, which takes
  the locks of its schedule and of its counters one after the other, is one step, too.  Contexts, deadlines and clocks appear as arguments, or as
  errors of the called operations.  Log messages and the text of errors beyond the format are left
  out.  A file that cannot be opened or read is one fault of the disk; durations in metrics are rational numbers
  instead of \<open>float64\<close>.  Code outside of this repository is a parameter (\<open>leaf_codec\<close>, \<open>merkle_pkg\<close>, \<open>trillian\<close>,
  \<open>safefile\<close>, \<open>sth_pkg\<close>, \<open>witness_pkg\<close>, \<open>toml_decoder\<close>, \<open>opt_parser\<close>, \<open>monitoring\<close>, \<open>server_pkg\<close>, the fields of
  \<open>setup_env\<close>),
  with what the server relies on as a predicate (\<open>codec_ok\<close>, \<open>merkle_ok\<close>, \<open>trillian_ok\<close>, \<open>safefile_ok\<close>,
  \<open>integrates\<close>, \<open>dedups\<close>, \<open>reads_at_rest\<close>, \<open>answers_at_rest\<close>, \<open>sth_codec_ok\<close>, \<open>sign_ok\<close>, \<open>toml_ok\<close>, \<open>getopt_ok\<close>, \<open>monitoring_ok\<close>); each has an instance, used in the concrete
  examples that stand beside the theorems.

  \<^bold>\<open>Theories.\<close>
  \<^item> \<open>Go_Prelude\<close>, \<open>Go_Text\<close>: words, errors and outcomes, and the functions of Go's standard library on
    byte strings that the code uses (\<open>bufio.Scanner\<close> with its token limit, \<open>strings\<close>, \<open>strconv\<close>, \<open>hex\<close>).
  \<^item> \<open>Access_Count\<close>, \<open>Rate_Config\<close>, \<open>Domain_Db\<close>, \<open>Limiter\<close> (\<open>internal/rate-limit\<close>): counters with exact undo;
    the meaning of every configuration and suffix file; longest-match lookup of public suffixes; the
    limiter as one counter over tickets (a locale), its invariant, precedence of rules and daily limit.
  \<^item> \<open>Api_Types\<close>, \<open>Db_Client\<close>: the types of \<open>sigsum-go\<close> that the server passes around, and the interface
    \<open>db.Client\<close> as locales: \<open>db_contract\<close> (append-only log), \<open>replica_db\<close> (only what was submitted for an
    index is ever at it), \<open>integrating_db\<close> (what was submitted is integrated, at once or with bounded delay),
    \<open>leaf_tracker\<close> (a repeated leaf is recognised).
  \<^item> \<open>Memory_Db\<close>, \<open>Trillian_Client\<close> (\<open>internal/db\<close>): both backends, which interpret these locales; refinement of
    the in-memory backend to a list of leaves; checking of backend responses and bounded retries.  Safety properties
    of the Trillian backend rest on \<open>trillian_ok\<close> (an append-only tree); progress rests on what a working service does:
    its signer runs from time to time (\<open>integrates\<close>), it recognises leaves (\<open>dedups\<close>), and at rest it answers.
  \<^item> \<open>Sth_File\<close>, \<open>Replication\<close>, \<open>State_Manager\<close> (\<open>internal/state\<close>): the tree head file under faults of the
    file system, the choice of the next tree head, and the state manager; monotonicity of what is published,
    recovery from a crash at any point.
  \<^item> \<open>Witness\<close> (\<open>internal/witness\<close>), \<open>Cosigning\<close>: the query loop (a partial function with its
    termination by the deadline of the context), the collector as a step relation of goroutines and a channel, and the
    cosignatures that a run of the state manager publishes, with the collector made from the witness policy.
  \<^item> \<open>Primary_Node\<close>, \<open>Secondary_Node\<close> (\<open>internal/node\<close>): all handlers, with the rate limiter as a
    locale and what sequences of requests cost, and the copying loop.
  \<^item> \<open>Log_System\<close>: primary, secondary and state manager together; the locale \<open>replicated_world\<close>, interpreted
    for two Trillian backends with every interleaving of client requests and copying rounds between the
    calls of the state manager; completeness of a run of the copying loop, on Trillian and on the in-memory backend.
  \<^item> \<open>Log_Progress\<close>: the way of one leaf through the whole system, on Trillian, from the client's first request
    to the published tree head and the acknowledgement.
  \<^item> \<open>Server_Config\<close> (\<open>internal/config\<close>), \<open>Server_Setup\<close> (\<open>cmd/\<close>): effective configuration, startup
    and setup of both nodes, and the tool \<open>sigsum-mktree\<close>.  The type of a Trillian tree is read from the state of the
    service, since a failover changes it.
  \<^item> \<open>Failover\<close>: promotion of a secondary to primary by \<open>sigsum-mktree\<close> and a restart, and what
    of the published log survives it.
  \<^item> \<open>Metrics\<close> (\<open>internal/metrics\<close>), \<open>Server_Endpoints\<close> (\<open>cmd/\<close>): the counters and the latency histogram;
    the request multiplexers of both processes, that is, which handler answers which path on which port.
  \<^item> \<open>Server_Main\<close> (\<open>cmd/\<close>): the goroutines of both server processes, each a list of statements, and
    their shutdown, as a state machine that executes them.  The periodic loops of the nodes (\<open>Stateman.Run\<close>, \<open>node.Run\<close>) are
    single statements there, which end when the context is cancelled, and \<open>Shutdown\<close> does not block; what a loop does is the
    subject of the other theories.

  \<^bold>\<open>Loops.\<close>  Loops over data are structural recursion; the lookup in the suffix list and the retry loop have
  termination proofs; the query loop of a witness and the copying loop of the secondary may run forever, and
  are partial functions for which termination is proved under explicit conditions.  The loops of
  \<open>Run\<close> take one environment, or one tick, per round.  No definition uses fuel.  The bound of 23 steps on a
  server process is the measure of its initial state.

  \<^bold>\<open>Not modelled.\<close>  \<open>internal/mocks\<close> and \<open>tools.go\<close> (generated mocks and the import of their generator), the
  encoding of requests and responses by the handlers of \<open>sigsum-go\<close> (outside of the repository), the
  cryptography (parameters), and the time that calls take.
\<close>

end
